(* ===== verification/Prelude.thy ===== *)
theory Prelude
  imports
    Main
    "HOL-Library.Word"
    "HOL-Library.AList"
    "HOL-Library.Multiset"
    "HOL-Library.List_Lexorder"
    "HOL-Library.Char_ord"
    "HOL-Library.Product_Lexorder"
    "HOL-Library.Option_ord"
begin

text \<open>
  Shared vocabulary of the development: results with errors as values, machine words and
  their big-endian byte strings, hash maps as association lists, and the list lemmas the
  components use.

  Conventions. A Rust \<open>Result\<close> is a sum, \<open>Err e\<close> on the left and \<open>Ok x\<close> on the right.
  A \<open>HashMap\<close> is an association list whose order stands for the (unspecified) iteration
  order of the map; insertion is \<open>AList.update\<close>, look-up is \<open>map_of\<close>. A \<open>HashSet\<close> is a
  list without duplicates, used through \<open>List.insert\<close> and membership. Strings order as
  Rust's \<open>str\<close> does, byte by byte with the shorter prefix first.
\<close>

section \<open>Results\<close>

text \<open>
  Collections: \<open>result_iff\<close>, when a computation with errors succeeds or fails; \<open>table_simps\<close>, look-ups in
  tables after an update.
\<close>

named_theorems result_iff
named_theorems table_simps

abbreviation Ok :: "'a \<Rightarrow> 'e + 'a" where
  "Ok \<equiv> Inr"

abbreviation Err :: "'e \<Rightarrow> 'e + 'a" where
  "Err \<equiv> Inl"

text \<open>The question mark operator: stop with the error, or go on with the value.\<close>

definition try_bind :: "'e + 'a \<Rightarrow> ('a \<Rightarrow> 'e + 'b) \<Rightarrow> 'e + 'b" where
  "try_bind r f = (case r of Inl e \<Rightarrow> Inl e | Inr x \<Rightarrow> f x)"

lemma try_bind_Ok [simp]: "try_bind (Ok x) f = f x"
  by (simp add: try_bind_def)

lemma try_bind_Err [simp]: "try_bind (Err e) f = Err e"
  by (simp add: try_bind_def)

lemma try_bind_eq_Ok [result_iff]:
  "try_bind r f = Ok y \<longleftrightarrow> (\<exists>x. r = Ok x \<and> f x = Ok y)"
  by (cases r) auto

lemma try_bind_eq_Err [result_iff]:
  "try_bind r f = Err e \<longleftrightarrow> r = Err e \<or> (\<exists>x. r = Ok x \<and> f x = Err e)"
  by (cases r) auto

lemma try_bind_cong [fundef_cong]:
  "r = r' \<Longrightarrow> (\<And>x. r' = Ok x \<Longrightarrow> f x = g x) \<Longrightarrow> try_bind r f = try_bind r' g"
  by (cases r') auto

text \<open>\<open>ok_or\<close>: an absent value becomes the given error.\<close>

definition ok_or :: "'a option \<Rightarrow> 'e \<Rightarrow> 'e + 'a" where
  "ok_or x e = (case x of None \<Rightarrow> Err e | Some y \<Rightarrow> Ok y)"

lemma ok_or_simps [simp]: "ok_or None e = Err e" "ok_or (Some y) e = Ok y"
  by (simp_all add: ok_or_def)

lemma ok_or_eq_Ok [result_iff]: "ok_or x e = Ok y \<longleftrightarrow> x = Some y"
  by (cases x) auto

section \<open>Machine words and big-endian bytes\<close>

type_synonym byte = "8 word"
type_synonym bytes = "byte list"
type_synonym u32 = "32 word"
type_synonym u64 = "64 word"

text \<open>
  \<open>be_bytes n x\<close> is the last \<open>n\<close> base-256 digits of \<open>x\<close>, the most significant first;
  \<open>be_val\<close> reads such a digit string back.
\<close>

fun be_bytes :: "nat \<Rightarrow> nat \<Rightarrow> bytes" where
  "be_bytes 0 x = []"
| "be_bytes (Suc n) x = be_bytes n (x div 256) @ [word_of_nat (x mod 256)]"

definition be_val :: "bytes \<Rightarrow> nat" where
  "be_val bs = foldl (\<lambda>a b. a * 256 + unat b) 0 bs"

lemma be_val_Nil [simp]: "be_val [] = 0"
  by (simp add: be_val_def)

lemma be_val_snoc [simp]: "be_val (bs @ [b]) = be_val bs * 256 + unat b"
  by (simp add: be_val_def)

lemma length_be_bytes [simp]: "length (be_bytes n x) = n"
  by (induction n arbitrary: x) auto

lemma unat_byte_of_nat [simp]: "unat (word_of_nat x :: byte) = x mod 256"
  by (simp add: unat_of_nat)

lemma unat_byte_less: "unat (b :: byte) < 256"
  by (rule order_less_le_trans [OF unsigned_less]) simp

lemma unat_u64_less: "unat (w :: u64) < 18446744073709551616"
  by (rule order_less_le_trans [OF unsigned_less]) simp

lemma be_val_be_bytes: "be_val (be_bytes n x) = x mod 256 ^ n"
proof (induction n arbitrary: x)
  case 0
  show ?case by simp
next
  case (Suc n)
  have "x mod (256 * 256 ^ n) = 256 * (x div 256 mod 256 ^ n) + x mod 256"
    by (rule mod_mult2_eq)
  with Suc show ?case by simp
qed

lemma be_val_less: "be_val bs < 256 ^ length bs"
proof (induction bs rule: rev_induct)
  case Nil
  show ?case by simp
next
  case (snoc b bs)
  have "unat b < 256" by (rule unat_byte_less)
  then have "be_val bs * 256 + unat b < (be_val bs + 1) * 256" by simp
  also have "\<dots> \<le> 256 ^ length bs * 256" using snoc by (intro mult_right_mono) auto
  finally show ?case by (simp add: mult.commute)
qed

lemma be_bytes_be_val: "be_bytes (length bs) (be_val bs) = bs"
proof (induction bs rule: rev_induct)
  case Nil
  show ?case by simp
next
  case (snoc b bs)
  have "unat b < 256" by (rule unat_byte_less)
  with snoc show ?case by simp
qed

text \<open>The byte strings of one length order as the numbers they denote.\<close>

lemma be_val_append: "be_val (as @ bs) = be_val as * 256 ^ length bs + be_val bs"
proof (induction bs rule: rev_induct)
  case Nil
  show ?case by simp
next
  case (snoc b bs)
  then show ?case by (simp add: append.assoc [symmetric] algebra_simps del: append_assoc)
qed

lemma be_val_Cons: "be_val (b # bs) = unat b * 256 ^ length bs + be_val bs"
  using be_val_append [of "[b]" bs] be_val_snoc [of "[]" b] by simp

lemma be_val_less_iff:
  "length as = length bs \<Longrightarrow> be_val as < be_val bs \<longleftrightarrow> as < bs"
proof (induction as bs rule: list_induct2)
  case Nil
  show ?case by simp
next
  case (Cons a as b bs)
  let ?p = "256 ^ length bs :: nat"
  have va: "be_val as < ?p" and vb: "be_val bs < ?p"
    using be_val_less [of as] be_val_less [of bs] Cons.hyps by simp_all
  consider (lt) "unat a < unat b" | (eq) "a = b" | (gt) "unat b < unat a"
    by (metis linorder_neqE_nat word_unat_eq_iff)
  then show ?case
  proof cases
    case lt
    then have "(unat a + 1) * ?p \<le> unat b * ?p" by (intro mult_right_mono) auto
    with va have "unat a * ?p + be_val as < unat b * ?p + be_val bs" by simp
    with lt Cons.hyps show ?thesis by (simp add: be_val_Cons word_less_nat_alt)
  next
    case eq
    with Cons show ?thesis by (simp add: be_val_Cons)
  next
    case gt
    then have "(unat b + 1) * ?p \<le> unat a * ?p" by (intro mult_right_mono) auto
    with vb have "unat b * ?p + be_val bs < unat a * ?p + be_val as" by simp
    with gt Cons.hyps show ?thesis by (auto simp: be_val_Cons word_less_nat_alt)
  qed
qed

text \<open>\<open>u64::to_be_bytes\<close> and \<open>u64::from_be_bytes\<close>.\<close>

definition to_be_bytes :: "u64 \<Rightarrow> bytes" where
  "to_be_bytes w = be_bytes 8 (unat w)"

definition from_be_bytes :: "bytes \<Rightarrow> u64" where
  "from_be_bytes bs = word_of_nat (be_val bs)"

lemma length_to_be_bytes [simp]: "length (to_be_bytes w) = 8"
  by (simp add: to_be_bytes_def)

lemma from_to_be_bytes [simp]: "from_be_bytes (to_be_bytes w) = w"
proof -
  have "unat w < 256 ^ 8" using unat_u64_less [of w] by simp
  then show ?thesis by (simp add: from_be_bytes_def to_be_bytes_def be_val_be_bytes)
qed

lemma to_from_be_bytes: "length bs = 8 \<Longrightarrow> to_be_bytes (from_be_bytes bs) = bs"
proof -
  assume l: "length bs = 8"
  then have "be_val bs < 2 ^ 64" using be_val_less [of bs] by simp
  then have "unat (word_of_nat (be_val bs) :: u64) = be_val bs"
    by (simp add: unat_of_nat)
  with l be_bytes_be_val [of bs] show ?thesis
    by (simp add: from_be_bytes_def to_be_bytes_def)
qed

lemma to_be_bytes_inject [simp]: "to_be_bytes v = to_be_bytes w \<longleftrightarrow> v = w"
  by (metis from_to_be_bytes)

lemma to_be_bytes_less_iff: "to_be_bytes v < to_be_bytes w \<longleftrightarrow> v < w"
proof -
  have "be_val (to_be_bytes x) = unat x" for x :: u64
    using unat_u64_less [of x] by (simp add: to_be_bytes_def be_val_be_bytes)
  then show ?thesis
    using be_val_less_iff [of "to_be_bytes v" "to_be_bytes w"] by (simp add: word_less_nat_alt)
qed

lemma list_less_append:
  fixes a b xs ys :: "'a :: linorder list"
  assumes "length a = length b"
  shows "a @ xs < b @ ys \<longleftrightarrow> a < b \<or> a = b \<and> xs < ys"
  using assms by (induction a b rule: list_induct2) auto

text \<open>\<open>slice::starts_with\<close>, and the order of the byte strings that share a prefix.\<close>

definition starts_with :: "bytes \<Rightarrow> bytes \<Rightarrow> bool" where
  "starts_with key pre \<longleftrightarrow> take (length pre) key = pre"

lemma starts_with_iff: "starts_with key pre \<longleftrightarrow> (\<exists>rest. key = pre @ rest)"
  by (metis append_eq_conv_conj append_take_drop_id starts_with_def)

lemma starts_with_le: "starts_with key pre \<Longrightarrow> pre \<le> key"
proof -
  have "pre \<le> pre @ rest" for rest
    by (induction pre) auto
  then show "starts_with key pre \<Longrightarrow> pre \<le> key" by (auto simp: starts_with_iff)
qed

text \<open>Between a prefix and a key that starts with it there are only keys that start with it.\<close>

lemma starts_with_between:
  "pre \<le> k \<Longrightarrow> k \<le> key \<Longrightarrow> starts_with key pre \<Longrightarrow> starts_with k pre"
proof (induction pre arbitrary: k key)
  case Nil
  show ?case by (simp add: starts_with_def)
next
  case (Cons p pre)
  then obtain c k' c' key' where "k = c # k'" "key = c' # key'"
    by (cases k; cases key) (auto simp: starts_with_def)
  with Cons show ?case by (fastforce simp: starts_with_def)
qed

section \<open>Association lists\<close>

lemmas hash_map_simps [table_simps] = AList.update_conv' AList.delete_conv' AList.dom_update

lemma set_AList_update: "x \<in> set (AList.update k v m) \<Longrightarrow> x = (k, v) \<or> x \<in> set m"
  by (induction m) (auto split: if_splits)

lemma map_of_in_keys: "map_of m k = Some v \<Longrightarrow> k \<in> fst ` set m"
  by (force dest: map_of_SomeD)

lemma map_of_iff_mem:
  "distinct (map fst m) \<Longrightarrow> map_of m k = Some v \<longleftrightarrow> (k, v) \<in> set m"
  by (auto dest: map_of_SomeD intro: map_of_is_SomeI)

text \<open>\<open>HashMap::extend\<close>: every entry of the second map is inserted into the first.\<close>

definition hm_extend :: "('k \<times> 'v) list \<Rightarrow> ('k \<times> 'v) list \<Rightarrow> ('k \<times> 'v) list" where
  "hm_extend m m' = fold (\<lambda>(k, v). AList.update k v) m' m"

lemma map_of_hm_extend:
  "distinct (map fst m') \<Longrightarrow> map_of (hm_extend m m') = map_of m ++ map_of m'"
proof (induction m' arbitrary: m)
  case Nil
  show ?case by (simp add: hm_extend_def)
next
  case (Cons p m')
  obtain k v where p: "p = (k, v)" by (cases p)
  from Cons.prems p have k: "map_of m' k = None" by (auto simp: map_of_eq_None_iff)
  have "map_of (hm_extend m (p # m')) = map_of (AList.update k v m) ++ map_of m'"
    using Cons.IH [of "AList.update k v m"] Cons.prems p by (simp add: hm_extend_def)
  also have "\<dots> = (map_of m)(k \<mapsto> v) ++ map_of m'"
    by (simp add: AList.update_conv')
  also have "\<dots> = map_of m ++ map_of (p # m')"
    using k p by (auto simp: map_add_def fun_eq_iff split: option.splits)
  finally show ?case .
qed

lemma distinct_hm_extend:
  "distinct (map fst m) \<Longrightarrow> distinct (map fst (hm_extend m m'))"
  unfolding hm_extend_def
  by (induction m' arbitrary: m) (auto simp: AList.distinct_update)

section \<open>Lists\<close>

text \<open>\<open>Vec::push\<close> guarded by \<open>!v.contains(x)\<close>.\<close>

definition push_unique :: "'a list \<Rightarrow> 'a \<Rightarrow> 'a list" where
  "push_unique xs x = (if x \<in> set xs then xs else xs @ [x])"

lemma set_push_unique [simp]: "set (push_unique xs x) = insert x (set xs)"
  by (auto simp: push_unique_def)

lemma distinct_push_unique [simp]: "distinct (push_unique xs x) \<longleftrightarrow> distinct xs"
  by (auto simp: push_unique_def)

lemma takeWhile_sorted:
  assumes "sorted (map f xs)"
    and "\<And>x y. x \<in> set xs \<Longrightarrow> y \<in> set xs \<Longrightarrow> f x \<le> f y \<Longrightarrow> P y \<Longrightarrow> P x"
  shows "takeWhile P xs = filter P xs"
  using assms
proof (induction xs)
  case (Cons x xs)
  show ?case
  proof (cases "P x")
    case True
    have "takeWhile P xs = filter P xs"
      using Cons.prems by (intro Cons.IH) auto
    then show ?thesis using True by simp
  next
    case False
    have "\<not> P y" if "y \<in> set xs" for y
      using False that Cons.prems(1) Cons.prems(2) [of x y] by auto
    then show ?thesis using False by (simp add: filter_empty_conv)
  qed
qed simp

lemma sorted_unique:
  "sorted xs \<Longrightarrow> sorted ys \<Longrightarrow> mset xs = mset ys \<Longrightarrow> xs = ys"
  using properties_for_sort properties_for_sort [of ys xs] by metis

end
