(* ===== verification/Room_Version.thy ===== *)
theory Room_Version
  imports Prelude
begin

text \<open>
  \<open>core/matrix/state_res/room_version.rs\<close> and \<open>error.rs\<close>: the feature flags of a room
  version, the table of the supported versions, and the errors of state resolution.
\<close>

section \<open>Errors\<close>

text \<open>
  The four constructors of \<open>Error\<close>, and two outcomes the Rust type does not carry: a panic
  (an \<open>expect\<close> or \<open>unwrap\<close> that fails), and a loop whose bound ran out.
\<close>

datatype error =
    SerdeJson
  | Unsupported string
  | NotFound string
  | InvalidPdu string
  | Panic string
  | OutOfFuel

section \<open>Versions\<close>

datatype room_disposition = Stable | Unstable

datatype event_format_version = EventFormatV1 | EventFormatV2 | EventFormatV3

datatype state_resolution_version = StateResV1 | StateResV2

record room_version =
  disposition :: room_disposition
  event_format :: event_format_version
  state_res :: state_resolution_version
  enforce_key_validity :: bool
  special_case_aliases_auth :: bool
  strict_canonicaljson :: bool
  limit_notifications_power_levels :: bool
  extra_redaction_checks :: bool
  allow_knocking :: bool
  restricted_join_rules :: bool
  knock_restricted_join_rule :: bool
  integer_power_levels :: bool
  use_room_create_sender :: bool

text \<open>The identifiers: the eleven known versions and any other string.\<close>

datatype room_version_id =
    Id_V1 | Id_V2 | Id_V3 | Id_V4 | Id_V5 | Id_V6 | Id_V7 | Id_V8 | Id_V9 | Id_V10 | Id_V11
  | Id_Custom string

definition V1 :: room_version where
  "V1 = \<lparr>
     disposition = Stable,
     event_format = EventFormatV1,
     state_res = StateResV1,
     enforce_key_validity = False,
     special_case_aliases_auth = True,
     strict_canonicaljson = False,
     limit_notifications_power_levels = False,
     extra_redaction_checks = True,
     allow_knocking = False,
     restricted_join_rules = False,
     knock_restricted_join_rule = False,
     integer_power_levels = False,
     use_room_create_sender = False\<rparr>"

definition V2 :: room_version where
  "V2 = V1\<lparr>state_res := StateResV2\<rparr>"

definition V3 :: room_version where
  "V3 = V2\<lparr>event_format := EventFormatV2, extra_redaction_checks := False\<rparr>"

definition V4 :: room_version where
  "V4 = V3\<lparr>event_format := EventFormatV3\<rparr>"

definition V5 :: room_version where
  "V5 = V4\<lparr>enforce_key_validity := True\<rparr>"

definition V6 :: room_version where
  "V6 = V5\<lparr>special_case_aliases_auth := False, strict_canonicaljson := True,
     limit_notifications_power_levels := True\<rparr>"

definition V7 :: room_version where
  "V7 = V6\<lparr>allow_knocking := True\<rparr>"

definition V8 :: room_version where
  "V8 = V7\<lparr>restricted_join_rules := True\<rparr>"

definition V9 :: room_version where
  "V9 = V8"

definition V10 :: room_version where
  "V10 = V9\<lparr>knock_restricted_join_rule := True, integer_power_levels := True\<rparr>"

definition V11 :: room_version where
  "V11 = V10\<lparr>use_room_create_sender := True\<rparr>"

lemmas room_version_defs =
  V1_def V2_def V3_def V4_def V5_def V6_def V7_def V8_def V9_def V10_def V11_def

text \<open>\<open>RoomVersion::new\<close>.\<close>

fun RoomVersion_new :: "room_version_id \<Rightarrow> error + room_version" where
  "RoomVersion_new Id_V1 = Ok V1"
| "RoomVersion_new Id_V2 = Ok V2"
| "RoomVersion_new Id_V3 = Ok V3"
| "RoomVersion_new Id_V4 = Ok V4"
| "RoomVersion_new Id_V5 = Ok V5"
| "RoomVersion_new Id_V6 = Ok V6"
| "RoomVersion_new Id_V7 = Ok V7"
| "RoomVersion_new Id_V8 = Ok V8"
| "RoomVersion_new Id_V9 = Ok V9"
| "RoomVersion_new Id_V10 = Ok V10"
| "RoomVersion_new Id_V11 = Ok V11"
| "RoomVersion_new (Id_Custom ver) = Err (Unsupported (''found version `'' @ ver @ ''`''))"

fun_cases RoomVersion_new_OkE: "RoomVersion_new v = Ok rv"

text \<open>The number of a known version, to state how the flags grow along the list.\<close>

fun version_number :: "room_version_id \<Rightarrow> nat option" where
  "version_number Id_V1 = Some 1"
| "version_number Id_V2 = Some 2"
| "version_number Id_V3 = Some 3"
| "version_number Id_V4 = Some 4"
| "version_number Id_V5 = Some 5"
| "version_number Id_V6 = Some 6"
| "version_number Id_V7 = Some 7"
| "version_number Id_V8 = Some 8"
| "version_number Id_V9 = Some 9"
| "version_number Id_V10 = Some 10"
| "version_number Id_V11 = Some 11"
| "version_number (Id_Custom _) = None"

text \<open>
  The flags as the Matrix specification gives them: each is a threshold on the version
  number.
\<close>

lemma RoomVersion_new_supported:
  "RoomVersion_new v = Ok rv \<Longrightarrow> \<exists>n. version_number v = Some n \<and> 1 \<le> n \<and> n \<le> 11"
  by (erule RoomVersion_new_OkE) auto

lemma RoomVersion_new_flags:
  assumes "version_number v = Some n"
  shows "\<exists>rv. RoomVersion_new v = Ok rv
    \<and> (special_case_aliases_auth rv \<longleftrightarrow> n < 6)
    \<and> (limit_notifications_power_levels rv \<longleftrightarrow> 6 \<le> n)
    \<and> (extra_redaction_checks rv \<longleftrightarrow> n < 3)
    \<and> (allow_knocking rv \<longleftrightarrow> 7 \<le> n)
    \<and> (restricted_join_rules rv \<longleftrightarrow> 8 \<le> n)
    \<and> (knock_restricted_join_rule rv \<longleftrightarrow> 10 \<le> n)
    \<and> (integer_power_levels rv \<longleftrightarrow> 10 \<le> n)
    \<and> (use_room_create_sender rv \<longleftrightarrow> 11 \<le> n)"
  using assms by (cases v) (auto simp: room_version_defs)

end
