(* ===== verification/Event.thy ===== *)
theory Event
  imports Room_Version
begin

text \<open>
  \<open>core/matrix/event.rs\<close> and \<open>core/matrix/pdu.rs\<close>: an event as state resolution sees it,
  and the interface of the libraries that read identifiers and event contents (ruma and
  serde_json), which is a parameter of every definition that uses it.
\<close>

section \<open>Events\<close>

text \<open>
  Event types. One type stands for ruma's \<open>TimelineEventType\<close> and \<open>StateEventType\<close>: both
  are the type string of an event, and the conversion between them keeps the string. The
  constructors are the types the code names.
\<close>

datatype event_type =
    RoomCreate | RoomMember | RoomPowerLevels | RoomJoinRules | RoomThirdPartyInvite
  | RoomAliases | RoomRedaction | CustomType string

type_synonym event_id = string
type_synonym user_id = string
type_synonym type_state_key = "event_type \<times> string"
type_synonym 'a state_map = "(type_state_key \<times> 'a) list"

text \<open>
  The trait \<open>Event\<close>: one field per accessor. The content is the raw JSON text.
\<close>

record event =
  ev_id :: event_id
  ev_room :: string
  ev_sender :: user_id
  ev_ts :: nat
  ev_type :: event_type
  ev_content :: string
  ev_state_key :: "string option"
  ev_prev_events :: "event_id list"
  ev_auth_events :: "event_id list"
  ev_redacts :: "event_id option"

section \<open>Contents of events\<close>

text \<open>
  The values that the deserialisers produce. A field \<open>Option<Raw<T>>\<close> is an option of an
  option: absent, present but not a \<open>T\<close>, or present with its value.
\<close>

datatype membership = Join | Invite | Knock | Leave | Ban | CustomMembership string

datatype join_rule =
    InviteRule | KnockRule | PrivateRule | PublicRule
  | RestrictedRule "string list" | KnockRestrictedRule "string list" | CustomRule string

record third_party_invite =
  tp_mxid :: user_id
  tp_token :: string

record third_party_content =
  tpe_public_keys :: "string list option"
  tpe_public_key :: string

text \<open>The two structs \<open>RoomMemberContentFields\<close> of \<open>event_auth.rs\<close>.\<close>

record member_fields =
  mf_membership :: "membership option option"
  mf_join_authorised :: "user_id option option"

record member_auth_fields = member_fields +
  mf_third_party_invite :: "third_party_invite option option"

text \<open>
  \<open>RoomCreateContentFields\<close>: whether the room version field is absent, invalid or valid,
  and whether there is a creator field.
\<close>

record create_fields =
  cf_room_version :: "room_version_id option option"
  cf_creator :: bool

text \<open>\<open>RoomPowerLevelsEventContent\<close>; levels are integers.\<close>

record power_levels =
  pl_ban :: int
  pl_events :: "(event_type \<times> int) list"
  pl_events_default :: int
  pl_invite :: int
  pl_kick :: int
  pl_redact :: int
  pl_state_default :: int
  pl_users :: "(user_id \<times> int) list"
  pl_users_default :: int
  pl_notifications_room :: int

text \<open>\<open>IntRoomPowerLevelsEventContent\<close> of \<open>power_levels.rs\<close>.\<close>

record int_power_levels =
  ipl_ban :: int
  ipl_events :: "(event_type \<times> int) list"
  ipl_events_default :: int
  ipl_invite :: int
  ipl_kick :: int
  ipl_redact :: int
  ipl_state_default :: int
  ipl_users :: "(user_id \<times> int) list"
  ipl_users_default :: int
  ipl_notifications_room :: int

text \<open>\<open>PowerLevelsContentFields\<close>: the users as a vector sorted by user identifier.\<close>

record pl_content_fields =
  pcf_users :: "(user_id \<times> int) list"
  pcf_users_default :: int

section \<open>The identifier and content libraries\<close>

text \<open>
  What the code calls of ruma and serde_json. A deserialiser that fails gives \<open>None\<close>.
  \<^item> \<open>user_server\<close>, \<open>room_server\<close>, \<open>event_server\<close>: \<open>server_name()\<close> of an identifier;
  \<^item> \<open>user_id_valid\<close>: \<open>UserId::try_from\<close> succeeds;
  \<^item> \<open>de_\<dots>\<close>: \<open>from_json_str\<close> at the named struct; the pairs \<open>v1\<close>/\<open>int\<close> are the legacy and
    the integer-only readers of \<open>power_levels.rs\<close>;
  \<^item> \<open>pl_default\<close>: \<open>RoomPowerLevelsEventContent::default()\<close>;
  \<^item> \<open>pl_to_value\<close>: the field of a serialised \<open>RoomPowerLevelsEventContent\<close>, if it is
    written at all; \<open>int_from_value\<close> reads such a field back as an integer;
  \<^item> \<open>base64_parse\<close>: \<open>Base64::parse\<close>.
\<close>

record ruma =
  user_server :: "user_id \<Rightarrow> string"
  room_server :: "string \<Rightarrow> string option"
  event_server :: "event_id \<Rightarrow> string option"
  user_id_valid :: "string \<Rightarrow> bool"
  de_create_fields :: "string \<Rightarrow> create_fields option"
  de_create_federate :: "string \<Rightarrow> bool option"
  de_create_creator :: "string \<Rightarrow> user_id option option"
  de_member_auth_fields :: "string \<Rightarrow> member_auth_fields option"
  de_member_fields :: "string \<Rightarrow> member_fields option"
  de_get_membership :: "string \<Rightarrow> membership option"
  de_get_third_party :: "string \<Rightarrow> third_party_invite option option option"
  de_member_content :: "string \<Rightarrow> membership option"
  de_join_rule :: "string \<Rightarrow> join_rule option"
  de_power_levels :: "string \<Rightarrow> power_levels option"
  de_int_power_levels :: "string \<Rightarrow> int_power_levels option"
  de_v1_content_fields :: "string \<Rightarrow> pl_content_fields option"
  de_int_content_fields :: "string \<Rightarrow> pl_content_fields option"
  de_v1_invite :: "string \<Rightarrow> int option"
  de_int_invite :: "string \<Rightarrow> int option"
  de_v1_redact :: "string \<Rightarrow> int option"
  de_int_redact :: "string \<Rightarrow> int option"
  de_third_party_content :: "string \<Rightarrow> third_party_content option"
  pl_default :: power_levels
  pl_to_value :: "power_levels \<Rightarrow> string \<Rightarrow> string option"
  int_from_value :: "string \<Rightarrow> int option"
  base64_parse :: "string \<Rightarrow> string option"

section \<open>Fetching events\<close>

type_synonym fetch = "event_id \<Rightarrow> event option"

text \<open>
  A store of events as its clients see it: in a well-formed state, an event is found under its own
  identifier only.
\<close>

locale event_store =
  fixes find_event :: "'s \<Rightarrow> fetch"
    and well_formed :: "'s \<Rightarrow> bool"
  assumes find_event_id: "well_formed s \<Longrightarrow> find_event s i = Some e \<Longrightarrow> ev_id e = i"
begin

lemma find_event_inj:
  "well_formed s \<Longrightarrow> find_event s i = Some e \<Longrightarrow> find_event s j = Some e \<Longrightarrow> i = j"
  using find_event_id by blast

end

text \<open>\<open>is_type_and_key\<close>.\<close>

definition is_type_and_key :: "event \<Rightarrow> event_type \<Rightarrow> string \<Rightarrow> bool" where
  "is_type_and_key ev ty key \<longleftrightarrow> ev_type ev = ty \<and> ev_state_key ev = Some key"

text \<open>\<open>is_power_event\<close>: the events that control who may do what.\<close>

definition is_power_event :: "ruma \<Rightarrow> event \<Rightarrow> bool" where
  "is_power_event R ev =
     (case ev_type ev of
        RoomPowerLevels \<Rightarrow> ev_state_key ev = Some []
      | RoomJoinRules \<Rightarrow> ev_state_key ev = Some []
      | RoomCreate \<Rightarrow> ev_state_key ev = Some []
      | RoomMember \<Rightarrow>
          (case de_member_content R (ev_content ev) of
             Some m \<Rightarrow> (if m = Leave \<or> m = Ban then Some (ev_sender ev) \<noteq> ev_state_key ev else False)
           | None \<Rightarrow> False)
      | _ \<Rightarrow> False)"

text \<open>\<open>is_power_event_id\<close>.\<close>

definition is_power_event_id :: "ruma \<Rightarrow> fetch \<Rightarrow> event_id \<Rightarrow> bool" where
  "is_power_event_id R fetch i =
     (case fetch i of Some state \<Rightarrow> is_power_event R state | None \<Rightarrow> False)"

end
