(* ===== verification/Power_Levels.thy ===== *)
theory Power_Levels
  imports Event
begin

text \<open>
  \<open>core/matrix/state_res/power_levels.rs\<close>: the readers of power level contents, which
  choose the integer-only or the legacy deserialiser by the room version, and the look-up
  of a user's level by binary search in the sorted vector of users.
\<close>

section \<open>Readers\<close>

text \<open>\<open>From<IntRoomPowerLevelsEventContent> for RoomPowerLevelsEventContent\<close>.\<close>

definition power_levels_from_int :: "int_power_levels \<Rightarrow> power_levels" where
  "power_levels_from_int c = \<lparr>
     pl_ban = ipl_ban c,
     pl_events = ipl_events c,
     pl_events_default = ipl_events_default c,
     pl_invite = ipl_invite c,
     pl_kick = ipl_kick c,
     pl_redact = ipl_redact c,
     pl_state_default = ipl_state_default c,
     pl_users = ipl_users c,
     pl_users_default = ipl_users_default c,
     pl_notifications_room = ipl_notifications_room c\<rparr>"

definition deserialize_integer_power_levels :: "ruma \<Rightarrow> string \<Rightarrow> power_levels option" where
  "deserialize_integer_power_levels R content =
     (case de_int_power_levels R content of
        Some c \<Rightarrow> Some (power_levels_from_int c)
      | None \<Rightarrow> None)"

definition deserialize_legacy_power_levels :: "ruma \<Rightarrow> string \<Rightarrow> power_levels option" where
  "deserialize_legacy_power_levels R content =
     (case de_power_levels R content of Some c \<Rightarrow> Some c | None \<Rightarrow> None)"

definition deserialize_power_levels ::
    "ruma \<Rightarrow> string \<Rightarrow> room_version \<Rightarrow> power_levels option" where
  "deserialize_power_levels R content room_version =
     (if integer_power_levels room_version then deserialize_integer_power_levels R content
      else deserialize_legacy_power_levels R content)"

definition deserialize_power_levels_content_fields ::
    "ruma \<Rightarrow> string \<Rightarrow> room_version \<Rightarrow> error + pl_content_fields" where
  "deserialize_power_levels_content_fields R content room_version =
     (if integer_power_levels room_version then ok_or (de_int_content_fields R content) SerdeJson
      else ok_or (de_v1_content_fields R content) SerdeJson)"

definition deserialize_power_levels_content_invite ::
    "ruma \<Rightarrow> string \<Rightarrow> room_version \<Rightarrow> error + int" where
  "deserialize_power_levels_content_invite R content room_version =
     (if integer_power_levels room_version then ok_or (de_int_invite R content) SerdeJson
      else ok_or (de_v1_invite R content) SerdeJson)"

definition deserialize_power_levels_content_redact ::
    "ruma \<Rightarrow> string \<Rightarrow> room_version \<Rightarrow> error + int" where
  "deserialize_power_levels_content_redact R content room_version =
     (if integer_power_levels room_version then ok_or (de_int_redact R content) SerdeJson
      else ok_or (de_v1_redact R content) SerdeJson)"

section \<open>Binary search\<close>

text \<open>
  The loop of \<open>slice::binary_search_by\<close>: the window \<open>[base, base + sz)\<close> is halved until
  one element is left. \<open>gt i\<close> says that the element at \<open>i\<close> compares greater than the
  one searched for.
\<close>

function binary_search_loop :: "(nat \<Rightarrow> bool) \<Rightarrow> nat \<Rightarrow> nat \<Rightarrow> nat" where
  "binary_search_loop gt base sz =
     (if 1 < sz then
        let half = sz div 2; mid = base + half
        in binary_search_loop gt (if gt mid then base else mid) (sz - half)
      else base)"
  by pat_completeness auto
termination
  by (relation "measure (\<lambda>(g, b, s). s)") auto

declare binary_search_loop.simps [simp del]

text \<open>\<open>PowerLevelsContentFields::get_user_power\<close>.\<close>

definition get_user_power :: "pl_content_fields \<Rightarrow> user_id \<Rightarrow> int option" where
  "get_user_power c user =
     (let users = pcf_users c in
      if users = [] then None
      else
        let base = binary_search_loop (\<lambda>i. user < fst (users ! i)) 0 (length users)
        in if fst (users ! base) = user then Some (snd (users ! base)) else None)"

lemma binary_search_loop_in:
  "0 < sz \<Longrightarrow> base \<le> binary_search_loop g base sz
    \<and> binary_search_loop g base sz < base + sz"
proof (induction g base sz rule: binary_search_loop.induct)
  case (1 g base sz)
  show ?case
  proof (cases "1 < sz")
    case True
    let ?base = "if g (base + sz div 2) then base else base + sz div 2"
    have "0 < sz - sz div 2" using True by linarith
    with "1.IH" True have "?base \<le> binary_search_loop g ?base (sz - sz div 2)
      \<and> binary_search_loop g ?base (sz - sz div 2) < ?base + (sz - sz div 2)"
      by blast
    moreover have "binary_search_loop g base sz = binary_search_loop g ?base (sz - sz div 2)"
      using True by (simp add: binary_search_loop.simps [of g base sz] Let_def)
    moreover have "?base + (sz - sz div 2) \<le> base + sz" "base \<le> ?base" by simp_all
    ultimately show ?thesis by linarith
  next
    case False
    with "1.prems" show ?thesis by (simp add: binary_search_loop.simps [of g base sz])
  qed
qed

text \<open>
  On an index where the search has a match, a window that holds it shrinks to it.
\<close>

lemma binary_search_loop_finds:
  assumes "\<And>i. i < k \<Longrightarrow> \<not> gt i" and "\<not> gt k" and "\<And>i. k < i \<Longrightarrow> i < n \<Longrightarrow> gt i"
    and "base \<le> k" and "k < base + sz" and "base + sz \<le> n"
  shows "binary_search_loop gt base sz = k"
  using assms
proof (induction gt base sz rule: binary_search_loop.induct)
  case (1 gt base sz)
  show ?case
  proof (cases "1 < sz")
    case True
    let ?half = "sz div 2"
    let ?base = "if gt (base + ?half) then base else base + ?half"
    have half: "0 < ?half" "?half \<le> sz - ?half" "?half < sz" using True by linarith+
    have window: "?base \<le> k \<and> k < ?base + (sz - ?half) \<and> ?base + (sz - ?half) \<le> n"
    proof (cases "gt (base + ?half)")
      case g: True
      have "k < base + ?half"
      proof (rule ccontr)
        assume "\<not> k < base + ?half"
        then have "base + ?half < k \<or> base + ?half = k" by linarith
        with g "1.prems"(1,2) show False by blast
      qed
      with half "1.prems"(4-6) have "base \<le> k \<and> k < base + (sz - ?half) \<and> base + (sz - ?half) \<le> n"
        by linarith
      with g show ?thesis by simp
    next
      case g: False
      have "base + ?half \<le> k"
      proof (rule ccontr)
        assume "\<not> base + ?half \<le> k"
        then have "k < base + ?half" "base + ?half < n" using half(3) "1.prems"(6) by linarith+
        with g "1.prems"(3) show False by blast
      qed
      with g half "1.prems"(4-6) show ?thesis by simp
    qed
    have "binary_search_loop gt base sz = binary_search_loop gt ?base (sz - ?half)"
      using True by (simp add: binary_search_loop.simps [of gt base sz] Let_def)
    also have "\<dots> = k"
      using window "1.prems"(1-3) by (intro "1.IH" [OF True refl refl]) blast+
    finally show ?thesis .
  next
    case False
    with "1.prems"(4,5) show ?thesis by (simp add: binary_search_loop.simps [of gt base sz])
  qed
qed

text \<open>
  On a vector sorted by user without duplicates, which is what the deserialisers give, the
  binary search is the look-up in the association list.
\<close>

lemma get_user_power_eq_map_of:
  assumes sorted: "sorted_wrt (<) (map fst (pcf_users c))"
  shows "get_user_power c user = map_of (pcf_users c) user"
proof -
  let ?us = "pcf_users c"
  let ?k = "binary_search_loop (\<lambda>i. user < fst (?us ! i)) 0 (length ?us)"
  from sorted have dist: "distinct (map fst ?us)"
    using strict_sorted_iff by blast
  have less: "fst (?us ! i) < fst (?us ! j)" if "i < j" "j < length ?us" for i j
    using sorted that by (simp add: sorted_wrt_iff_nth_less)
  show ?thesis
  proof (cases "map_of ?us user")
    case None
    then have "user \<notin> fst ` set ?us" by (simp add: map_of_eq_None_iff)
    moreover have "?k < length ?us" if "?us \<noteq> []"
      using binary_search_loop_in [of "length ?us" 0] that by simp
    ultimately have "fst (?us ! ?k) \<noteq> user" if "?us \<noteq> []"
      using that by (metis imageI nth_mem)
    with None show ?thesis by (simp add: get_user_power_def Let_def)
  next
    case (Some l)
    then obtain k where k: "k < length ?us" "?us ! k = (user, l)"
      by (meson in_set_conv_nth map_of_SomeD)
    have "?k = k"
    proof (rule binary_search_loop_finds [where n = "length ?us"])
      show "\<not> user < fst (?us ! i)" if "i < k" for i
        using less [OF that k(1)] k(2) by simp
      show "\<not> user < fst (?us ! k)" using k by simp
      show "user < fst (?us ! i)" if "k < i" "i < length ?us" for i
        using less [OF that] k(2) by simp
    qed (use k in simp_all)
    moreover have "?us \<noteq> []" using k by auto
    ultimately show ?thesis using k Some by (simp add: get_user_power_def Let_def)
  qed
qed

end
