(* ===== verification/Event_Auth.thy ===== *)
theory Event_Auth
  imports Power_Levels
begin

text \<open>
  \<open>core/matrix/state_res/event_auth.rs\<close>: the authorisation rules. \<open>auth_types_for_event\<close>
  names the state an event is checked against, \<open>auth_check\<close> decides, with its helpers for
  membership changes, power levels, redactions and third party invites. Log messages are
  left out; every early return is a branch. The long functions of the source are split at
  their own section comments, in the order of the source.
\<close>

section \<open>The state an event is checked against\<close>

definition auth_types_for_event ::
    "ruma \<Rightarrow> event_type \<Rightarrow> user_id \<Rightarrow> string option \<Rightarrow> string \<Rightarrow> error + type_state_key list" where
  "auth_types_for_event R kind sender state_key content =
     (if kind = RoomCreate then Ok []
      else
        let auth_types = [(RoomPowerLevels, []), (RoomMember, sender), (RoomCreate, [])] in
        if kind = RoomMember then
          (case state_key of
             None \<Rightarrow> Ok auth_types
           | Some state_key \<Rightarrow>
               try_bind (ok_or (de_member_auth_fields R content) SerdeJson) (\<lambda>content.
                 (case mf_membership content of
                    Some (Some membership) \<Rightarrow>
                      let auth_types =
                        (if membership \<in> {Join, Invite, Knock} then
                           let auth_types = push_unique auth_types (RoomJoinRules, [])
                           in (case mf_join_authorised content of
                                 Some (Some u) \<Rightarrow> push_unique auth_types (RoomMember, u)
                               | _ \<Rightarrow> auth_types)
                         else auth_types);
                        auth_types = push_unique auth_types (RoomMember, state_key);
                        auth_types =
                          (if membership = Invite then
                             (case mf_third_party_invite content of
                                Some (Some t_id) \<Rightarrow>
                                  push_unique auth_types (RoomThirdPartyInvite, tp_token t_id)
                              | _ \<Rightarrow> auth_types)
                           else auth_types)
                      in Ok auth_types
                  | _ \<Rightarrow> Ok auth_types)))
        else Ok auth_types)"

section \<open>Helpers\<close>

text \<open>\<open>get_send_level\<close>: the level needed to send an event of a type.\<close>

definition get_send_level :: "ruma \<Rightarrow> event_type \<Rightarrow> string option \<Rightarrow> event option \<Rightarrow> int" where
  "get_send_level R e_type state_key power_lvl =
     (case Option.bind power_lvl (\<lambda>ple.
             map_option (\<lambda>content.
               (case map_of (pl_events content) e_type of
                  Some l \<Rightarrow> l
                | None \<Rightarrow> (if state_key \<noteq> None then pl_state_default content
                          else pl_events_default content)))
               (de_power_levels R (ev_content ple))) of
        Some l \<Rightarrow> l
      | None \<Rightarrow> (if state_key \<noteq> None then 50 else 0))"

definition starts_with_at :: "string option \<Rightarrow> bool" where
  "starts_with_at k = (case k of Some (c # _) \<Rightarrow> c = CHR ''@'' | _ \<Rightarrow> False)"

definition can_send_event :: "ruma \<Rightarrow> event \<Rightarrow> event option \<Rightarrow> int \<Rightarrow> bool" where
  "can_send_event R ev ple user_level =
     (let event_type_power_level = get_send_level R (ev_type ev) (ev_state_key ev) ple in
      if user_level < event_type_power_level then False
      else if starts_with_at (ev_state_key ev) \<and> ev_state_key ev \<noteq> Some (ev_sender ev) then False
      else True)"

definition get_deserialize_levels ::
    "ruma \<Rightarrow> power_levels \<Rightarrow> power_levels \<Rightarrow> string \<Rightarrow> (int \<times> int) option" where
  "get_deserialize_levels R old new name =
     Option.bind (pl_to_value R old name) (\<lambda>o'.
     Option.bind (int_from_value R o') (\<lambda>old_lvl.
     Option.bind (pl_to_value R new name) (\<lambda>n'.
     Option.bind (int_from_value R n') (\<lambda>new_lvl. Some (old_lvl, new_lvl)))))"

definition check_redaction :: "ruma \<Rightarrow> event \<Rightarrow> int \<Rightarrow> int \<Rightarrow> bool" where
  "check_redaction R redaction_event user_level redact_level =
     (if redact_level \<le> user_level then True
      else if event_server R (ev_id redaction_event)
                = Option.bind (ev_redacts redaction_event) (event_server R) then True
      else False)"

definition verify_third_party_invite ::
    "ruma \<Rightarrow> user_id option \<Rightarrow> user_id \<Rightarrow> third_party_invite \<Rightarrow> event option \<Rightarrow> bool" where
  "verify_third_party_invite R target_user sender tp_id current_third_party_invite =
     (if target_user \<noteq> Some (tp_mxid tp_id) then False
      else
        (case current_third_party_invite of
           None \<Rightarrow> False
         | Some current_tpid \<Rightarrow>
             if ev_state_key current_tpid \<noteq> Some (tp_token tp_id) then False
             else if sender \<noteq> ev_sender current_tpid then False
             else
               (case de_third_party_content R (ev_content current_tpid) of
                  None \<Rightarrow> False
                | Some tpid_ev \<Rightarrow>
                    (case base64_parse R (tp_token tp_id) of
                       None \<Rightarrow> False
                     | Some decoded \<Rightarrow>
                         if decoded \<in> set (case tpe_public_keys tpid_ev of None \<Rightarrow> [] | Some ks \<Rightarrow> ks)
                         then True
                         else tpe_public_key tpid_ev = decoded))))"

section \<open>Power level events\<close>

text \<open>
  One step of the two loops over changed levels. For users the sender may also not touch a
  level equal to its own, its own entry apart. Options order with \<open>None\<close> first, as in Rust.
\<close>

definition level_too_big :: "int option \<Rightarrow> int option \<Rightarrow> int \<Rightarrow> bool" where
  "level_too_big old_level new_level user_level \<longleftrightarrow>
     old_level > Some user_level \<or> new_level > Some user_level"

definition same_level :: "int option \<Rightarrow> int option \<Rightarrow> bool" where
  "same_level old_level new_level \<longleftrightarrow>
     old_level \<noteq> None \<and> new_level \<noteq> None \<and> old_level = new_level"

fun check_user_levels ::
    "power_levels \<Rightarrow> power_levels \<Rightarrow> user_id \<Rightarrow> int \<Rightarrow> user_id list \<Rightarrow> bool" where
  "check_user_levels old_state new_state sender user_level [] = True"
| "check_user_levels old_state new_state sender user_level (user # users) =
     (let old_level = map_of (pl_users old_state) user;
          new_level = map_of (pl_users new_state) user in
      if same_level old_level new_level then
        check_user_levels old_state new_state sender user_level users
      else if user \<noteq> sender \<and> old_level = Some user_level then False
      else if level_too_big old_level new_level user_level then False
      else check_user_levels old_state new_state sender user_level users)"

fun check_event_levels ::
    "power_levels \<Rightarrow> power_levels \<Rightarrow> int \<Rightarrow> event_type list \<Rightarrow> bool" where
  "check_event_levels old_state new_state user_level [] = True"
| "check_event_levels old_state new_state user_level (ev_ty # ev_tys) =
     (let old_level = map_of (pl_events old_state) ev_ty;
          new_level = map_of (pl_events new_state) ev_ty in
      if same_level old_level new_level then
        check_event_levels old_state new_state user_level ev_tys
      else if level_too_big old_level new_level user_level then False
      else check_event_levels old_state new_state user_level ev_tys)"

definition check_notification_levels ::
    "room_version \<Rightarrow> power_levels \<Rightarrow> power_levels \<Rightarrow> int \<Rightarrow> bool" where
  "check_notification_levels room_version old_state new_state user_level =
     (if limit_notifications_power_levels room_version then
        let old_level = pl_notifications_room old_state;
            new_level = pl_notifications_room new_state in
        if old_level \<noteq> new_level then
          (if old_level > user_level \<or> new_level > user_level then False else True)
        else True
      else True)"

definition level_names :: "string list" where
  "level_names = [''users_default'', ''events_default'', ''state_default'', ''ban'',
     ''redact'', ''kick'', ''invite'']"

fun check_named_levels :: "ruma \<Rightarrow> power_levels \<Rightarrow> power_levels \<Rightarrow> int \<Rightarrow> string list \<Rightarrow> bool" where
  "check_named_levels R old_state new_state user_level [] = True"
| "check_named_levels R old_state new_state user_level (lvl_name # names) =
     (case get_deserialize_levels R old_state new_state lvl_name of
        Some (old_lvl, new_lvl) \<Rightarrow>
          if old_lvl > user_level \<or> new_lvl > user_level then False
          else check_named_levels R old_state new_state user_level names
      | None \<Rightarrow> check_named_levels R old_state new_state user_level names)"

text \<open>
  \<open>check_power_levels\<close>. \<open>None\<close> is the code's \<open>None\<close>: a wrong state key or a content that
  does not parse. The sets of users and of event types to check are the keys of both
  contents.
\<close>

definition check_power_levels ::
    "ruma \<Rightarrow> room_version \<Rightarrow> event \<Rightarrow> event option \<Rightarrow> int \<Rightarrow> bool option" where
  "check_power_levels R room_version power_event previous_power_event user_level =
     (case ev_state_key power_event of
        None \<Rightarrow> None
      | Some key \<Rightarrow>
          if key \<noteq> [] then None
          else
            Option.bind (deserialize_power_levels R (ev_content power_event) room_version)
              (\<lambda>user_content.
                (case previous_power_event of
                   None \<Rightarrow> Some True
                 | Some current_state \<Rightarrow>
                     Option.bind
                       (deserialize_power_levels R (ev_content current_state) room_version)
                       (\<lambda>current_content.
                         let user_levels_to_check =
                               remdups (map fst (pl_users current_content)
                                          @ map fst (pl_users user_content));
                             event_levels_to_check =
                               remdups (map fst (pl_events current_content)
                                          @ map fst (pl_events user_content)) in
                         if \<not> check_user_levels current_content user_content
                                (ev_sender power_event) user_level user_levels_to_check
                         then Some False
                         else if \<not> check_event_levels current_content user_content user_level
                                     event_levels_to_check
                         then Some False
                         else if \<not> check_notification_levels room_version current_content
                                     user_content user_level
                         then Some False
                         else Some (check_named_levels R current_content user_content user_level
                                      level_names)))))"

section \<open>Membership changes\<close>

text \<open>
  The branches of the final match of \<open>valid_membership_change\<close>, one definition each. The
  arguments are the local variables of the function.
\<close>

definition opt_at_least :: "int option \<Rightarrow> int \<Rightarrow> bool" where
  "opt_at_least pow_opt level = (case pow_opt of Some p \<Rightarrow> level \<le> p | None \<Rightarrow> False)"

definition opt_below :: "int option \<Rightarrow> int \<Rightarrow> bool" where
  "opt_below pow_opt level = (case pow_opt of Some p \<Rightarrow> p < level | None \<Rightarrow> False)"

definition join_auth_valid ::
    "ruma \<Rightarrow> room_version \<Rightarrow> event option \<Rightarrow> user_id option \<Rightarrow> membership \<Rightarrow> error + bool" where
  "join_auth_valid R room_version power_levels_event user_for_join_auth
     user_for_join_auth_membership =
     (case user_for_join_auth of
        Some auth_user \<Rightarrow>
          try_bind
            (case power_levels_event of
               Some pl \<Rightarrow>
                 try_bind (deserialize_power_levels_content_invite R (ev_content pl) room_version)
                   (\<lambda>invite.
                 try_bind (deserialize_power_levels_content_fields R (ev_content pl) room_version)
                   (\<lambda>content.
                     Ok (case get_user_power content auth_user of
                           Some level \<Rightarrow> level
                         | None \<Rightarrow> pcf_users_default content, invite)))
             | None \<Rightarrow> Ok (0, 0))
            (\<lambda>(auth_user_pl, invite_level).
               Ok (user_for_join_auth_membership = Join \<and> invite_level \<le> auth_user_pl))
      | None \<Rightarrow> Ok False)"

definition is_room_creator ::
    "ruma \<Rightarrow> room_version \<Rightarrow> event \<Rightarrow> user_id \<Rightarrow> user_id \<Rightarrow> error + bool" where
  "is_room_creator R room_version create_room sender target_user =
     (if use_room_create_sender room_version then
        Ok (ev_sender create_room = sender \<and> ev_sender create_room = target_user)
      else
        try_bind (ok_or (de_create_creator R (ev_content create_room)) SerdeJson) (\<lambda>c.
        try_bind (ok_or c SerdeJson) (\<lambda>creator.
          Ok (creator = sender \<and> creator = target_user))))"

definition restricted_rule :: "room_version \<Rightarrow> join_rule \<Rightarrow> bool" where
  "restricted_rule room_version join_rules =
     (case join_rules of
        RestrictedRule _ \<Rightarrow> restricted_join_rules room_version
      | KnockRestrictedRule _ \<Rightarrow> knock_restricted_join_rule room_version
      | _ \<Rightarrow> False)"

definition join_allowed ::
    "ruma \<Rightarrow> room_version \<Rightarrow> event \<Rightarrow> event \<Rightarrow> user_id \<Rightarrow> user_id \<Rightarrow> membership \<Rightarrow> join_rule
     \<Rightarrow> bool \<Rightarrow> error + bool" where
  "join_allowed R room_version current_event create_room sender target_user
     target_current join_rules auth_valid =
     (let prev_event_is_create_event =
            (case ev_prev_events current_event of [] \<Rightarrow> False | p # _ \<Rightarrow> p = ev_id create_room);
          no_more_prev_events = (length (ev_prev_events current_event) \<le> 1) in
      try_bind
        (if prev_event_is_create_event \<and> no_more_prev_events
         then is_room_creator R room_version create_room sender target_user else Ok False)
        (\<lambda>is_creator.
          Ok (if is_creator then True
              else if sender \<noteq> target_user then False
              else if target_current = Ban then False
              else if (join_rules = InviteRule
                         \<or> allow_knocking room_version \<and> join_rules = KnockRule)
                      \<and> (target_current = Join \<or> target_current = Invite) then True
              else if restricted_rule room_version join_rules then
                (if target_current = Invite \<or> target_current = Join then True else auth_valid)
              else join_rules = PublicRule)))"

definition invite_allowed ::
    "ruma \<Rightarrow> power_levels \<Rightarrow> third_party_invite option option \<Rightarrow> event option \<Rightarrow> user_id \<Rightarrow> user_id
     \<Rightarrow> bool \<Rightarrow> membership \<Rightarrow> int option \<Rightarrow> bool" where
  "invite_allowed R power_levels third_party_invite current_third_party_invite sender target_user
     sender_is_joined target_current sender_power =
     (case Option.bind third_party_invite (\<lambda>i. i) of
        Some tp_id \<Rightarrow>
          if target_current = Ban then False
          else verify_third_party_invite R (Some target_user) sender tp_id
                 current_third_party_invite
      | None \<Rightarrow>
          if \<not> sender_is_joined \<or> target_current = Join \<or> target_current = Ban then False
          else opt_at_least sender_power (pl_invite power_levels))"

definition leave_allowed ::
    "power_levels \<Rightarrow> user_id \<Rightarrow> user_id \<Rightarrow> bool \<Rightarrow> membership \<Rightarrow> int option \<Rightarrow> int option
     \<Rightarrow> bool" where
  "leave_allowed power_levels sender target_user sender_is_joined target_current
     sender_power target_power =
     (if sender = target_user then
        target_current = Join \<or> target_current = Invite \<or> target_current = Knock
      else if \<not> sender_is_joined
           \<or> target_current = Ban \<and> opt_below sender_power (pl_ban power_levels) then False
      else opt_at_least sender_power (pl_kick power_levels) \<and> target_power < sender_power)"

definition ban_allowed ::
    "power_levels \<Rightarrow> bool \<Rightarrow> int option \<Rightarrow> int option \<Rightarrow> bool" where
  "ban_allowed power_levels sender_is_joined sender_power target_power =
     (if \<not> sender_is_joined then False
      else opt_at_least sender_power (pl_ban power_levels) \<and> target_power < sender_power)"

definition knock_allowed ::
    "room_version \<Rightarrow> user_id \<Rightarrow> user_id \<Rightarrow> membership \<Rightarrow> join_rule \<Rightarrow> bool" where
  "knock_allowed room_version sender target_user sender_membership join_rules =
     (if (case join_rules of KnockRestrictedRule _ \<Rightarrow> False | KnockRule \<Rightarrow> False | _ \<Rightarrow> True) then False
      else if (case join_rules of KnockRestrictedRule _ \<Rightarrow> True | _ \<Rightarrow> False)
              \<and> \<not> knock_restricted_join_rule room_version then False
      else if sender \<noteq> target_user then False
      else if sender_membership = Ban \<or> sender_membership = Invite \<or> sender_membership = Join
      then False
      else True)"

text \<open>The membership a member event states; an absent event counts as \<open>Leave\<close>.\<close>

definition membership_of :: "ruma \<Rightarrow> event option \<Rightarrow> error + membership" where
  "membership_of R ev =
     (case ev of
        Some pdu \<Rightarrow> ok_or (de_get_membership R (ev_content pdu)) SerdeJson
      | None \<Rightarrow> Ok Leave)"

definition sender_power_of :: "power_levels \<Rightarrow> user_id \<Rightarrow> bool \<Rightarrow> int option" where
  "sender_power_of power_levels sender sender_is_joined =
     (case map_of (pl_users power_levels) sender of
        Some l \<Rightarrow> Some l
      | None \<Rightarrow> (if sender_is_joined then Some (pl_users_default power_levels) else None))"

definition target_power_of :: "power_levels \<Rightarrow> user_id \<Rightarrow> membership \<Rightarrow> int option" where
  "target_power_of power_levels target_user target_membership =
     (case map_of (pl_users power_levels) target_user of
        Some l \<Rightarrow> Some l
      | None \<Rightarrow>
          (if target_membership = Join then Some (pl_users_default power_levels) else None))"

definition valid_membership_change ::
    "ruma \<Rightarrow> room_version \<Rightarrow> user_id \<Rightarrow> event option \<Rightarrow> user_id \<Rightarrow> event option \<Rightarrow> event
     \<Rightarrow> event option \<Rightarrow> event option \<Rightarrow> event option \<Rightarrow> user_id option \<Rightarrow> membership \<Rightarrow> event
     \<Rightarrow> error + bool" where
  "valid_membership_change R room_version target_user target_user_membership_event sender
     sender_membership_event current_event current_third_party_invite power_levels_event
     join_rules_event user_for_join_auth user_for_join_auth_membership create_room =
     try_bind (ok_or (de_get_membership R (ev_content current_event)) SerdeJson)
       (\<lambda>target_membership.
     try_bind (ok_or (de_get_third_party R (ev_content current_event)) SerdeJson)
       (\<lambda>third_party_invite.
     try_bind (membership_of R sender_membership_event) (\<lambda>sender_membership.
     let sender_is_joined = (sender_membership = Join) in
     try_bind (membership_of R target_user_membership_event) (\<lambda>target_current.
     try_bind (case power_levels_event of
                 Some ev \<Rightarrow> ok_or (de_power_levels R (ev_content ev)) SerdeJson
               | None \<Rightarrow> Ok (pl_default R)) (\<lambda>power_levels.
     let sender_power = sender_power_of power_levels sender sender_is_joined;
         target_power = target_power_of power_levels target_user target_membership in
     try_bind (case join_rules_event of
                 Some jr \<Rightarrow> ok_or (de_join_rule R (ev_content jr)) SerdeJson
               | None \<Rightarrow> Ok InviteRule) (\<lambda>join_rules.
     try_bind (join_auth_valid R room_version power_levels_event user_for_join_auth
                 user_for_join_auth_membership) (\<lambda>auth_valid.
     (case target_membership of
        Join \<Rightarrow> join_allowed R room_version current_event create_room sender target_user
                  target_current join_rules auth_valid
      | Invite \<Rightarrow> Ok (invite_allowed R power_levels third_party_invite
                        current_third_party_invite sender target_user sender_is_joined
                        target_current sender_power)
      | Leave \<Rightarrow> Ok (leave_allowed power_levels sender target_user sender_is_joined
                       target_current sender_power target_power)
      | Ban \<Rightarrow> Ok (ban_allowed power_levels sender_is_joined sender_power target_power)
      | Knock \<Rightarrow> Ok (if allow_knocking room_version
                      then knock_allowed room_version sender target_user sender_membership join_rules
                      else False)
      | CustomMembership _ \<Rightarrow> Ok False))))))))"

section \<open>The authorisation check\<close>

text \<open>Rule 1: the create event.\<close>

definition auth_check_create :: "ruma \<Rightarrow> room_version \<Rightarrow> event \<Rightarrow> error + bool" where
  "auth_check_create R room_version incoming_event =
     (if ev_prev_events incoming_event \<noteq> [] then Ok False
      else
        (case room_server R (ev_room incoming_event) of
           None \<Rightarrow> Ok False
         | Some room_id_server_name \<Rightarrow>
             if room_id_server_name \<noteq> user_server R (ev_sender incoming_event) then Ok False
             else
               try_bind (ok_or (de_create_fields R (ev_content incoming_event)) SerdeJson)
                 (\<lambda>content.
                   if cf_room_version content = Some None then Ok False
                   else if \<not> use_room_create_sender room_version \<and> \<not> cf_creator content
                   then Ok False
                   else Ok True)))"

text \<open>
  The rules for \<open>m.room.member\<close>, up to the call of \<open>valid_membership_change\<close>. The text of
  the error for a state key that is no user identifier is the library's; here it is the key.
\<close>

definition auth_check_member ::
    "ruma \<Rightarrow> room_version \<Rightarrow> event \<Rightarrow> event option \<Rightarrow> (event_type \<Rightarrow> string \<Rightarrow> event option)
     \<Rightarrow> event \<Rightarrow> event option \<Rightarrow> event option \<Rightarrow> error + bool" where
  "auth_check_member R room_version incoming_event current_third_party_invite fetch_state
     room_create_event power_levels_event sender_member_event =
     (case ev_state_key incoming_event of
        None \<Rightarrow> Ok False
      | Some state_key \<Rightarrow>
          try_bind (ok_or (de_member_fields R (ev_content incoming_event)) SerdeJson) (\<lambda>content.
            if Option.bind (mf_membership content) (\<lambda>m. m) = None then Ok False
            else if \<not> user_id_valid R state_key then Err (InvalidPdu state_key)
            else
              let target_user = state_key;
                  user_for_join_auth = Option.bind (mf_join_authorised content) (\<lambda>u. u);
                  user_for_join_auth_event =
                    Option.bind user_for_join_auth (\<lambda>auth_user. fetch_state RoomMember auth_user);
                  target_user_member_event = fetch_state RoomMember target_user;
                  join_rules_event = fetch_state RoomJoinRules [];
                  user_for_join_auth_membership =
                    (case Option.bind user_for_join_auth_event
                            (\<lambda>mem. de_get_membership R (ev_content mem)) of
                       Some m \<Rightarrow> m | None \<Rightarrow> Leave)
              in valid_membership_change R room_version target_user target_user_member_event
                   (ev_sender incoming_event) sender_member_event incoming_event
                   current_third_party_invite power_levels_event join_rules_event
                   user_for_join_auth user_for_join_auth_membership room_create_event))"

text \<open>
  The level of the sender; without a power level event the creator has 100 and everyone
  else 0. A create content that parses but names no creator makes the code panic.
\<close>

definition sender_power_level ::
    "ruma \<Rightarrow> room_version \<Rightarrow> user_id \<Rightarrow> event \<Rightarrow> event option \<Rightarrow> error + int" where
  "sender_power_level R room_version sender room_create_event power_levels_event =
     (case power_levels_event of
        Some pl \<Rightarrow>
          try_bind (deserialize_power_levels_content_fields R (ev_content pl) room_version)
            (\<lambda>content. Ok (case get_user_power content sender of
                             Some level \<Rightarrow> level
                           | None \<Rightarrow> pcf_users_default content))
      | None \<Rightarrow>
          try_bind
            (if use_room_create_sender room_version then
               Ok (ev_sender room_create_event = sender)
             else
               (case de_create_creator R (ev_content room_create_event) of
                  None \<Rightarrow> Ok False
                | Some None \<Rightarrow> Err (Panic ''create.creator.unwrap()'')
                | Some (Some creator) \<Rightarrow> Ok (creator = sender)))
            (\<lambda>is_creator. Ok (if is_creator then 100 else 0)))"

text \<open>Whether the sender's own member event says it is joined.\<close>

definition sender_joined :: "ruma \<Rightarrow> event \<Rightarrow> error + bool" where
  "sender_joined R sender_member_event =
     try_bind (ok_or (de_member_fields R (ev_content sender_member_event)) SerdeJson) (\<lambda>c.
       (case mf_membership c of
          None \<Rightarrow> Err (Panic ''we should test before that this field exists'')
        | Some None \<Rightarrow> Err SerdeJson
        | Some (Some m) \<Rightarrow> Ok (m = Join)))"

text \<open>The rules after the membership rules: invites, send level, power levels, redactions.\<close>

definition auth_check_levels ::
    "ruma \<Rightarrow> room_version \<Rightarrow> event \<Rightarrow> event \<Rightarrow> event option \<Rightarrow> error + bool" where
  "auth_check_levels R room_version incoming_event room_create_event power_levels_event =
     try_bind (sender_power_level R room_version (ev_sender incoming_event) room_create_event
                 power_levels_event) (\<lambda>sender_power_level.
       if ev_type incoming_event = RoomThirdPartyInvite then
         try_bind (case power_levels_event of
                     Some power_levels \<Rightarrow>
                       deserialize_power_levels_content_invite R (ev_content power_levels)
                         room_version
                   | None \<Rightarrow> Ok 0)
           (\<lambda>invite_level. if sender_power_level < invite_level then Ok False else Ok True)
       else if \<not> can_send_event R incoming_event power_levels_event sender_power_level
       then Ok False
       else if ev_type incoming_event = RoomPowerLevels
            \<and> check_power_levels R room_version incoming_event power_levels_event
                sender_power_level \<noteq> Some True
       then Ok False
       else if extra_redaction_checks room_version \<and> ev_type incoming_event = RoomRedaction then
         try_bind (case power_levels_event of
                     Some pl \<Rightarrow>
                       deserialize_power_levels_content_redact R (ev_content pl) room_version
                   | None \<Rightarrow> Ok 50)
           (\<lambda>redact_level. Ok (check_redaction R incoming_event sender_power_level redact_level))
       else Ok True)"

text \<open>\<open>auth_check\<close>.\<close>

definition auth_check ::
    "ruma \<Rightarrow> room_version \<Rightarrow> event \<Rightarrow> event option \<Rightarrow> (event_type \<Rightarrow> string \<Rightarrow> event option)
     \<Rightarrow> error + bool" where
  "auth_check R room_version incoming_event current_third_party_invite fetch_state =
     (let sender = ev_sender incoming_event in
      if ev_type incoming_event = RoomCreate then auth_check_create R room_version incoming_event
      else
        let power_levels_event = fetch_state RoomPowerLevels [];
            sender_member_event = fetch_state RoomMember sender in
        (case fetch_state RoomCreate [] of
           None \<Rightarrow> Ok False
         | Some room_create_event \<Rightarrow>
             if ev_id room_create_event \<notin> set (ev_auth_events incoming_event) then Ok False
             else
               try_bind (ok_or (de_create_federate R (ev_content room_create_event)) SerdeJson)
                 (\<lambda>federate.
                   if \<not> federate \<and> user_server R (ev_sender room_create_event)
                                     \<noteq> user_server R sender
                   then Ok False
                   else if special_case_aliases_auth room_version
                           \<and> ev_type incoming_event = RoomAliases then
                     (if ev_state_key incoming_event \<noteq> Some (user_server R sender) then Ok False
                      else Ok True)
                   else if ev_type incoming_event = RoomMember then
                     auth_check_member R room_version incoming_event current_third_party_invite
                       fetch_state room_create_event power_levels_event sender_member_event
                   else
                     (case sender_member_event of
                        None \<Rightarrow> Ok False
                      | Some member_event \<Rightarrow>
                          try_bind (sender_joined R member_event) (\<lambda>joined.
                            if \<not> joined then Ok False
                            else auth_check_levels R room_version incoming_event
                                   room_create_event power_levels_event)))))"

end
