(* ===== verification/Demo.thy ===== *)
theory Demo
  imports Event_Auth
begin

text \<open>
  A small concrete instance of the library interface, for the witnesses: contents are
  single words, every user of the server \<open>s\<close> is valid, and two power level contents and
  a few member and create contents exist.
\<close>

definition demo_pl :: power_levels where
  "demo_pl = \<lparr>pl_ban = 50, pl_events = [], pl_events_default = 0, pl_invite = 0, pl_kick = 50,
     pl_redact = 50, pl_state_default = 50, pl_users = [(''@a'', 100), (''@b'', 50)],
     pl_users_default = 0, pl_notifications_room = 50\<rparr>"

text \<open>As \<open>demo_pl\<close>, with \<open>@c\<close> at 50.\<close>

definition demo_pl2 :: power_levels where
  "demo_pl2 = demo_pl\<lparr>pl_users := [(''@a'', 100), (''@b'', 50), (''@c'', 50)]\<rparr>"

text \<open>As \<open>demo_pl\<close>, with every user who is not listed at 100.\<close>

definition demo_pl3 :: power_levels where
  "demo_pl3 = demo_pl\<lparr>pl_users_default := 100\<rparr>"

definition demo_power_levels :: "string \<Rightarrow> power_levels option" where
  "demo_power_levels c =
     (if c = ''pl'' then Some demo_pl else if c = ''pl2'' then Some demo_pl2
      else if c = ''pl3'' then Some demo_pl3 else None)"

definition demo_int_power_levels :: "string \<Rightarrow> int_power_levels option" where
  "demo_int_power_levels c = map_option (\<lambda>p. \<lparr>
     ipl_ban = pl_ban p, ipl_events = pl_events p, ipl_events_default = pl_events_default p,
     ipl_invite = pl_invite p, ipl_kick = pl_kick p, ipl_redact = pl_redact p,
     ipl_state_default = pl_state_default p, ipl_users = pl_users p,
     ipl_users_default = pl_users_default p,
     ipl_notifications_room = pl_notifications_room p\<rparr>) (demo_power_levels c)"

definition demo_content_fields :: "string \<Rightarrow> pl_content_fields option" where
  "demo_content_fields c =
     map_option (\<lambda>p. \<lparr>pcf_users = pl_users p, pcf_users_default = pl_users_default p\<rparr>)
       (demo_power_levels c)"

definition demo_membership :: "string \<Rightarrow> membership option" where
  "demo_membership c =
     (if c = ''join'' then Some Join else if c = ''invite'' then Some Invite
      else if c = ''knock'' then Some Knock else if c = ''leave'' then Some Leave
      else if c = ''ban'' then Some Ban else None)"

definition demo_member_fields :: "string \<Rightarrow> member_fields option" where
  "demo_member_fields c =
     Some \<lparr>mf_membership = Some (demo_membership c), mf_join_authorised = None\<rparr>"

definition demo_member_auth_fields :: "string \<Rightarrow> member_auth_fields option" where
  "demo_member_auth_fields c =
     Some \<lparr>mf_membership = Some (demo_membership c), mf_join_authorised = None,
           mf_third_party_invite = None\<rparr>"

definition demo_ruma :: ruma where
  "demo_ruma = \<lparr>
     user_server = (\<lambda>_. ''s''),
     room_server = (\<lambda>_. Some ''s''),
     event_server = (\<lambda>_. None),
     user_id_valid = (\<lambda>_. True),
     de_create_fields = (\<lambda>_. Some \<lparr>cf_room_version = None, cf_creator = True\<rparr>),
     de_create_federate = (\<lambda>_. Some True),
     de_create_creator = (\<lambda>_. Some (Some ''@a'')),
     de_member_auth_fields = demo_member_auth_fields,
     de_member_fields = demo_member_fields,
     de_get_membership = demo_membership,
     de_get_third_party = (\<lambda>_. Some None),
     de_member_content = demo_membership,
     de_join_rule = (\<lambda>c. Some (if c = ''public'' then PublicRule else InviteRule)),
     de_power_levels = demo_power_levels,
     de_int_power_levels = demo_int_power_levels,
     de_v1_content_fields = demo_content_fields,
     de_int_content_fields = demo_content_fields,
     de_v1_invite = (\<lambda>c. map_option pl_invite (demo_power_levels c)),
     de_int_invite = (\<lambda>c. map_option pl_invite (demo_power_levels c)),
     de_v1_redact = (\<lambda>c. map_option pl_redact (demo_power_levels c)),
     de_int_redact = (\<lambda>c. map_option pl_redact (demo_power_levels c)),
     de_third_party_content = (\<lambda>_. None),
     pl_default = demo_pl,
     pl_to_value = (\<lambda>p name. if name = ''ban'' then Some (if pl_ban p = 50 then ''50'' else ''100'')
                             else None),
     int_from_value = (\<lambda>v. if v = ''50'' then Some 50 else if v = ''100'' then Some 100 else None),
     base64_parse = (\<lambda>_. None)\<rparr>"

lemmas demo_defs = demo_ruma_def demo_pl_def demo_pl2_def demo_pl3_def demo_power_levels_def
  demo_int_power_levels_def demo_content_fields_def demo_membership_def demo_member_fields_def
  demo_member_auth_fields_def

text \<open>An event of the demonstration room, authorised by the create event \<open>$c\<close>.\<close>

definition demo_event :: "string \<Rightarrow> user_id \<Rightarrow> event_type \<Rightarrow> string option \<Rightarrow> string \<Rightarrow> event" where
  "demo_event i sender ty key content = \<lparr>ev_id = i, ev_room = ''!r'', ev_sender = sender, ev_ts = 0,
     ev_type = ty, ev_content = content, ev_state_key = key, ev_prev_events = [''$p''],
     ev_auth_events = [''$c''], ev_redacts = None\<rparr>"

text \<open>
  Its state: created by \<open>@a\<close>, power levels \<open>demo_pl\<close>, members \<open>@a\<close>, \<open>@b\<close> and \<open>@d\<close>, and
  \<open>@e\<close> banned.
\<close>

definition demo_state :: "event_type \<Rightarrow> string \<Rightarrow> event option" where
  "demo_state ty key =
     (if ty = RoomCreate \<and> key = [] then Some (demo_event ''$c'' ''@a'' RoomCreate (Some []) ''create'')
      else if ty = RoomPowerLevels \<and> key = []
        then Some (demo_event ''$pl'' ''@a'' RoomPowerLevels (Some []) ''pl'')
      else if ty = RoomJoinRules \<and> key = []
        then Some (demo_event ''$jr'' ''@a'' RoomJoinRules (Some []) ''public'')
      else if ty = RoomMember \<and> (key = ''@a'' \<or> key = ''@b'' \<or> key = ''@d'')
        then Some (demo_event ''$m'' key RoomMember (Some key) ''join'')
      else if ty = RoomMember \<and> key = ''@e''
        then Some (demo_event ''$e'' ''@a'' RoomMember (Some key) ''ban'')
      else None)"

end
