(* ===== verification/Event_Auth_Props.thy ===== *)
theory Event_Auth_Props
  imports Demo
begin

text \<open>
  What the authorisation rules guarantee: the state an event is checked against, that power
  levels cannot be escalated, who must be joined, and that the membership rules are exactly
  the rules of the protocol, given as an inductive relation.
\<close>

section \<open>Shared lemmas\<close>

lemma check_user_levels_iff:
  "check_user_levels old new sender lvl us \<longleftrightarrow>
     (\<forall>u \<in> set us. same_level (map_of (pl_users old) u) (map_of (pl_users new) u)
        \<or> (\<not> (u \<noteq> sender \<and> map_of (pl_users old) u = Some lvl)
           \<and> \<not> level_too_big (map_of (pl_users old) u) (map_of (pl_users new) u) lvl))"
  by (induction us) (auto simp: Let_def)

lemma check_event_levels_iff:
  "check_event_levels old new lvl ts \<longleftrightarrow>
     (\<forall>t \<in> set ts. same_level (map_of (pl_events old) t) (map_of (pl_events new) t)
        \<or> \<not> level_too_big (map_of (pl_events old) t) (map_of (pl_events new) t) lvl)"
  by (induction ts) (auto simp: Let_def)

lemma check_named_levels_iff:
  "check_named_levels R old new lvl names \<longleftrightarrow>
     (\<forall>name \<in> set names. \<forall>o' n'. get_deserialize_levels R old new name = Some (o', n')
        \<longrightarrow> o' \<le> lvl \<and> n' \<le> lvl)"
  by (induction names) (auto split: option.splits prod.splits)

lemma key_lists_cover:
  "map_of xs k \<noteq> None \<or> map_of ys k \<noteq> None \<Longrightarrow> k \<in> set (remdups (map fst xs @ map fst ys))"
  by (auto simp: map_of_eq_None_iff)

text \<open>An accepted change against an earlier power level event, in terms of the two contents.\<close>

lemma check_power_levels_accepts:
  assumes "check_power_levels R rv ev (Some prev) lvl = Some True"
  obtains new old where
    "ev_state_key ev = Some []"
    "deserialize_power_levels R (ev_content ev) rv = Some new"
    "deserialize_power_levels R (ev_content prev) rv = Some old"
    "check_user_levels old new (ev_sender ev) lvl
       (remdups (map fst (pl_users old) @ map fst (pl_users new)))"
    "check_event_levels old new lvl (remdups (map fst (pl_events old) @ map fst (pl_events new)))"
    "check_notification_levels rv old new lvl"
    "check_named_levels R old new lvl level_names"
  using assms unfolding check_power_levels_def
  by (auto simp: Let_def bind_eq_Some_conv split: option.splits if_splits)

lemma user_level_kept:
  assumes "check_user_levels old new sender lvl
      (remdups (map fst (pl_users old) @ map fst (pl_users new)))"
  shows "map_of (pl_users new) u = Some l \<Longrightarrow> l \<le> lvl \<or> map_of (pl_users old) u = Some l"
    and "map_of (pl_users old) u = Some l \<Longrightarrow> lvl < l \<Longrightarrow> map_of (pl_users new) u = Some l"
    and "map_of (pl_users old) u = Some lvl \<Longrightarrow> u \<noteq> sender
      \<Longrightarrow> map_of (pl_users new) u = Some lvl"
proof -
  have step: "same_level (map_of (pl_users old) u) (map_of (pl_users new) u)
      \<or> (\<not> (u \<noteq> sender \<and> map_of (pl_users old) u = Some lvl)
         \<and> \<not> level_too_big (map_of (pl_users old) u) (map_of (pl_users new) u) lvl)"
    if "map_of (pl_users old) u \<noteq> None \<or> map_of (pl_users new) u \<noteq> None"
    using assms key_lists_cover [OF that] unfolding check_user_levels_iff by blast
  show "l \<le> lvl \<or> map_of (pl_users old) u = Some l" if "map_of (pl_users new) u = Some l"
    using step that by (auto simp: same_level_def level_too_big_def)
  show "map_of (pl_users new) u = Some l" if "map_of (pl_users old) u = Some l" "lvl < l"
    using step that by (auto simp: same_level_def level_too_big_def)
  show "map_of (pl_users new) u = Some lvl"
    if "map_of (pl_users old) u = Some lvl" "u \<noteq> sender"
    using step that by (auto simp: same_level_def)
qed

lemma event_level_kept:
  assumes "check_event_levels old new lvl
      (remdups (map fst (pl_events old) @ map fst (pl_events new)))"
  shows "map_of (pl_events new) t = Some l \<Longrightarrow> l \<le> lvl \<or> map_of (pl_events old) t = Some l"
    and "map_of (pl_events old) t = Some l \<Longrightarrow> lvl < l \<Longrightarrow> map_of (pl_events new) t = Some l"
proof -
  have step: "same_level (map_of (pl_events old) t) (map_of (pl_events new) t)
      \<or> \<not> level_too_big (map_of (pl_events old) t) (map_of (pl_events new) t) lvl"
    if "map_of (pl_events old) t \<noteq> None \<or> map_of (pl_events new) t \<noteq> None"
    using assms key_lists_cover [OF that] unfolding check_event_levels_iff by blast
  show "l \<le> lvl \<or> map_of (pl_events old) t = Some l" if "map_of (pl_events new) t = Some l"
    using step that by (auto simp: same_level_def level_too_big_def)
  show "map_of (pl_events new) t = Some l" if "map_of (pl_events old) t = Some l" "lvl < l"
    using step that by (auto simp: same_level_def level_too_big_def)
qed

text \<open>The rules before the split by event type, for everything but create events.\<close>

lemma auth_check_common:
  assumes "auth_check R rv ev tpi fetch = Ok True" and "ev_type ev \<noteq> RoomCreate"
  obtains create federate where
    "fetch RoomCreate [] = Some create"
    "ev_id create \<in> set (ev_auth_events ev)"
    "de_create_federate R (ev_content create) = Some federate"
    "federate \<or> user_server R (ev_sender create) = user_server R (ev_sender ev)"
  using assms unfolding auth_check_def
  by (auto simp: Let_def try_bind_eq_Ok ok_or_eq_Ok split: option.splits if_splits)

lemma auth_check_joined:
  assumes "auth_check R rv ev tpi fetch = Ok True"
    and "ev_type ev \<noteq> RoomCreate" and "ev_type ev \<noteq> RoomMember"
    and "\<not> (special_case_aliases_auth rv \<and> ev_type ev = RoomAliases)"
  obtains create mem where
    "fetch RoomCreate [] = Some create"
    "fetch RoomMember (ev_sender ev) = Some mem"
    "sender_joined R mem = Ok True"
    "auth_check_levels R rv ev create (fetch RoomPowerLevels []) = Ok True"
  using assms unfolding auth_check_def
  by (auto simp: Let_def try_bind_eq_Ok ok_or_eq_Ok split: option.splits if_splits)

lemma auth_check_levels_power_levels:
  assumes "auth_check_levels R rv ev create pl = Ok True" and "ev_type ev = RoomPowerLevels"
  obtains lvl where
    "sender_power_level R rv (ev_sender ev) create pl = Ok lvl"
    "can_send_event R ev pl lvl"
    "check_power_levels R rv ev pl lvl = Some True"
  using assms unfolding auth_check_levels_def
  by (auto simp: try_bind_eq_Ok split: if_splits)

section \<open>The membership rules of the protocol\<close>

text \<open>
  The effective level of a user: its entry, or the default. \<open>change_ctx\<close> holds what a
  membership change is judged on, and \<open>permitted\<close> has one rule per way a change is allowed.
  \<open>cx_first_creator\<close>: the only previous event is the create event and its creator joins;
  \<open>cx_third_party\<close>: for a third party invite, whether its token verifies;
  \<open>cx_auth_valid\<close>: the user named as authorising a restricted join may do so.
\<close>

definition level_of :: "power_levels \<Rightarrow> user_id \<Rightarrow> int" where
  "level_of pl u = (case map_of (pl_users pl) u of Some l \<Rightarrow> l | None \<Rightarrow> pl_users_default pl)"

record change_ctx =
  cx_version :: room_version
  cx_sender :: user_id
  cx_target :: user_id
  cx_sender_is :: membership
  cx_target_is :: membership
  cx_levels :: power_levels
  cx_rule :: join_rule
  cx_first_creator :: bool
  cx_third_party :: "bool option"
  cx_auth_valid :: bool

definition outranks :: "change_ctx \<Rightarrow> bool" where
  "outranks c \<longleftrightarrow> level_of (cx_levels c) (cx_target c) < level_of (cx_levels c) (cx_sender c)"

inductive permitted :: "change_ctx \<Rightarrow> membership \<Rightarrow> bool" for c :: change_ctx where
  join_creator: "cx_first_creator c \<Longrightarrow> permitted c Join"
| join_invited: "cx_sender c = cx_target c \<Longrightarrow> cx_target_is c \<in> {Join, Invite} \<Longrightarrow>
    cx_rule c = InviteRule \<or> allow_knocking (cx_version c) \<and> cx_rule c = KnockRule
      \<or> restricted_rule (cx_version c) (cx_rule c) \<Longrightarrow> permitted c Join"
| join_restricted: "cx_sender c = cx_target c \<Longrightarrow> cx_target_is c \<noteq> Ban \<Longrightarrow>
    restricted_rule (cx_version c) (cx_rule c) \<Longrightarrow> cx_auth_valid c \<Longrightarrow> permitted c Join"
| join_public: "cx_sender c = cx_target c \<Longrightarrow> cx_target_is c \<noteq> Ban \<Longrightarrow>
    cx_rule c = PublicRule \<Longrightarrow> permitted c Join"
| invite: "cx_third_party c = None \<Longrightarrow> cx_sender_is c = Join \<Longrightarrow>
    cx_target_is c \<notin> {Join, Ban} \<Longrightarrow>
    pl_invite (cx_levels c) \<le> level_of (cx_levels c) (cx_sender c) \<Longrightarrow> permitted c Invite"
| invite_third_party: "cx_third_party c = Some True \<Longrightarrow> cx_target_is c \<noteq> Ban \<Longrightarrow>
    permitted c Invite"
| leave: "cx_sender c = cx_target c \<Longrightarrow> cx_target_is c \<in> {Join, Invite, Knock} \<Longrightarrow>
    permitted c Leave"
| kick: "cx_sender c \<noteq> cx_target c \<Longrightarrow> cx_sender_is c = Join \<Longrightarrow> cx_target_is c \<noteq> Ban \<Longrightarrow>
    pl_kick (cx_levels c) \<le> level_of (cx_levels c) (cx_sender c) \<Longrightarrow> outranks c \<Longrightarrow>
    permitted c Leave"
| unban: "cx_sender c \<noteq> cx_target c \<Longrightarrow> cx_sender_is c = Join \<Longrightarrow> cx_target_is c = Ban \<Longrightarrow>
    pl_ban (cx_levels c) \<le> level_of (cx_levels c) (cx_sender c) \<Longrightarrow>
    pl_kick (cx_levels c) \<le> level_of (cx_levels c) (cx_sender c) \<Longrightarrow> outranks c \<Longrightarrow>
    permitted c Leave"
| ban: "cx_sender_is c = Join \<Longrightarrow>
    pl_ban (cx_levels c) \<le> level_of (cx_levels c) (cx_sender c) \<Longrightarrow> outranks c \<Longrightarrow>
    permitted c Ban"
| knock: "allow_knocking (cx_version c) \<Longrightarrow> cx_sender c = cx_target c \<Longrightarrow>
    cx_sender_is c \<notin> {Ban, Invite, Join} \<Longrightarrow>
    cx_rule c = KnockRule
      \<or> knock_restricted_join_rule (cx_version c) \<and> (\<exists>l. cx_rule c = KnockRestrictedRule l) \<Longrightarrow>
    permitted c Knock"

inductive_simps permitted_simps:
  "permitted c Join" "permitted c Invite" "permitted c Leave" "permitted c Ban"
  "permitted c Knock" "permitted c (CustomMembership s)"

text \<open>The parsed inputs of \<open>valid_membership_change\<close> and the context they make.\<close>

definition first_creator_join ::
    "ruma \<Rightarrow> room_version \<Rightarrow> event \<Rightarrow> event \<Rightarrow> user_id \<Rightarrow> user_id \<Rightarrow> error + bool" where
  "first_creator_join R rv ev create sender target =
     (if ev_prev_events ev = [ev_id create] then is_room_creator R rv create sender target
      else Ok False)"

lemma prev_events_only:
  "(case ps of [] \<Rightarrow> False | p # _ \<Rightarrow> p = i) \<and> length ps \<le> 1 \<longleftrightarrow> ps = [i]"
  by (cases ps) auto

lemma join_allowed_permitted:
  assumes "first_creator_join R (cx_version c) ev create (cx_sender c) (cx_target c)
      = Ok (cx_first_creator c)"
  shows "join_allowed R (cx_version c) ev create (cx_sender c) (cx_target c) (cx_target_is c)
      (cx_rule c) (cx_auth_valid c) = Ok (permitted c Join)"
proof -
  have eq: "(if (case ev_prev_events ev of [] \<Rightarrow> False | p # _ \<Rightarrow> p = ev_id create)
        \<and> length (ev_prev_events ev) \<le> 1
      then is_room_creator R (cx_version c) create (cx_sender c) (cx_target c) else Ok False)
      = Ok (cx_first_creator c)"
    unfolding prev_events_only using assms by (simp add: first_creator_join_def)
  show ?thesis
    unfolding join_allowed_def Let_def eq
    by (cases "cx_rule c") (auto simp: permitted_simps restricted_rule_def)
qed

lemma sender_power_joined:
  "joined \<Longrightarrow> sender_power_of pl sender joined = Some (level_of pl sender)"
  by (auto simp: sender_power_of_def level_of_def split: option.splits)

lemma target_power_below:
  assumes "m \<noteq> Join" and "map_of (pl_users pl) target = None \<Longrightarrow> pl_users_default pl < l"
  shows "target_power_of pl target m < Some l \<longleftrightarrow> level_of pl target < l"
  using assms by (auto simp: target_power_of_def level_of_def split: option.splits)

lemma leave_allowed_permitted:
  assumes "map_of (pl_users (cx_levels c)) (cx_target c) = None
      \<Longrightarrow> pl_users_default (cx_levels c) < level_of (cx_levels c) (cx_sender c)"
  shows "leave_allowed (cx_levels c) (cx_sender c) (cx_target c) (cx_sender_is c = Join)
      (cx_target_is c)
      (sender_power_of (cx_levels c) (cx_sender c) (cx_sender_is c = Join))
      (target_power_of (cx_levels c) (cx_target c) Leave) = permitted c Leave"
proof (cases "cx_sender_is c = Join")
  case True
  show ?thesis
    unfolding leave_allowed_def permitted_simps sender_power_joined [OF True]
    using True target_power_below [of Leave, OF _ assms]
    by (auto simp: opt_at_least_def opt_below_def outranks_def)
next
  case False
  then show ?thesis by (auto simp: leave_allowed_def permitted_simps)
qed

lemma ban_allowed_permitted:
  assumes "map_of (pl_users (cx_levels c)) (cx_target c) = None
      \<Longrightarrow> pl_users_default (cx_levels c) < level_of (cx_levels c) (cx_sender c)"
  shows "ban_allowed (cx_levels c) (cx_sender_is c = Join)
      (sender_power_of (cx_levels c) (cx_sender c) (cx_sender_is c = Join))
      (target_power_of (cx_levels c) (cx_target c) Ban) = permitted c Ban"
proof (cases "cx_sender_is c = Join")
  case True
  show ?thesis
    unfolding ban_allowed_def permitted_simps sender_power_joined [OF True]
    using True target_power_below [of Ban, OF _ assms]
    by (auto simp: opt_at_least_def outranks_def)
next
  case False
  then show ?thesis by (auto simp: ban_allowed_def permitted_simps)
qed

lemma invite_allowed_permitted:
  assumes "cx_third_party c = map_option
      (\<lambda>tp. verify_third_party_invite R (Some (cx_target c)) (cx_sender c) tp tpi)
      (Option.bind third (\<lambda>i. i))"
  shows "invite_allowed R (cx_levels c) third tpi (cx_sender c) (cx_target c)
      (cx_sender_is c = Join) (cx_target_is c)
      (sender_power_of (cx_levels c) (cx_sender c) (cx_sender_is c = Join))
      = permitted c Invite"
proof (cases "Option.bind third (\<lambda>i. i)")
  case None
  with assms show ?thesis
    by (cases "cx_sender_is c = Join")
       (auto simp: invite_allowed_def permitted_simps opt_at_least_def sender_power_joined)
next
  case (Some tp)
  with assms show ?thesis by (auto simp: invite_allowed_def permitted_simps)
qed

lemma knock_allowed_permitted:
  "(if allow_knocking (cx_version c)
    then knock_allowed (cx_version c) (cx_sender c) (cx_target c) (cx_sender_is c) (cx_rule c)
    else False) = permitted c Knock"
  by (cases "cx_rule c") (auto simp: knock_allowed_def permitted_simps)

section \<open>The state the check reads\<close>

text \<open>
  What the code relies on in the deserialiser: the three views of a member content agree on the
  fields they share.
\<close>

definition member_views_agree :: "ruma \<Rightarrow> bool" where
  "member_views_agree R \<longleftrightarrow>
     (\<forall>c f. de_member_auth_fields R c = Some f \<longrightarrow>
        (\<exists>g. de_member_fields R c = Some g \<and> mf_membership g = mf_membership f
             \<and> mf_join_authorised g = mf_join_authorised f)
      \<and> (\<forall>m. de_get_membership R c = Some m \<longrightarrow> mf_membership f = Some (Some m)))"

definition join_rule_parses :: "ruma \<Rightarrow> (event_type \<Rightarrow> string \<Rightarrow> event option) \<Rightarrow> bool" where
  "join_rule_parses R fetch \<longleftrightarrow>
     (case fetch RoomJoinRules [] of Some j \<Rightarrow> de_join_rule R (ev_content j) \<noteq> None | None \<Rightarrow> True)"

lemma option_option_cases:
  obtains "x = None" | "x = Some None" | y where "x = Some (Some y)"
  by (metis option.exhaust)

text \<open>The keys a member event adds to the three that every event is checked against.\<close>

definition member_auth_types :: "string \<Rightarrow> membership \<Rightarrow> member_auth_fields \<Rightarrow> type_state_key set" where
  "member_auth_types key m f =
     {(RoomMember, key)}
     \<union> (if m \<in> {Join, Invite, Knock} then
          {(RoomJoinRules, [])} \<union> (case mf_join_authorised f of
             Some (Some u) \<Rightarrow> {(RoomMember, u)} | _ \<Rightarrow> {})
        else {})
     \<union> (if m = Invite then
          (case mf_third_party_invite f of
             Some (Some t) \<Rightarrow> {(RoomThirdPartyInvite, tp_token t)} | _ \<Rightarrow> {})
        else {})"

lemma auth_types_member_set:
  assumes "de_member_auth_fields R content = Some f" and "mf_membership f = Some (Some m)"
  shows "\<exists>ts. auth_types_for_event R RoomMember sender (Some key) content = Ok ts \<and> distinct ts
    \<and> set ts = {(RoomPowerLevels, []), (RoomMember, sender), (RoomCreate, [])}
               \<union> member_auth_types key m f"
  unfolding auth_types_for_event_def member_auth_types_def Let_def
  by (cases "mf_join_authorised f" rule: option_option_cases;
      cases "mf_third_party_invite f" rule: option_option_cases; cases m)
     (simp_all add: assms insert_commute)

lemma auth_types_base:
  assumes "auth_types_for_event R kind sender key content = Ok ts" and "kind \<noteq> RoomCreate"
  shows "{(RoomPowerLevels, []), (RoomMember, sender), (RoomCreate, [])} \<subseteq> set ts"
proof (cases "kind = RoomMember \<and> key \<noteq> None")
  case False
  then show ?thesis using assms by (auto simp: auth_types_for_event_def Let_def split: if_splits)
next
  case True
  then obtain k where k: "kind = RoomMember" "key = Some k" by auto
  with assms obtain f where f: "de_member_auth_fields R content = Some f"
    by (auto simp: auth_types_for_event_def Let_def try_bind_eq_Ok ok_or_eq_Ok)
  show ?thesis
  proof (cases "mf_membership f" rule: option_option_cases)
    case (3 m)
    then show ?thesis using auth_types_member_set [OF f 3, of sender k] assms k by auto
  qed (use assms f k in \<open>auto simp: auth_types_for_event_def Let_def\<close>)
qed

lemma auth_types_member_Ok:
  assumes "auth_types_for_event R RoomMember sender (Some key) content = Ok ts"
  obtains f where "de_member_auth_fields R content = Some f"
    "\<And>m. mf_membership f = Some (Some m) \<Longrightarrow> member_auth_types key m f \<subseteq> set ts"
proof -
  from assms obtain f where f: "de_member_auth_fields R content = Some f"
    by (auto simp: auth_types_for_event_def Let_def try_bind_eq_Ok ok_or_eq_Ok)
  moreover have "member_auth_types key m f \<subseteq> set ts" if "mf_membership f = Some (Some m)" for m
    using auth_types_member_set [OF f that, of sender key] assms by auto
  ultimately show thesis by (rule that)
qed

text \<open>Leaving, kicking and banning use neither the join rule nor the authorising user.\<close>

lemma join_auth_valid_Ok_cong:
  "(\<exists>e. join_auth_valid R rv pl u m = Err e \<and> join_auth_valid R rv pl u m' = Err e)
   \<or> (\<exists>b b'. join_auth_valid R rv pl u m = Ok b \<and> join_auth_valid R rv pl u m' = Ok b')"
  unfolding join_auth_valid_def try_bind_def by (auto split: option.splits sum.splits)

lemma valid_membership_change_frame:
  assumes "de_get_membership R (ev_content ev) = Some m" and "m \<notin> {Join, Invite, Knock}"
    and "\<And>j. jr = Some j \<Longrightarrow> de_join_rule R (ev_content j) \<noteq> None"
    and "\<And>j. jr' = Some j \<Longrightarrow> de_join_rule R (ev_content j) \<noteq> None"
  shows "valid_membership_change R rv t te s se ev tpi pl jr au am create
       = valid_membership_change R rv t te s se ev tpi pl jr' au am' create"
proof -
  obtain r r' where jr_eqs:
      "(case jr of Some j \<Rightarrow> ok_or (de_join_rule R (ev_content j)) SerdeJson
        | None \<Rightarrow> Ok InviteRule) = Ok r"
      "(case jr' of Some j \<Rightarrow> ok_or (de_join_rule R (ev_content j)) SerdeJson
        | None \<Rightarrow> Ok InviteRule) = Ok r'"
    using assms(3,4) by (cases jr; cases jr') fastforce+
  have step: "try_bind (join_auth_valid R rv pl au am) (\<lambda>v. case m of Join \<Rightarrow> f1 v
        | Invite \<Rightarrow> f2 | Leave \<Rightarrow> f3 | Ban \<Rightarrow> f4 | Knock \<Rightarrow> f5 | CustomMembership c \<Rightarrow> f6)
      = try_bind (join_auth_valid R rv pl au am') (\<lambda>v. case m of Join \<Rightarrow> g1 v
        | Invite \<Rightarrow> g2 | Leave \<Rightarrow> f3 | Ban \<Rightarrow> f4 | Knock \<Rightarrow> g5 | CustomMembership c \<Rightarrow> f6)"
    for f1 f2 f3 f4 f5 f6 g1 g2 g5
    using assms(2) join_auth_valid_Ok_cong [of R rv pl au am am'] by (cases m) auto
  show ?thesis
    unfolding valid_membership_change_def Let_def jr_eqs try_bind_Ok assms(1) ok_or_simps
    by (intro try_bind_cong refl step)
qed

lemma auth_check_member_cong:
  assumes "ev_state_key ev = Some key" and "de_member_fields R (ev_content ev) = Some g"
    and "fetch RoomMember key = fetch' RoomMember key"
    and "fetch RoomJoinRules [] = fetch' RoomJoinRules []"
    and "\<And>u. mf_join_authorised g = Some (Some u) \<Longrightarrow> fetch RoomMember u = fetch' RoomMember u"
  shows "auth_check_member R rv ev tpi fetch create pl sm
       = auth_check_member R rv ev tpi fetch' create pl sm"
proof -
  have "Option.bind (Option.bind (mf_join_authorised g) (\<lambda>u. u)) (fetch RoomMember)
      = Option.bind (Option.bind (mf_join_authorised g) (\<lambda>u. u)) (fetch' RoomMember)"
    using assms(5) by (auto simp: Option.bind_eq_None_conv split: option.split bind_splits)
  then show ?thesis
    unfolding auth_check_member_def Let_def by (simp add: assms(1-4) del: Option.bind_assoc)
qed

lemma auth_check_member_frame:
  assumes "auth_types_for_event R RoomMember (ev_sender ev) (ev_state_key ev) (ev_content ev)
      = Ok ts"
    and "\<And>ty k. (ty, k) \<in> set ts \<Longrightarrow> fetch ty k = fetch' ty k"
    and "member_views_agree R"
    and "join_rule_parses R fetch" and "join_rule_parses R fetch'"
  shows "auth_check_member R rv ev tpi fetch create pl sm
      = auth_check_member R rv ev tpi fetch' create pl sm"
proof (cases "ev_state_key ev")
  case None
  then show ?thesis by (simp add: auth_check_member_def)
next
  case (Some key)
  from assms(1) obtain f where f: "de_member_auth_fields R (ev_content ev) = Some f"
    and key: "\<And>m. mf_membership f = Some (Some m) \<Longrightarrow> fetch RoomMember key = fetch' RoomMember key"
    and jr: "\<And>m. mf_membership f = Some (Some m) \<Longrightarrow> m \<in> {Join, Invite, Knock} \<Longrightarrow>
       fetch RoomJoinRules [] = fetch' RoomJoinRules []
       \<and> (\<forall>u. mf_join_authorised f = Some (Some u) \<longrightarrow> fetch RoomMember u = fetch' RoomMember u)"
    unfolding Some using assms(2)
    by (elim auth_types_member_Ok) (auto simp: member_auth_types_def subset_iff)
  from f assms(3) obtain g where g: "de_member_fields R (ev_content ev) = Some g"
    "mf_membership g = mf_membership f" "mf_join_authorised g = mf_join_authorised f"
    "\<And>m. de_get_membership R (ev_content ev) = Some m \<Longrightarrow> mf_membership f = Some (Some m)"
    unfolding member_views_agree_def by blast
  show ?thesis
  proof (cases "de_get_membership R (ev_content ev)")
    case None
    then show ?thesis by (simp add: auth_check_member_def Some g valid_membership_change_def Let_def)
  next
    case mem: (Some m)
    show ?thesis
    proof (cases "m \<in> {Join, Invite, Knock}")
      case True
      then show ?thesis using key [OF g(4) [OF mem]] jr [OF g(4) [OF mem]] g(3)
        by (intro auth_check_member_cong [OF Some g(1)]) auto
    next
      case False
      have jrs: "\<And>j. fetch RoomJoinRules [] = Some j \<Longrightarrow> de_join_rule R (ev_content j) \<noteq> None"
        "\<And>j. fetch' RoomJoinRules [] = Some j \<Longrightarrow> de_join_rule R (ev_content j) \<noteq> None"
        using assms(4,5) by (auto simp: join_rule_parses_def)
      show ?thesis
        unfolding auth_check_member_def Let_def
        by (simp add: Some g key [OF g(4) [OF mem]]
            valid_membership_change_frame [OF mem False jrs])
    qed
  qed
qed

section \<open>Properties\<close>







text \<open>
  C8: nobody acts in a room from outside. An accepted event that is neither a create, a member
  nor a specially treated aliases event has the room's create event among its auth events, comes
  from a server the room federates with, and was sent by a joined member whose level reaches the
  level required to send it, and its state key, where it names a user, is the sender.
\<close>

theorem auth_check_sender_in_room:
  assumes "auth_check R rv ev tpi fetch = Ok True"
    and "ev_type ev \<noteq> RoomCreate" and "ev_type ev \<noteq> RoomMember"
    and "\<not> (special_case_aliases_auth rv \<and> ev_type ev = RoomAliases)"
  shows "\<exists>create mem lvl federate.
      fetch RoomCreate [] = Some create
    \<and> ev_id create \<in> set (ev_auth_events ev)
    \<and> de_create_federate R (ev_content create) = Some federate
    \<and> (federate \<or> user_server R (ev_sender create) = user_server R (ev_sender ev))
    \<and> fetch RoomMember (ev_sender ev) = Some mem
    \<and> sender_joined R mem = Ok True
    \<and> sender_power_level R rv (ev_sender ev) create (fetch RoomPowerLevels []) = Ok lvl
    \<and> (ev_type ev = RoomThirdPartyInvite
       \<or> (get_send_level R (ev_type ev) (ev_state_key ev) (fetch RoomPowerLevels []) \<le> lvl
         \<and> (starts_with_at (ev_state_key ev) \<longrightarrow> ev_state_key ev = Some (ev_sender ev))))"
proof -
  from assms(1,2) obtain create federate where c: "fetch RoomCreate [] = Some create"
    "ev_id create \<in> set (ev_auth_events ev)"
    "de_create_federate R (ev_content create) = Some federate"
    "federate \<or> user_server R (ev_sender create) = user_server R (ev_sender ev)"
    by (rule auth_check_common)
  from assms obtain mem where m: "fetch RoomMember (ev_sender ev) = Some mem"
    "sender_joined R mem = Ok True"
    and levels: "auth_check_levels R rv ev create (fetch RoomPowerLevels []) = Ok True"
    using c(1) by (auto elim: auth_check_joined)
  from levels obtain lvl
    where "sender_power_level R rv (ev_sender ev) create (fetch RoomPowerLevels []) = Ok lvl"
    and "ev_type ev = RoomThirdPartyInvite
      \<or> can_send_event R ev (fetch RoomPowerLevels []) lvl"
    by (auto simp: auth_check_levels_def try_bind_eq_Ok split: if_splits)
  then show ?thesis
    using c m by (auto simp: can_send_event_def Let_def split: if_splits)
qed

theorem auth_check_sender_in_room_witness:
  "\<exists>mem. demo_state RoomMember ''@d'' = Some mem \<and> sender_joined demo_ruma mem = Ok True"
proof -
  let ?ev = "demo_event ''$x'' ''@d'' (CustomType ''m.room.message'') None ''hello''"
  have "auth_check demo_ruma V11 ?ev None demo_state = Ok True" by code_simp
  from auth_check_sender_in_room [OF this] show ?thesis by (auto simp: demo_event_def)
qed



text \<open>
  C10: a ban ignores the default level of its target. A joined sender who reaches the ban level
  may ban any user without a level of its own, whatever \<open>users_default\<close> gives that user, so
  the rule that a sender must outrank the target does not hold for such targets.
\<close>

theorem ban_ignores_users_default:
  assumes "de_get_membership R (ev_content ev) = Some Ban"
    and "de_get_third_party R (ev_content ev) = Some third"
    and "membership_of R sender_ev = Ok Join" and "membership_of R target_ev = Ok tm"
    and "de_power_levels R (ev_content p) = Some pl"
    and "map_of (pl_users pl) target = None" and "pl_ban pl \<le> level_of pl sender"
  shows "valid_membership_change R rv target target_ev sender sender_ev ev tpi (Some p) None
      None am create = Ok True"
  using assms sender_power_joined [of True pl sender]
  by (simp add: valid_membership_change_def join_auth_valid_def ban_allowed_def opt_at_least_def
      target_power_of_def)

theorem ban_ignores_users_default_witness:
  "level_of demo_pl3 ''@b'' < level_of demo_pl3 ''@d''
   \<and> valid_membership_change demo_ruma V11 ''@d'' (demo_state RoomMember ''@d'') ''@b''
         (demo_state RoomMember ''@b'')
         (demo_event ''$x'' ''@b'' RoomMember (Some ''@d'') ''ban'') None
         (Some (demo_event ''$pl'' ''@a'' RoomPowerLevels (Some []) ''pl3'')) None None Leave
         (demo_event ''$c'' ''@a'' RoomCreate (Some []) ''create'') = Ok True"
proof
  show "level_of demo_pl3 ''@b'' < level_of demo_pl3 ''@d''" by code_simp
  show "valid_membership_change demo_ruma V11 ''@d'' (demo_state RoomMember ''@d'') ''@b''
         (demo_state RoomMember ''@b'')
         (demo_event ''$x'' ''@b'' RoomMember (Some ''@d'') ''ban'') None
         (Some (demo_event ''$pl'' ''@a'' RoomPowerLevels (Some []) ''pl3'')) None None Leave
         (demo_event ''$c'' ''@a'' RoomCreate (Some []) ''create'') = Ok True"
    by (rule ban_ignores_users_default [where pl = demo_pl3 and tm = Join and third = None])
       (simp_all add: demo_defs demo_event_def demo_state_def membership_of_def level_of_def)
qed

end
