(* ===== verification/Topo_Sort.thy ===== *)
theory Topo_Sort
  imports Event
begin

text \<open>
  \<open>core/matrix/state_res/mod.rs\<close>, \<open>lexicographical_topological_sort\<close>: Kahn's algorithm on the
  graph from an event to the events it refers to, taking at each step the smallest available
  event in the order of \<open>TieBreaker\<close>. The graph is a hash map of hash sets: an association list
  with distinct keys and distinct edges, whose order stands for the iteration order. The binary
  heap is the list of its elements, and \<open>pop\<close> takes a smallest one.
\<close>

section \<open>The order of the heap\<close>

datatype 'id tie_breaker =
  TieBreaker (tb_power_level: int) (tb_ts: nat) (tb_event_id: 'id)

instantiation tie_breaker :: (linorder) linorder
begin

definition less_eq_tie_breaker :: "'a tie_breaker \<Rightarrow> 'a tie_breaker \<Rightarrow> bool" where
  "less_eq_tie_breaker x y \<longleftrightarrow>
     tb_power_level y < tb_power_level x
   \<or> (tb_power_level y = tb_power_level x
      \<and> (tb_ts x < tb_ts y
         \<or> (tb_ts x = tb_ts y \<and> tb_event_id x \<le> tb_event_id y)))"

definition less_tie_breaker :: "'a tie_breaker \<Rightarrow> 'a tie_breaker \<Rightarrow> bool" where
  "less_tie_breaker x y \<longleftrightarrow> x \<le> y \<and> \<not> y \<le> x"

instance
proof
  fix x y z :: "'a tie_breaker"
  show "x < y \<longleftrightarrow> x \<le> y \<and> \<not> y \<le> x" by (rule less_tie_breaker_def)
  show "x \<le> x" by (simp add: less_eq_tie_breaker_def)
  show "x \<le> z" if "x \<le> y" "y \<le> z"
    using that unfolding less_eq_tie_breaker_def by auto
  show "x = y" if "x \<le> y" "y \<le> x"
    using that unfolding less_eq_tie_breaker_def by (cases x; cases y) auto
  show "x \<le> y \<or> y \<le> x" unfolding less_eq_tie_breaker_def by auto
qed

end

section \<open>The algorithm\<close>

type_synonym 'id graph = "('id \<times> 'id list) list"
type_synonym 'id key_fn = "'id \<Rightarrow> error + (int \<times> nat)"

text \<open>The graph is a hash map of hash sets.\<close>

definition wf_graph :: "'id graph \<Rightarrow> bool" where
  "wf_graph g \<longleftrightarrow> distinct (map fst g) \<and> (\<forall>(n, es) \<in> set g. distinct es)"

text \<open>\<open>entry(k).or_default()\<close> and \<open>entry(k).or_default().insert(v)\<close> of a map of sets.\<close>

definition or_default :: "'id \<Rightarrow> 'id graph \<Rightarrow> 'id graph" where
  "or_default k m = (if map_of m k = None then m @ [(k, [])] else m)"

definition entry_insert :: "'id \<Rightarrow> 'id \<Rightarrow> 'id graph \<Rightarrow> 'id graph" where
  "entry_insert k v m =
     AList.update k (push_unique (case map_of m k of Some vs \<Rightarrow> vs | None \<Rightarrow> []) v) m"

text \<open>The first loop: the reverse graph and the nodes without outgoing edges.\<close>

fun topo_init :: "'id key_fn \<Rightarrow> 'id graph \<Rightarrow> 'id graph \<Rightarrow> 'id tie_breaker list
    \<Rightarrow> error + ('id graph \<times> 'id tie_breaker list)" where
  "topo_init key_fn [] reverse_graph zero_outdegree = Ok (reverse_graph, zero_outdegree)"
| "topo_init key_fn ((node, edges) # graph) reverse_graph zero_outdegree =
     try_bind
       (if edges = [] then
          try_bind (key_fn node) (\<lambda>(power_level, origin_server_ts).
            Ok (zero_outdegree @ [TieBreaker power_level origin_server_ts node]))
        else Ok zero_outdegree)
       (\<lambda>zero_outdegree.
          topo_init key_fn graph
            (fold (\<lambda>edge. entry_insert edge node) edges (or_default node reverse_graph))
            zero_outdegree)"

text \<open>\<open>BinaryHeap::pop\<close> of reversed elements: a smallest element is taken out.\<close>

definition heap_pop :: "'a :: linorder list \<Rightarrow> ('a \<times> 'a list) option" where
  "heap_pop h = (case h of [] \<Rightarrow> None | x # xs \<Rightarrow> let m = fold min xs x in Some (m, remove1 m h))"

text \<open>The inner loop over the events that refer to the popped node.\<close>

fun visit_parents :: "'id key_fn \<Rightarrow> 'id \<Rightarrow> 'id list \<Rightarrow> 'id graph \<Rightarrow> 'id tie_breaker list
    \<Rightarrow> error + ('id graph \<times> 'id tie_breaker list)" where
  "visit_parents key_fn node [] outdegree_map heap = Ok (outdegree_map, heap)"
| "visit_parents key_fn node (parent # parents) outdegree_map heap =
     (case map_of outdegree_map parent of
        None \<Rightarrow> Err (Panic ''outdegree_map knows of all referenced EventIds'')
      | Some out \<Rightarrow>
          let out = removeAll node out;
              outdegree_map = AList.update parent out outdegree_map in
          if out = [] then
            try_bind (key_fn parent) (\<lambda>(power_level, origin_server_ts).
              visit_parents key_fn node parents outdegree_map
                (TieBreaker power_level origin_server_ts parent # heap))
          else visit_parents key_fn node parents outdegree_map heap)"

text \<open>The main loop. Every round pops one node; the fuel bounds the number of rounds.\<close>

fun topo_loop :: "nat \<Rightarrow> 'id :: linorder key_fn \<Rightarrow> 'id graph \<Rightarrow> 'id graph \<Rightarrow> 'id tie_breaker list
    \<Rightarrow> 'id list \<Rightarrow> error + 'id list" where
  "topo_loop 0 key_fn reverse_graph outdegree_map heap sorted_ids = Err OutOfFuel"
| "topo_loop (Suc fuel) key_fn reverse_graph outdegree_map heap sorted_ids =
     (case heap_pop heap of
        None \<Rightarrow> Ok sorted_ids
      | Some (item, heap) \<Rightarrow>
          (case map_of reverse_graph (tb_event_id item) of
             None \<Rightarrow> Err (Panic ''EventId in heap is also in reverse_graph'')
           | Some parents \<Rightarrow>
               try_bind (visit_parents key_fn (tb_event_id item) parents outdegree_map heap)
                 (\<lambda>(outdegree_map, heap).
                   topo_loop fuel key_fn reverse_graph outdegree_map heap
                     (sorted_ids @ [tb_event_id item]))))"

text \<open>One round per node and one to see the empty heap.\<close>

definition lexicographical_topological_sort ::
    "'id :: linorder graph \<Rightarrow> 'id key_fn \<Rightarrow> error + 'id list" where
  "lexicographical_topological_sort graph key_fn =
     try_bind (topo_init key_fn graph [] []) (\<lambda>(reverse_graph, zero_outdegree).
       topo_loop (Suc (length graph)) key_fn reverse_graph graph zero_outdegree [])"

section \<open>Specification\<close>

text \<open>The edges of a node, and the nodes available once the nodes of \<open>S\<close> are out.\<close>

definition edges_of :: "'id graph \<Rightarrow> 'id \<Rightarrow> 'id set" where
  "edges_of g n = (case map_of g n of Some es \<Rightarrow> set es | None \<Rightarrow> {})"

definition ready :: "'id graph \<Rightarrow> 'id set \<Rightarrow> 'id set" where
  "ready g S = {n \<in> fst ` set g. n \<notin> S \<and> edges_of g n \<subseteq> S}"

text \<open>The position of a node in the order of the heap.\<close>

definition tie :: "'id key_fn \<Rightarrow> 'id \<Rightarrow> 'id tie_breaker" where
  "tie key_fn n = (case key_fn n of Ok (pl, ts) \<Rightarrow> TieBreaker pl ts n | Err _ \<Rightarrow> TieBreaker 0 0 n)"

text \<open>A run of the abstract algorithm: always the smallest available node.\<close>

inductive greedy :: "'id :: linorder graph \<Rightarrow> 'id key_fn \<Rightarrow> 'id list \<Rightarrow> bool" for g key where
  start: "greedy g key []"
| step: "greedy g key xs \<Longrightarrow> n \<in> ready g (set xs) \<Longrightarrow>
    (\<And>m. m \<in> ready g (set xs) \<Longrightarrow> tie key n \<le> tie key m) \<Longrightarrow> greedy g key (xs @ [n])"

text \<open>The nodes all of whose descendants are nodes and which are on no cycle.\<close>

inductive grounded :: "'id graph \<Rightarrow> 'id \<Rightarrow> bool" for g where
  "n \<in> fst ` set g \<Longrightarrow> (\<And>e. e \<in> edges_of g n \<Longrightarrow> grounded g e) \<Longrightarrow> grounded g n"

inductive_cases greedy_snocE: "greedy g key (xs @ [n])"

section \<open>The heap and the reverse graph\<close>

lemma tb_event_id_tie [simp]: "tb_event_id (tie key n) = n"
  by (simp add: tie_def split: sum.split prod.split)

lemma inj_tie: "inj_on (tie key) A"
  by (rule inj_on_inverseI [of _ tb_event_id]) simp

lemma tie_Ok: "key n = Ok (pl, ts) \<Longrightarrow> TieBreaker pl ts n = tie key n"
  by (simp add: tie_def)

lemma heap_pop_None [simp]: "heap_pop h = None \<longleftrightarrow> h = []"
  by (simp add: heap_pop_def Let_def split: list.split)

lemma heap_pop_Nil [simp]: "heap_pop [] = None"
  by simp

lemma heap_pop_Some:
  assumes "heap_pop h = Some (m, h')"
  shows "m \<in> set h" and "\<And>x. x \<in> set h \<Longrightarrow> m \<le> x" and "h' = remove1 m h"
proof -
  from assms obtain x xs where h: "h = x # xs" and m: "m = fold min xs x"
    and h': "h' = remove1 m h"
    by (auto simp: heap_pop_def Let_def split: list.splits)
  have "m = Min (set h)" by (simp only: h m Min.set_eq_fold)
  then show "m \<in> set h" and "\<And>x. x \<in> set h \<Longrightarrow> m \<le> x"
    using h Min_in [of "set h"] by auto
  show "h' = remove1 m h" by (rule h')
qed

lemma edges_of_entry_insert [simp]:
  "edges_of (entry_insert k v m) n = (if n = k then insert v (edges_of m n) else edges_of m n)"
  by (auto simp: edges_of_def entry_insert_def AList.update_conv' split: option.split)

lemma edges_of_or_default [simp]: "edges_of (or_default k m) n = edges_of m n"
  by (simp add: edges_of_def or_default_def map_add_def split: option.split)

definition distinct_edges :: "'id graph \<Rightarrow> bool" where
  "distinct_edges m \<longleftrightarrow> (\<forall>n es. map_of m n = Some es \<longrightarrow> distinct es)"

lemma distinct_edges_entry_insert [simp]:
  assumes "distinct_edges m"
  shows "distinct_edges (entry_insert k v m)"
  unfolding distinct_edges_def
proof (intro allI impI)
  fix n es
  assume "map_of (entry_insert k v m) n = Some es"
  then show "distinct es"
    using assms [unfolded distinct_edges_def, rule_format, of n]
    by (cases "map_of m n") (auto simp: entry_insert_def AList.update_conv' split: if_splits)
qed

lemma map_of_or_default:
  "map_of (or_default k m) n = (if n = k \<and> map_of m k = None then Some [] else map_of m n)"
  by (simp add: or_default_def map_add_def split: option.split)

lemma distinct_edges_or_default [simp]: "distinct_edges m \<Longrightarrow> distinct_edges (or_default k m)"
  unfolding distinct_edges_def map_of_or_default by (metis distinct.simps(1) option.inject)

lemma fold_entry_insert:
  "edges_of (fold (\<lambda>e. entry_insert e node) es m) n
     = edges_of m n \<union> (if n \<in> set es then {node} else {})"
  "distinct_edges m \<Longrightarrow> distinct_edges (fold (\<lambda>e. entry_insert e node) es m)"
  "map_of m k \<noteq> None \<Longrightarrow> map_of (fold (\<lambda>e. entry_insert e node) es m) k \<noteq> None"
proof (induction es arbitrary: m)
  case (Cons e es)
  { case 1 show ?case using Cons(1) [of "entry_insert e node m"] by auto }
  { case 2 then show ?case using Cons(2) [of "entry_insert e node m"] by simp }
  { case 3 then show ?case using Cons(3) [of "entry_insert e node m"]
      by (simp add: entry_insert_def AList.update_conv') }
qed simp_all

text \<open>What the first loop leaves: the referring events of each node, and the initial heap.\<close>

definition build_reverse :: "'id graph \<Rightarrow> 'id graph \<Rightarrow> 'id graph" where
  "build_reverse g m =
     fold (\<lambda>(node, es) m. fold (\<lambda>e. entry_insert e node) es (or_default node m)) g m"

lemma build_reverse:
  "edges_of (build_reverse g m) n = edges_of m n \<union> {p. \<exists>es. (p, es) \<in> set g \<and> n \<in> set es}"
  "distinct_edges m \<Longrightarrow> distinct_edges (build_reverse g m)"
  "map_of m k \<noteq> None \<or> k \<in> fst ` set g \<Longrightarrow> map_of (build_reverse g m) k \<noteq> None"
proof (induction g arbitrary: m)
  case Nil
  { case 1 show ?case by (simp add: build_reverse_def) }
  { case 2 then show ?case by (simp add: build_reverse_def) }
  { case 3 then show ?case by (simp add: build_reverse_def) }
next
  case (Cons x g)
  obtain node es where x: "x = (node, es)" by (cases x)
  have eq: "build_reverse (x # g) m
      = build_reverse g (fold (\<lambda>e. entry_insert e node) es (or_default node m))" for m
    by (simp add: build_reverse_def x)
  { case 1 show ?case unfolding eq Cons(1) fold_entry_insert(1) using x by auto }
  { case 2 then show ?case unfolding eq by (intro Cons(2) fold_entry_insert(2)) simp }
  { case 3
    have "map_of (or_default node m) k \<noteq> None \<or> k \<in> fst ` set g"
      using 3 x by (auto simp: map_of_or_default)
    then show ?case unfolding eq using fold_entry_insert(3) [of "or_default node m" k node es]
      by (intro Cons(3)) auto }
qed

lemma topo_init_result:
  "(\<exists>n \<in> fst ` set g. \<exists>e. key n = Err e \<and> topo_init key g m zs = Err e)
   \<or> topo_init key g m zs
       = Ok (build_reverse g m, zs @ map (tie key \<circ> fst) (filter (\<lambda>(n, es). es = []) g))"
proof (induction g arbitrary: m zs)
  case Nil
  show ?case by (simp add: build_reverse_def)
next
  case (Cons x g)
  obtain node es where x: "x = (node, es)" by (cases x)
  have rev: "build_reverse (x # g) m
      = build_reverse g (fold (\<lambda>e. entry_insert e node) es (or_default node m))"
    by (simp add: build_reverse_def x)
  show ?case
  proof (cases "es = []")
    case False
    then have "topo_init key (x # g) m zs
        = topo_init key g (fold (\<lambda>e. entry_insert e node) es (or_default node m)) zs"
      by (simp add: x)
    then show ?thesis
      using Cons.IH [of "fold (\<lambda>e. entry_insert e node) es (or_default node m)" zs] False
      unfolding rev by (auto simp: x)
  next
    case True
    show ?thesis
    proof (cases "key node")
      case (Inl e)
      then show ?thesis using x True by auto
    next
      case (Inr k)
      then obtain pl ts where k: "key node = Ok (pl, ts)" by (cases k) auto
      have "topo_init key (x # g) m zs
          = topo_init key g (or_default node m) (zs @ [tie key node])"
        by (simp add: x True k tie_Ok [of key node, OF k])
      then show ?thesis
        using Cons.IH [of "or_default node m" "zs @ [tie key node]"] True
        unfolding rev by (auto simp: x)
    qed
  qed
qed

section \<open>The main loop\<close>

lemma visit_parents_result:
  assumes "distinct ps" and "\<forall>p \<in> set ps. map_of od p \<noteq> None"
  shows "(\<exists>p \<in> set ps. \<exists>e. key p = Err e \<and> visit_parents key n ps od heap = Err e)
    \<or> (\<exists>od'. visit_parents key n ps od heap = Ok (od',
          rev (map (tie key) (filter (\<lambda>p. removeAll n (the (map_of od p)) = []) ps)) @ heap)
        \<and> (\<forall>p. map_of od' p = (if p \<in> set ps then map_option (removeAll n) (map_of od p)
                               else map_of od p)))"
  using assms
proof (induction ps arbitrary: od heap)
  case (Cons p ps)
  from Cons.prems(2) obtain out where out: "map_of od p = Some out" by auto
  let ?od = "AList.update p (removeAll n out) od"
  have dist: "distinct ps" and p: "p \<notin> set ps" using Cons.prems(1) by simp_all
  have keys: "\<forall>q \<in> set ps. map_of ?od q \<noteq> None"
    using Cons.prems(2) by (simp add: AList.update_conv')
  have same: "filter (\<lambda>q. removeAll n (the (map_of ?od q)) = []) ps
      = filter (\<lambda>q. removeAll n (the (map_of od q)) = []) ps"
    using p by (intro filter_cong refl) (auto simp: AList.update_conv')
  have upd: "(if q \<in> set ps then map_option (removeAll n) (map_of ?od q) else map_of ?od q)
      = (if q \<in> set (p # ps) then map_option (removeAll n) (map_of od q) else map_of od q)" for q
    using p out by (auto simp: AList.update_conv')
  note IH = Cons.IH [OF dist keys, unfolded same upd]
  let ?ready = "\<lambda>p. removeAll n (the (map_of od p)) = []"
  show ?case
  proof (cases "removeAll n out = []")
    case False
    have "visit_parents key n (p # ps) od heap = visit_parents key n ps ?od heap"
      "filter ?ready (p # ps) = filter ?ready ps"
      using False by (simp_all add: out)
    then show ?thesis using IH [of heap] by (simp only: list.set insert_iff) blast
  next
    case True
    show ?thesis
    proof (cases "key p")
      case (Inl e)
      then show ?thesis using True by (auto simp: out)
    next
      case (Inr k)
      then obtain pl ts where k: "key p = Ok (pl, ts)" by (cases k) auto
      have "visit_parents key n (p # ps) od heap = visit_parents key n ps ?od (tie key p # heap)"
        "rev (map (tie key) (filter ?ready (p # ps))) @ heap
          = rev (map (tie key) (filter ?ready ps)) @ tie key p # heap"
        by (simp_all add: out True k tie_Ok [of key p, OF k])
      then show ?thesis
        using IH [of "tie key p # heap"] by (simp only: list.set insert_iff) blast
    qed
  qed
qed simp

lemma greedy_closed:
  assumes "greedy g key xs"
  shows "distinct xs" and "set xs \<subseteq> fst ` set g"
    and "\<And>p. p \<in> set xs \<Longrightarrow> edges_of g p \<subseteq> set xs"
  using assms
  by (induction rule: greedy.induct) (auto simp: ready_def)

lemma ready_insert:
  assumes "\<And>p. p \<in> S \<Longrightarrow> edges_of g p \<subseteq> S" and "n \<in> ready g S"
  shows "ready g (insert n S) = (ready g S - {n})
      \<union> {p \<in> fst ` set g. n \<in> edges_of g p \<and> edges_of g p \<subseteq> insert n S}"
    and "(ready g S - {n})
      \<inter> {p \<in> fst ` set g. n \<in> edges_of g p \<and> edges_of g p \<subseteq> insert n S} = {}"
  using assms unfolding ready_def by auto

text \<open>What holds at the start of every round.\<close>

definition topo_inv :: "'id :: linorder graph \<Rightarrow> 'id key_fn \<Rightarrow> 'id graph \<Rightarrow> 'id tie_breaker list
    \<Rightarrow> 'id list \<Rightarrow> bool" where
  "topo_inv g key od heap xs \<longleftrightarrow>
     (\<forall>n. map_of od n = map_option (filter (\<lambda>e. e \<notin> set xs)) (map_of g n))
   \<and> distinct heap \<and> set heap = tie key ` ready g (set xs) \<and> greedy g key xs"

text \<open>The reverse graph of \<open>g\<close>, as the first loop builds it.\<close>

definition reverse_of :: "'id graph \<Rightarrow> 'id graph \<Rightarrow> bool" where
  "reverse_of g rg \<longleftrightarrow> distinct_edges rg \<and> (\<forall>k \<in> fst ` set g. map_of rg k \<noteq> None)
   \<and> (\<forall>n. edges_of rg n = {p \<in> fst ` set g. n \<in> edges_of g p})"

lemma topo_pop:
  assumes "topo_inv g key od heap xs" and "heap_pop heap = Some (item, heap')"
    and "reverse_of g rg"
  obtains n ps where "item = tie key n" "n \<in> ready g (set xs)" "greedy g key (xs @ [n])"
    "distinct heap'" "set heap' = tie key ` (ready g (set xs) - {n})"
    "map_of rg n = Some ps" "distinct ps" "set ps = {p \<in> fst ` set g. n \<in> edges_of g p}"
proof -
  have inv: "distinct heap" "set heap = tie key ` ready g (set xs)" "greedy g key xs"
    using assms(1) by (simp_all add: topo_inv_def)
  note pop = heap_pop_Some [OF assms(2)]
  from pop(1) inv(2) obtain n where n: "item = tie key n" "n \<in> ready g (set xs)" by auto
  have "greedy g key (xs @ [n])"
    using inv n pop(2) by (auto intro!: greedy.step)
  moreover have "set heap' = tie key ` (ready g (set xs) - {n})"
    using inv n inj_on_image_set_diff [OF inj_tie [of key UNIV] subset_UNIV subset_UNIV]
    by (simp add: pop(3))
  moreover have "distinct heap'" using inv by (simp add: pop(3))
  moreover obtain ps where ps: "map_of rg n = Some ps"
    using assms(3) n(2) unfolding reverse_of_def ready_def by blast
  moreover have "distinct ps"
    using assms(3) ps unfolding reverse_of_def distinct_edges_def by blast
  moreover have "set ps = edges_of rg n" by (simp add: edges_of_def ps)
  then have "set ps = {p \<in> fst ` set g. n \<in> edges_of g p}"
    using assms(3) unfolding reverse_of_def by blast
  ultimately show thesis using that n by blast
qed

text \<open>The visited parents are exactly the nodes that become available.\<close>

lemma newly_ready:
  assumes "\<And>m. map_of od m = map_option (filter (\<lambda>e. e \<notin> set xs)) (map_of g m)"
    and "p \<in> fst ` set g"
  shows "removeAll n (the (map_of od p)) = [] \<longleftrightarrow> edges_of g p \<subseteq> insert n (set xs)"
proof -
  from assms(2) obtain es where "map_of g p = Some es"
    by (metis map_of_eq_None_iff not_None_eq)
  then show ?thesis
    using assms(1) [of p]
    by (auto simp: edges_of_def removeAll_filter_not_eq filter_empty_conv)
qed

lemma removed_edges:
  assumes "\<And>m. map_of od m = map_option (filter (\<lambda>e. e \<notin> set xs)) (map_of g m)"
    and "set ps = {p \<in> fst ` set g. n \<in> edges_of g p}"
    and "\<And>p. map_of od' p = (if p \<in> set ps then map_option (removeAll n) (map_of od p)
          else map_of od p)"
  shows "map_of od' m = map_option (filter (\<lambda>e. e \<notin> set (xs @ [n]))) (map_of g m)"
proof (cases "map_of g m")
  case None
  then show ?thesis by (simp add: assms(1,3))
next
  case (Some es)
  then have "m \<in> set ps \<longleftrightarrow> n \<in> set es"
    using map_of_SomeD [OF Some] by (force simp: assms(2) edges_of_def)
  moreover have "removeAll n (filter (\<lambda>e. e \<notin> set xs) es) = filter (\<lambda>e. e \<notin> set (xs @ [n])) es"
    by (auto simp: removeAll_filter_not_eq intro: filter_cong)
  moreover have "filter (\<lambda>e. e \<notin> set xs) es = filter (\<lambda>e. e \<notin> set (xs @ [n])) es"
    if "n \<notin> set es"
    using that by (intro filter_cong) auto
  ultimately show ?thesis by (simp add: assms(1,3) Some)
qed

lemma topo_visit:
  assumes inv: "topo_inv g key od heap xs" and n: "n \<in> ready g (set xs)"
    and greedy: "greedy g key (xs @ [n])"
    and heap': "distinct heap'" "set heap' = tie key ` (ready g (set xs) - {n})"
    and ps: "distinct ps" "set ps = {p \<in> fst ` set g. n \<in> edges_of g p}"
  shows "(\<exists>p \<in> fst ` set g. \<exists>e. key p = Err e \<and> visit_parents key n ps od heap' = Err e)
    \<or> (\<exists>od'' heap''. visit_parents key n ps od heap' = Ok (od'', heap'')
        \<and> topo_inv g key od'' heap'' (xs @ [n]))"
proof -
  have od: "map_of od m = map_option (filter (\<lambda>e. e \<notin> set xs)) (map_of g m)" for m
    using inv by (simp add: topo_inv_def)
  have keys: "\<forall>p \<in> set ps. map_of od p \<noteq> None"
    using ps(2) by (auto simp: od map_of_eq_None_iff)
  let ?new = "filter (\<lambda>p. removeAll n (the (map_of od p)) = []) ps"
  let ?heap = "rev (map (tie key) ?new) @ heap'"
  have new: "set ?new = {p \<in> fst ` set g. n \<in> edges_of g p \<and> edges_of g p \<subseteq> insert n (set xs)}"
    using ps(2) newly_ready [OF od] by auto
  note rdy = ready_insert [OF greedy_closed(3) n]
  have grd: "greedy g key xs" using inv by (simp add: topo_inv_def)
  have set_heap: "set ?heap = tie key ` ready g (set (xs @ [n]))"
    using rdy(1) [OF grd] heap'(2) new by (simp add: image_Un Un_commute)
  have "tie key ` set ?new \<inter> set heap' = {}"
    unfolding heap'(2) new image_Int [OF inj_tie [of key UNIV], symmetric]
    using rdy(2) [OF grd] by (simp add: Int_commute)
  then have dist: "distinct ?heap"
    using ps(1) heap'(1) by (simp add: distinct_map inj_tie)
  show ?thesis
    using visit_parents_result [OF ps(1) keys, of key n heap']
  proof (elim disjE exE conjE bexE)
    fix p e
    assume "p \<in> set ps" "key p = Err e" "visit_parents key n ps od heap' = Err e"
    then show ?thesis using ps(2) by blast
  next
    fix od''
    assume eq: "visit_parents key n ps od heap' = Ok (od'', ?heap)"
      and od'': "\<forall>p. map_of od'' p = (if p \<in> set ps then map_option (removeAll n) (map_of od p)
          else map_of od p)"
    have "map_of od'' m = map_option (filter (\<lambda>e. e \<notin> set (xs @ [n]))) (map_of g m)" for m
      using removed_edges [OF od ps(2)] od'' by blast
    then have "topo_inv g key od'' ?heap (xs @ [n])"
      using set_heap dist greedy by (simp add: topo_inv_def)
    then show ?thesis using eq by blast
  qed
qed

lemma topo_loop_result:
  assumes "reverse_of g rg" and "topo_inv g key od heap xs"
    and "length g < length xs + fuel"
  shows "(\<exists>p \<in> fst ` set g. \<exists>e. key p = Err e \<and> topo_loop fuel key rg od heap xs = Err e)
    \<or> (\<exists>ys. topo_loop fuel key rg od heap xs = Ok ys \<and> greedy g key ys \<and> ready g (set ys) = {})"
  using assms(2,3)
proof (induction fuel arbitrary: od heap xs)
  case 0
  have "greedy g key xs" using 0(1) by (simp add: topo_inv_def)
  from greedy_closed [OF this] have "length xs \<le> card (fst ` set g)"
    by (metis card_mono distinct_card finite_imageI finite_set)
  also have "\<dots> \<le> length g" by (metis card_length length_map set_map)
  finally show ?case using 0(2) by simp
next
  case (Suc fuel)
  show ?case
  proof (cases "heap_pop heap")
    case None
    then show ?thesis using Suc.prems(1) by (simp add: topo_inv_def)
  next
    case (Some pr)
    then obtain item heap' where pop: "heap_pop heap = Some (item, heap')" by (cases pr) auto
    obtain n ps where n: "item = tie key n" "n \<in> ready g (set xs)" "greedy g key (xs @ [n])"
      "distinct heap'" "set heap' = tie key ` (ready g (set xs) - {n})"
      and ps: "map_of rg n = Some ps" "distinct ps" "set ps = {p \<in> fst ` set g. n \<in> edges_of g p}"
      using topo_pop [OF Suc.prems(1) pop assms(1)] .
    have eq: "topo_loop (Suc fuel) key rg od heap xs
        = try_bind (visit_parents key n ps od heap')
            (\<lambda>(od, heap). topo_loop fuel key rg od heap (xs @ [n]))"
      by (simp add: pop n(1) ps(1))
    show ?thesis
      using topo_visit [OF Suc.prems(1) n(2-5) ps(2,3)]
    proof (elim disjE exE conjE)
      assume "\<exists>p \<in> fst ` set g. \<exists>e. key p = Err e \<and> visit_parents key n ps od heap' = Err e"
      then show ?thesis unfolding eq by fastforce
    next
      fix od'' heap''
      assume v: "visit_parents key n ps od heap' = Ok (od'', heap'')"
        and inv: "topo_inv g key od'' heap'' (xs @ [n])"
      show ?thesis
        using Suc.IH [OF inv] Suc.prems(2) unfolding eq v by simp
    qed
  qed
qed

lemma mem_graph: "wf_graph g \<Longrightarrow> (p, es) \<in> set g \<longleftrightarrow> map_of g p = Some es"
  unfolding wf_graph_def by (metis map_of_iff_mem)

lemma mem_edges_of: "e \<in> edges_of g p \<longleftrightarrow> (\<exists>es. map_of g p = Some es \<and> e \<in> set es)"
  by (simp add: edges_of_def split: option.split)

lemma reverse_of_build:
  assumes "wf_graph g"
  shows "reverse_of g (build_reverse g [])"
proof -
  have "{p. \<exists>es. (p, es) \<in> set g \<and> n \<in> set es} = {p \<in> fst ` set g. n \<in> edges_of g p}" for n
    unfolding mem_edges_of mem_graph [OF assms] by (force dest: map_of_SomeD)
  moreover have "distinct_edges ([] :: 'a graph)" by (simp add: distinct_edges_def)
  ultimately show ?thesis
    using build_reverse(1) [of g "[]"] build_reverse(2) [of "[]" g] build_reverse(3) [of "[]" _ g]
    unfolding reverse_of_def by (simp add: edges_of_def [of "[]"])
qed

lemma topo_inv_init:
  assumes "wf_graph g"
  shows "topo_inv g key g (map (tie key \<circ> fst) (filter (\<lambda>(n, es). es = []) g)) []"
proof -
  let ?zeros = "map fst (filter (\<lambda>(n, es). es = []) g)"
  have heap: "map (tie key \<circ> fst) (filter (\<lambda>(n, es). es = []) g) = map (tie key) ?zeros"
    by simp
  have "n \<in> set ?zeros \<longleftrightarrow> (n, []) \<in> set g" for n by force
  then have "n \<in> set ?zeros \<longleftrightarrow> map_of g n = Some []" for n
    unfolding mem_graph [OF assms] .
  moreover have "n \<in> ready g {} \<longleftrightarrow> map_of g n = Some []" for n
  proof (cases "map_of g n")
    case None
    then have "n \<notin> fst ` set g" by (simp add: map_of_eq_None_iff)
    then show ?thesis by (simp add: ready_def None)
  next
    case (Some es)
    then have "n \<in> fst ` set g" by (metis map_of_eq_None_iff option.distinct(1))
    then show ?thesis by (simp add: ready_def edges_of_def Some)
  qed
  ultimately have zeros: "set ?zeros = ready g {}" by blast
  have "distinct ?zeros"
    using assms by (simp add: wf_graph_def distinct_map_filter)
  then have "distinct (map (tie key) ?zeros)" by (simp only: distinct_map inj_tie simp_thms)
  moreover have "set (map (tie key) ?zeros) = tie key ` ready g (set [])"
    unfolding set_map [of "tie key"] zeros by simp
  moreover have "map_of g n = map_option (filter (\<lambda>e. e \<notin> set [])) (map_of g n)" for n
    by (cases "map_of g n") simp_all
  ultimately show ?thesis
    unfolding topo_inv_def heap using greedy.start by blast
qed

text \<open>The sort returns a complete run, or the error of the key of some node.\<close>

lemma topo_sort_result:
  assumes "wf_graph g"
  shows "(\<exists>p \<in> fst ` set g. \<exists>e. key p = Err e \<and> lexicographical_topological_sort g key = Err e)
    \<or> (\<exists>ys. lexicographical_topological_sort g key = Ok ys \<and> greedy g key ys
        \<and> ready g (set ys) = {})"
proof (cases "topo_init key g [] []")
  case (Inl e)
  then show ?thesis
    using topo_init_result [of g key "[]" "[]"]
    by (fastforce simp: lexicographical_topological_sort_def)
next
  case (Inr r)
  then have "lexicographical_topological_sort g key
      = topo_loop (Suc (length g)) key (build_reverse g []) g
          (map (tie key \<circ> fst) (filter (\<lambda>(n, es). es = []) g)) []"
    using topo_init_result [of g key "[]" "[]"]
    by (auto simp: lexicographical_topological_sort_def)
  then show ?thesis
    using topo_loop_result [OF reverse_of_build [OF assms] topo_inv_init [OF assms],
        of "Suc (length g)" key] by simp
qed

lemma greedy_take: "greedy g key xs \<Longrightarrow> greedy g key (take i xs)"
proof (induction rule: greedy.induct)
  case (step xs n)
  then show ?case by (cases "i \<le> length xs") (auto intro: greedy.step)
qed (simp add: greedy.start)

text \<open>There is one complete run.\<close>

lemma greedy_unique:
  assumes "greedy g key xs" and "greedy g key ys"
    and "ready g (set xs) = {}" and "ready g (set ys) = {}"
  shows "xs = ys"
proof -
  have pre: "take i xs = take i ys" for i
  proof (induction i)
    case (Suc i)
    have step: "xs ! i = ys ! i \<and> i < length ys"
      if "greedy g key xs" "greedy g key ys" "take i xs = take i ys" "i < length xs"
        "ready g (set ys) = {}" for xs ys
    proof -
      have "greedy g key (take i xs @ [xs ! i])"
        using greedy_take [OF that(1), of "Suc i"] that(4) by (simp add: take_Suc_conv_app_nth)
      then have x: "xs ! i \<in> ready g (set (take i xs))"
        "\<And>m. m \<in> ready g (set (take i xs)) \<Longrightarrow> tie key (xs ! i) \<le> tie key m"
        by (auto elim: greedy_snocE)
      have len: "i < length ys"
      proof (rule ccontr)
        assume "\<not> i < length ys"
        then show False using x(1) that(3,5) by simp
      qed
      have "greedy g key (take i ys @ [ys ! i])"
        using greedy_take [OF that(2), of "Suc i"] len by (simp add: take_Suc_conv_app_nth)
      then have "ys ! i \<in> ready g (set (take i ys))"
        "\<And>m. m \<in> ready g (set (take i ys)) \<Longrightarrow> tie key (ys ! i) \<le> tie key m"
        by (auto elim: greedy_snocE)
      with x that(3) have "tie key (xs ! i) = tie key (ys ! i)" by (simp add: antisym)
      then show ?thesis using len by (metis tb_event_id_tie)
    qed
    show ?case
    proof (cases "i < length xs")
      case True
      then show ?thesis using step [OF assms(1,2) Suc True assms(4)] Suc
        by (simp add: take_Suc_conv_app_nth)
    next
      case False
      then have "\<not> i < length ys"
        using step [OF assms(2,1) Suc [symmetric] _ assms(3)] by blast
      then show ?thesis using False Suc by simp
    qed
  qed simp
  from pre [of "max (length xs) (length ys)"] show ?thesis by simp
qed

text \<open>The edges of a run point backwards, and a complete run has all grounded nodes.\<close>

lemma greedy_edges:
  "greedy g key xs \<Longrightarrow> i < length xs \<Longrightarrow> edges_of g (xs ! i) \<subseteq> set (take i xs)"
proof (induction arbitrary: i rule: greedy.induct)
  case (step xs n)
  then show ?case by (cases "i < length xs") (auto simp: nth_append ready_def less_Suc_eq)
qed simp

lemma greedy_grounded: "greedy g key xs \<Longrightarrow> n \<in> set xs \<Longrightarrow> grounded g n"
proof (induction arbitrary: n rule: greedy.induct)
  case (step xs m)
  have m: "m \<in> fst ` set g" "edges_of g m \<subseteq> set xs"
    using step.hyps(2) unfolding ready_def by blast+
  have "grounded g m"
    by (rule grounded.intros [OF m(1)]) (use m(2) step.IH in blast)
  then show ?case using step.IH step.prems by auto
qed simp

lemma grounded_in_run:
  assumes "ready g (set xs) = {}"
  shows "grounded g n \<Longrightarrow> n \<in> set xs"
proof (induction rule: grounded.induct)
  case (1 n)
  then have "edges_of g n \<subseteq> set xs" by blast
  then show ?case using assms 1(1) by (auto simp: ready_def)
qed

text \<open>In a closed graph without cycles every node is grounded.\<close>

lemma grounded_acyclic:
  assumes "\<And>n. edges_of g n \<subseteq> fst ` set g" and "wf {(e, n). e \<in> edges_of g n}"
    and "n \<in> fst ` set g"
  shows "grounded g n"
  using assms(2,3)
proof (induction n rule: wf_induct_rule)
  case (less n)
  show ?case
  proof (rule grounded.intros [OF less.prems])
    fix e
    assume e: "e \<in> edges_of g n"
    then show "grounded g e" using assms(1) [of n] less.IH [of e] by blast
  qed
qed

lemma ready_cong:
  assumes "fst ` set g = fst ` set h" and "\<And>n. edges_of g n = edges_of h n"
  shows "ready g S = ready h S"
  by (simp add: ready_def assms)

lemma greedy_cong:
  assumes "\<And>S. ready g S = ready h S"
  shows "greedy g key xs \<Longrightarrow> greedy h key xs"
proof (induction rule: greedy.induct)
  case (step xs n)
  then show ?case using assms by (auto intro: greedy.step)
qed (rule greedy.start)

section \<open>Properties\<close>

text \<open>
  C3: the sort is correct and total. For a graph whose nodes all have keys it returns, without
  panic, a list without duplicates of exactly the nodes from which no cycle and no missing node
  is reachable. Every event comes after the events it refers to, and each one is the smallest,
  by power level, time and identifier, of the events available at that point.
\<close>

theorem topological_sort_correct:
  assumes "wf_graph g" and "\<And>n. n \<in> fst ` set g \<Longrightarrow> \<exists>k. key n = Ok k"
  shows "\<exists>xs. lexicographical_topological_sort g key = Ok xs \<and> distinct xs
    \<and> set xs = {n. grounded g n}
    \<and> (\<forall>i < length xs. edges_of g (xs ! i) \<subseteq> set (take i xs))
    \<and> greedy g key xs"
proof -
  have "\<not> (\<exists>p \<in> fst ` set g. \<exists>e. key p = Err e \<and> lexicographical_topological_sort g key = Err e)"
    using assms(2) by fastforce
  then obtain xs where xs: "lexicographical_topological_sort g key = Ok xs" "greedy g key xs"
    "ready g (set xs) = {}"
    using topo_sort_result [OF assms(1), of key] by blast
  moreover have "set xs = {n. grounded g n}"
    using greedy_grounded [OF xs(2)] grounded_in_run [OF xs(3)] by blast
  ultimately show ?thesis
    using greedy_closed(1) [OF xs(2)] greedy_edges [OF xs(2)] by blast
qed

theorem topological_sort_correct_witness:
  "let g = [(''$b'', [''$a'']), (''$a'', []), (''$c'', [''$a'', ''$b''])];
       key = (\<lambda>_. Ok (50, 1)) :: string key_fn in
   wf_graph g \<and> lexicographical_topological_sort g key = Ok [''$a'', ''$b'', ''$c'']
   \<and> {n. grounded g n} = {''$a'', ''$b'', ''$c''}"
proof -
  let ?g = "[(''$b'', [''$a'']), (''$a'', []), (''$c'', [''$a'', ''$b''])]"
  let ?key = "(\<lambda>_. Ok (50, 1)) :: string key_fn"
  have g: "wf_graph ?g" by code_simp
  have r: "lexicographical_topological_sort ?g ?key = Ok [''$a'', ''$b'', ''$c'']" by code_simp
  show ?thesis
    using topological_sort_correct [OF g, of ?key] g r by simp
qed

text \<open>
  C11: the result does not depend on the iteration order of the hash maps: two representations of
  the same graph are sorted to the same list, so two servers that hold the same events agree.
\<close>

theorem topological_sort_order_independent:
  assumes "wf_graph g" and "wf_graph h"
    and "fst ` set g = fst ` set h" and "\<And>n. edges_of g n = edges_of h n"
    and "\<And>n. n \<in> fst ` set g \<Longrightarrow> \<exists>k. key n = Ok k"
  shows "lexicographical_topological_sort g key = lexicographical_topological_sort h key"
proof -
  have "\<not> (\<exists>p \<in> fst ` set g. \<exists>e. key p = Err e)" using assms(5) by fastforce
  then obtain xs ys
    where xs: "lexicographical_topological_sort g key = Ok xs" "greedy g key xs"
        "ready g (set xs) = {}"
      and ys: "lexicographical_topological_sort h key = Ok ys" "greedy h key ys"
        "ready h (set ys) = {}"
    using topo_sort_result [OF assms(1), of key] topo_sort_result [OF assms(2), of key] assms(3)
    by blast
  note same = ready_cong [OF assms(3,4)]
  have "xs = ys"
    using greedy_unique [OF greedy_cong [OF same xs(2)] ys(2)] xs(3) ys(3) by (simp add: same)
  then show ?thesis using xs(1) ys(1) by simp
qed

theorem topological_sort_order_independent_witness:
  "let g = [(''$b'', [''$a'']), (''$a'', []), (''$c'', [''$a'', ''$b''])];
       h = [(''$a'', []), (''$c'', [''$b'', ''$a'']), (''$b'', [''$a''])];
       key = (\<lambda>_. Ok (50, 1)) :: string key_fn in
   lexicographical_topological_sort g key = lexicographical_topological_sort h key"
proof -
  let ?g = "[(''$b'', [''$a'']), (''$a'', []), (''$c'', [''$a'', ''$b''])]"
  let ?h = "[(''$a'', []), (''$c'', [''$b'', ''$a'']), (''$b'', [''$a''])]"
  have "wf_graph ?g" "wf_graph ?h" by code_simp+
  moreover have "fst ` set ?g = fst ` set ?h" by auto
  moreover have "edges_of ?g n = edges_of ?h n" for n
    by (auto simp: edges_of_def)
  ultimately show ?thesis
    using topological_sort_order_independent [of ?g ?h "(\<lambda>_. Ok (50, 1)) :: string key_fn"]
    by simp
qed

text \<open>
  C12: the only failure of the sort is an error of the key function on a node; the two
  \<open>expect\<close> calls of the code never panic, and the loop ends.
\<close>

theorem topological_sort_error:
  assumes "wf_graph g" and "lexicographical_topological_sort g key = Err e"
  shows "\<exists>n \<in> fst ` set g. key n = Err e"
  using topo_sort_result [OF assms(1), of key] assms(2) by auto

theorem topological_sort_error_witness:
  "\<exists>n \<in> {''$a'', ''$b''}. (if n = ''$b'' then Err (NotFound []) else Ok (0 :: int, 1 :: nat))
     = Err (NotFound [])"
proof -
  let ?g = "[(''$b'', [''$a'']), (''$a'', [])]"
  let ?key = "\<lambda>n. if n = ''$b'' then Err (NotFound []) else Ok (0 :: int, 1 :: nat)"
  have g: "wf_graph ?g" by code_simp
  have r: "lexicographical_topological_sort ?g ?key = Err (NotFound [])" by code_simp
  show ?thesis using topological_sort_error [OF g r] by auto
qed

end
