(* ===== verification/State_Res.thy ===== *)
theory State_Res
  imports Topo_Sort Event_Auth
begin

text \<open>
  \<open>core/matrix/state_res/mod.rs\<close>: \<open>resolve\<close>, the state resolution algorithm, and its parts.
  State maps are association lists, hash sets distinct lists. Two choices of the runtime are
  parameters: the order in which requests of a \<open>buffer_unordered\<close> stream complete, and the
  iteration order of a hash map whose entries are searched. Fetching an event is a function from
  identifiers to events. The loops that follow auth events have fuel, and running out of it is the
  error \<open>OutOfFuel\<close>.
\<close>

record sched =
  id_order :: "event_id list \<Rightarrow> event_id list"
  hash_order :: "event state_map \<Rightarrow> event state_map"

text \<open>Requests complete in some order, and a hash map is iterated in some order.\<close>

definition sched_ok :: "sched \<Rightarrow> bool" where
  "sched_ok S \<longleftrightarrow> (\<forall>xs. mset (id_order S xs) = mset xs) \<and> (\<forall>m. mset (hash_order S m) = mset m)"

section \<open>Splitting the state sets\<close>

definition usize_max :: nat where
  "usize_max = 2 ^ 64 - 1"

definition saturating_inc :: "nat \<Rightarrow> nat" where
  "saturating_inc x = (if x < usize_max then x + 1 else usize_max)"

type_synonym occurrences = "(type_state_key \<times> (event_id \<times> nat) list) list"

definition count_occurrence :: "type_state_key \<times> event_id \<Rightarrow> occurrences \<Rightarrow> occurrences" where
  "count_occurrence kv occ =
     (case kv of (k, v) \<Rightarrow>
        let ids = (case map_of occ k of Some ids \<Rightarrow> ids | None \<Rightarrow> []);
            n = (case map_of ids v of Some x \<Rightarrow> saturating_inc x | None \<Rightarrow> 1)
        in AList.update k (AList.update v n ids) occ)"

definition push_entry :: "'k \<Rightarrow> 'v \<Rightarrow> ('k \<times> 'v list) list \<Rightarrow> ('k \<times> 'v list) list" where
  "push_entry k v m = AList.update k (case map_of m k of Some vs \<Rightarrow> vs @ [v] | None \<Rightarrow> [v]) m"

definition separate_entry ::
    "nat \<Rightarrow> type_state_key \<Rightarrow> event_id \<times> nat \<Rightarrow> event_id state_map \<times> event_id list state_map
     \<Rightarrow> event_id state_map \<times> event_id list state_map" where
  "separate_entry state_set_count k idc st =
     (case (idc, st) of ((i, occurrence_count), (unconflicted_state, conflicted_state)) \<Rightarrow>
        if occurrence_count = state_set_count
        then (AList.update k i unconflicted_state, conflicted_state)
        else (unconflicted_state, push_entry k i conflicted_state))"

definition separate ::
    "event_id state_map list \<Rightarrow> event_id state_map \<times> event_id list state_map" where
  "separate state_sets =
     (let state_set_count = fold (\<lambda>_. saturating_inc) state_sets 0;
          occurrences = fold count_occurrence (concat state_sets) []
      in fold (\<lambda>(k, v). fold (separate_entry state_set_count k) v) occurrences ([], []))"

definition get_auth_chain_diff :: "event_id list list \<Rightarrow> event_id list" where
  "get_auth_chain_diff auth_chain_sets =
     (let num_sets = length auth_chain_sets;
          id_counts = fold (\<lambda>i m. AList.update i (case map_of m i of Some c \<Rightarrow> c + 1 | None \<Rightarrow> 1) m)
                        (concat auth_chain_sets) []
      in map fst (filter (\<lambda>(i, count). count < num_sets) id_counts))"

section \<open>Sorting the control events\<close>

text \<open>
  \<open>add_event_and_auth_chain_to_graph\<close>: the inner loop over the auth events of \<open>eid\<close>, then the
  loop over the stack (its top first).
\<close>

definition auth_events_of :: "fetch \<Rightarrow> event_id \<Rightarrow> event_id list" where
  "auth_events_of fetch_event i =
     (case fetch_event i of Some ev \<Rightarrow> ev_auth_events ev | None \<Rightarrow> [])"

fun add_auth_events :: "event_id \<Rightarrow> event_id list \<Rightarrow> event_id list \<Rightarrow> event_id graph \<Rightarrow> event_id list
    \<Rightarrow> event_id graph \<times> event_id list" where
  "add_auth_events eid [] auth_diff graph state = (graph, state)"
| "add_auth_events eid (aid # aids) auth_diff graph state =
     (if aid \<in> set auth_diff then
        add_auth_events eid aids auth_diff (entry_insert eid aid graph)
          (if map_of graph aid = None then aid # state else state)
      else add_auth_events eid aids auth_diff graph state)"

text \<open>The keys of the graph do not change in the inner loop, and it pushes only new auth events.\<close>

lemma keys_entry_insert:
  "map_of m k \<noteq> None \<Longrightarrow> fst ` set (entry_insert k v m) = fst ` set m"
  by (auto simp: entry_insert_def AList.dom_update map_of_eq_None_iff)

lemma map_of_entry_insert_same: "map_of (entry_insert k v m) k \<noteq> None"
  by (simp add: entry_insert_def AList.update_conv')

lemma add_auth_events_keys:
  "map_of graph eid \<noteq> None \<Longrightarrow> add_auth_events eid aids diff graph state = (graph', state') \<Longrightarrow>
   fst ` set graph' = fst ` set graph"
proof (induction eid aids diff graph state rule: add_auth_events.induct)
  case (2 eid aid aids diff graph state)
  then show ?case
    using keys_entry_insert [OF 2(3), of aid] map_of_entry_insert_same [of eid aid graph]
    by (auto split: if_splits)
qed simp

lemma add_auth_events_state:
  "map_of graph eid \<noteq> None \<Longrightarrow> add_auth_events eid aids diff graph state = (graph', state') \<Longrightarrow>
   \<exists>new. state' = new @ state \<and> set new = {a \<in> set aids. a \<in> set diff \<and> a \<notin> fst ` set graph}"
proof (induction eid aids diff graph state rule: add_auth_events.induct)
  case (2 eid aid aids diff graph state)
  note keys = keys_entry_insert [OF 2(3), of aid]
  note eid = map_of_entry_insert_same [of eid aid graph]
  show ?case
  proof (cases "aid \<in> set diff")
    case False
    then show ?thesis using 2(2) [OF False 2(3)] 2(4) by auto
  next
    case True
    from 2(4) True have "add_auth_events eid aids diff (entry_insert eid aid graph)
        (if map_of graph aid = None then aid # state else state) = (graph', state')" by simp
    from 2(1) [OF True eid this, unfolded keys] obtain new
      where "state' = new @ (if map_of graph aid = None then aid # state else state)"
        "set new = {a \<in> set aids. a \<in> set diff \<and> a \<notin> fst ` set graph}" by blast
    then show ?thesis using True
      by (intro exI [of _ "if map_of graph aid = None then new @ [aid] else new"])
         (auto simp: map_of_eq_None_iff)
  qed
qed simp

function add_event_and_auth_chain_to_graph ::
    "fetch \<Rightarrow> event_id list \<Rightarrow> event_id graph \<Rightarrow> event_id list \<Rightarrow> event_id graph" where
  "add_event_and_auth_chain_to_graph fetch_event auth_diff graph [] = graph"
| "add_event_and_auth_chain_to_graph fetch_event auth_diff graph (eid # state) =
     (let (graph, state) =
        add_auth_events eid (auth_events_of fetch_event eid) auth_diff (or_default eid graph) state
      in add_event_and_auth_chain_to_graph fetch_event auth_diff graph state)"
  by pat_completeness auto

text \<open>
  Every round either adds a node, of which there are finitely many, or takes an old node off the
  stack and pushes only new ones.
\<close>

definition unseen :: "event_id list \<Rightarrow> event_id graph \<Rightarrow> event_id list \<Rightarrow> nat" where
  "unseen diff graph state = card ((set diff \<union> set state) - fst ` set graph)"

definition seen_on_stack :: "event_id graph \<Rightarrow> event_id list \<Rightarrow> nat" where
  "seen_on_stack graph state = length (filter (\<lambda>i. i \<in> fst ` set graph) state)"

lemma keys_or_default: "fst ` set (or_default k m) = insert k (fst ` set m)"
  by (auto simp: or_default_def map_of_eq_None_iff)

lemma graph_round_decreases:
  assumes "add_auth_events eid aids diff (or_default eid graph) state = (graph', state')"
  shows "unseen diff graph' state' < unseen diff graph (eid # state)
    \<or> unseen diff graph' state' = unseen diff graph (eid # state)
      \<and> seen_on_stack graph' state' < seen_on_stack graph (eid # state)"
proof -
  have eid: "map_of (or_default eid graph) eid \<noteq> None" by (simp add: map_of_or_default)
  have keys: "fst ` set graph' = insert eid (fst ` set graph)"
    using add_auth_events_keys [OF eid assms] by (simp add: keys_or_default)
  obtain new where state': "state' = new @ state" and new: "set new \<subseteq> set diff"
      "\<And>i. i \<in> set new \<Longrightarrow> i \<notin> insert eid (fst ` set graph)"
    using add_auth_events_state [OF eid assms] by (auto simp: keys_or_default)
  have rest: "(set diff \<union> set state') - fst ` set graph'
      = ((set diff \<union> set (eid # state)) - fst ` set graph) - {eid}"
    using new(1) by (auto simp: keys state')
  show ?thesis
  proof (cases "eid \<in> fst ` set graph")
    case False
    then show ?thesis
      unfolding unseen_def rest by (intro disjI1 card_Diff1_less) auto
  next
    case True
    then have "unseen diff graph' state' = unseen diff graph (eid # state)"
      unfolding unseen_def rest by (intro arg_cong [of _ _ card]) auto
    moreover have "filter (\<lambda>i. i \<in> fst ` set graph') new = []"
      using new(2) by (simp add: filter_empty_conv keys)
    then have "seen_on_stack graph' state' = seen_on_stack graph state"
      using True by (simp add: seen_on_stack_def state' keys insert_absorb)
    ultimately show ?thesis using True by (simp add: seen_on_stack_def)
  qed
qed

termination add_event_and_auth_chain_to_graph
proof (relation "measures [\<lambda>(f, diff, g, st). unseen diff g st, \<lambda>(f, diff, g, st). seen_on_stack g st]")
  fix fetch_event :: fetch and diff graph eid state x graph' state'
  assume "x = add_auth_events eid (auth_events_of fetch_event eid) diff (or_default eid graph) state"
    and "(graph', state') = x"
  then have "add_auth_events eid (auth_events_of fetch_event eid) diff (or_default eid graph) state
      = (graph', state')" by simp
  from graph_round_decreases [OF this]
  show "((fetch_event, diff, graph', state'), fetch_event, diff, graph, eid # state)
      \<in> measures [\<lambda>(f, diff, g, st). unseen diff g st, \<lambda>(f, diff, g, st). seen_on_stack g st]"
    by auto
qed simp

text \<open>
  \<open>get_power_level_for_sender\<close>: the power level of an event's sender by the power level event
  among its auth events, of which the first to arrive is used.
\<close>

definition get_power_level_for_sender :: "ruma \<Rightarrow> sched \<Rightarrow> fetch \<Rightarrow> event_id \<Rightarrow> error + int" where
  "get_power_level_for_sender R S fetch_event i =
     (let event = fetch_event i;
          arrived = List.map_filter fetch_event (id_order S (auth_events_of fetch_event i));
          pl = find (\<lambda>aev. is_type_and_key aev RoomPowerLevels []) arrived in
      (case pl of
         None \<Rightarrow> Ok 0
       | Some pl_ev \<Rightarrow>
           try_bind (ok_or (de_v1_content_fields R (ev_content pl_ev)) SerdeJson) (\<lambda>content.
             (case Option.bind event (\<lambda>ev. get_user_power content (ev_sender ev)) of
                Some user_level \<Rightarrow> Ok user_level
              | None \<Rightarrow> Ok (pcf_users_default content)))))"

text \<open>The stream over the nodes of the graph, folded into a map; the first error ends it.\<close>

fun collect_power_levels :: "ruma \<Rightarrow> sched \<Rightarrow> fetch \<Rightarrow> event_id list \<Rightarrow> (event_id \<times> int) list
    \<Rightarrow> error + (event_id \<times> int) list" where
  "collect_power_levels R S fetch_event [] event_to_pl = Ok event_to_pl"
| "collect_power_levels R S fetch_event (i # ids) event_to_pl =
     try_bind (get_power_level_for_sender R S fetch_event i) (\<lambda>pl.
       collect_power_levels R S fetch_event ids (AList.update i pl event_to_pl))"

definition fetcher :: "fetch \<Rightarrow> (event_id \<times> int) list \<Rightarrow> event_id key_fn" where
  "fetcher fetch_event event_to_pl i =
     try_bind (ok_or (map_of event_to_pl i) (NotFound [])) (\<lambda>pl.
     try_bind (ok_or (fetch_event i) (NotFound [])) (\<lambda>ev. Ok (pl, ev_ts ev)))"

definition power_graph :: "fetch \<Rightarrow> event_id list \<Rightarrow> event_id list \<Rightarrow> event_id graph" where
  "power_graph fetch_event auth_diff events_to_sort =
     fold (\<lambda>i graph. add_event_and_auth_chain_to_graph fetch_event auth_diff graph [i])
       events_to_sort []"

definition reverse_topological_power_sort ::
    "ruma \<Rightarrow> sched \<Rightarrow> fetch \<Rightarrow> event_id list \<Rightarrow> event_id list \<Rightarrow> error + event_id list" where
  "reverse_topological_power_sort R S fetch_event events_to_sort auth_diff =
     (let graph = power_graph fetch_event auth_diff events_to_sort in
      try_bind (collect_power_levels R S fetch_event (id_order S (map fst graph)) [])
        (\<lambda>event_to_pl.
          lexicographical_topological_sort graph (fetcher fetch_event event_to_pl)))"

section \<open>Checking events one after the other\<close>

fun fetch_all :: "fetch \<Rightarrow> event_id list \<Rightarrow> error + event list" where
  "fetch_all fetch_event [] = Ok []"
| "fetch_all fetch_event (i # ids) =
     try_bind (ok_or (fetch_event i) (NotFound (''Failed to find '' @ i))) (\<lambda>ev.
     try_bind (fetch_all fetch_event ids) (\<lambda>evs. Ok (ev # evs)))"

definition collect_auth_events :: "sched \<Rightarrow> fetch \<Rightarrow> event list \<Rightarrow> (event_id \<times> event) list" where
  "collect_auth_events S fetch_event events =
     (let auth_event_ids = remdups (concat (map ev_auth_events events)) in
      fold (\<lambda>ev. AList.update (ev_id ev) ev)
        (List.map_filter fetch_event (id_order S auth_event_ids)) [])"

text \<open>The state an event is checked against: its own auth events, then the resolved state.\<close>

fun own_auth_state :: "(event_id \<times> event) list \<Rightarrow> event_id list \<Rightarrow> event state_map
    \<Rightarrow> error + event state_map" where
  "own_auth_state auth_events [] auth_state = Ok auth_state"
| "own_auth_state auth_events (aid # aids) auth_state =
     (case map_of auth_events aid of
        Some ev \<Rightarrow>
          try_bind (ok_or (ev_state_key ev) (InvalidPdu ''State event had no state key'')) (\<lambda>key.
            own_auth_state auth_events aids (AList.update (ev_type ev, key) ev auth_state))
      | None \<Rightarrow> own_auth_state auth_events aids auth_state)"

definition resolved_event :: "fetch \<Rightarrow> (event_id \<times> event) list \<Rightarrow> event_id state_map
    \<Rightarrow> type_state_key \<Rightarrow> event option" where
  "resolved_event fetch_event auth_events resolved_state key =
     Option.bind (map_of resolved_state key) (\<lambda>i.
       (case map_of auth_events i of Some ev \<Rightarrow> Some ev | None \<Rightarrow> fetch_event i))"

definition add_resolved_state :: "fetch \<Rightarrow> (event_id \<times> event) list \<Rightarrow> event_id state_map
    \<Rightarrow> type_state_key list \<Rightarrow> event state_map \<Rightarrow> event state_map" where
  "add_resolved_state fetch_event auth_events resolved_state auth_types auth_state =
     fold (\<lambda>key st. (case resolved_event fetch_event auth_events resolved_state key of
                        Some ev \<Rightarrow> AList.update key ev st | None \<Rightarrow> st))
       auth_types auth_state"

text \<open>The third party invite of the state the event is checked against.\<close>

definition current_third_party :: "sched \<Rightarrow> event state_map \<Rightarrow> event option" where
  "current_third_party S auth_state =
     map_option snd (find (\<lambda>(_, pdu). ev_type pdu = RoomThirdPartyInvite) (hash_order S auth_state))"

definition check_one :: "ruma \<Rightarrow> sched \<Rightarrow> room_version \<Rightarrow> fetch \<Rightarrow> (event_id \<times> event) list \<Rightarrow> event
    \<Rightarrow> event_id state_map \<Rightarrow> error + event_id state_map" where
  "check_one R S room_version fetch_event auth_events event resolved_state =
     try_bind (ok_or (ev_state_key event) (InvalidPdu ''State event had no state key''))
       (\<lambda>state_key.
     try_bind (auth_types_for_event R (ev_type event) (ev_sender event) (Some state_key)
                 (ev_content event)) (\<lambda>auth_types.
     try_bind (own_auth_state auth_events (ev_auth_events event) []) (\<lambda>auth_state.
     let auth_state =
       add_resolved_state fetch_event auth_events resolved_state auth_types auth_state in
     try_bind (auth_check R room_version event (current_third_party S auth_state)
                 (\<lambda>ty key. map_of auth_state (ty, key))) (\<lambda>accepted.
       Ok (if accepted then AList.update (ev_type event, state_key) (ev_id event) resolved_state
           else resolved_state)))))"

fun check_each :: "ruma \<Rightarrow> sched \<Rightarrow> room_version \<Rightarrow> fetch \<Rightarrow> (event_id \<times> event) list \<Rightarrow> event list
    \<Rightarrow> event_id state_map \<Rightarrow> error + event_id state_map" where
  "check_each R S room_version fetch_event auth_events [] resolved_state = Ok resolved_state"
| "check_each R S room_version fetch_event auth_events (event # events) resolved_state =
     try_bind (check_one R S room_version fetch_event auth_events event resolved_state)
       (check_each R S room_version fetch_event auth_events events)"

definition iterative_auth_check :: "ruma \<Rightarrow> sched \<Rightarrow> room_version \<Rightarrow> event_id list
    \<Rightarrow> event_id state_map \<Rightarrow> fetch \<Rightarrow> error + event_id state_map" where
  "iterative_auth_check R S room_version events_to_check unconflicted_state fetch_event =
     try_bind (fetch_all fetch_event (id_order S events_to_check)) (\<lambda>events.
       check_each R S room_version fetch_event (collect_auth_events S fetch_event events) events
         unconflicted_state)"

section \<open>Mainline ordering\<close>

text \<open>The first power level event among auth events, which both mainline loops look for.\<close>

fun next_power_event :: "fetch \<Rightarrow> event_id list \<Rightarrow> error + (event_id \<times> event) option" where
  "next_power_event fetch_event [] = Ok None"
| "next_power_event fetch_event (aid # aids) =
     try_bind (ok_or (fetch_event aid) (NotFound (''Failed to find '' @ aid))) (\<lambda>ev.
       if is_type_and_key ev RoomPowerLevels [] then Ok (Some (aid, ev))
       else next_power_event fetch_event aids)"

text \<open>The chain of power level events from the resolved one back.\<close>

fun build_mainline :: "nat \<Rightarrow> fetch \<Rightarrow> event_id option \<Rightarrow> event_id list \<Rightarrow> error + event_id list" where
  "build_mainline fuel fetch_event None mainline = Ok mainline"
| "build_mainline 0 fetch_event (Some p) mainline = Err OutOfFuel"
| "build_mainline (Suc fuel) fetch_event (Some p) mainline =
     try_bind (ok_or (fetch_event p) (NotFound (''Failed to find '' @ p))) (\<lambda>event.
     try_bind (next_power_event fetch_event (ev_auth_events event)) (\<lambda>pl.
       build_mainline fuel fetch_event (map_option fst pl) (mainline @ [p])))"

fun get_mainline_depth :: "nat \<Rightarrow> fetch \<Rightarrow> (event_id \<times> nat) list \<Rightarrow> event option \<Rightarrow> error + nat" where
  "get_mainline_depth fuel fetch_event mainline_map None = Ok 0"
| "get_mainline_depth 0 fetch_event mainline_map (Some sort_ev) = Err OutOfFuel"
| "get_mainline_depth (Suc fuel) fetch_event mainline_map (Some sort_ev) =
     (case map_of mainline_map (ev_id sort_ev) of
        Some depth \<Rightarrow> Ok depth
      | None \<Rightarrow>
          try_bind (next_power_event fetch_event (ev_auth_events sort_ev)) (\<lambda>pl.
            get_mainline_depth fuel fetch_event mainline_map (map_option snd pl)))"

type_synonym order_map = "(event_id \<times> nat \<times> nat \<times> event_id) list"

text \<open>
  The sort keys. An event that cannot be fetched, or whose depth is an error, is left out; a walk
  that does not end is not an error of the code and is kept apart.
\<close>

fun collect_order_map :: "nat \<Rightarrow> fetch \<Rightarrow> (event_id \<times> nat) list \<Rightarrow> event_id list \<Rightarrow> order_map
    \<Rightarrow> error + order_map" where
  "collect_order_map fuel fetch_event mainline_map [] order_map = Ok order_map"
| "collect_order_map fuel fetch_event mainline_map (i # ids) order_map =
     (case fetch_event i of
        None \<Rightarrow> collect_order_map fuel fetch_event mainline_map ids order_map
      | Some event \<Rightarrow>
          (case get_mainline_depth fuel fetch_event mainline_map (Some event) of
             Ok depth \<Rightarrow> collect_order_map fuel fetch_event mainline_map ids
                           (AList.update i (depth, ev_ts event, i) order_map)
           | Err e \<Rightarrow> (if e = OutOfFuel then Err OutOfFuel
                       else collect_order_map fuel fetch_event mainline_map ids order_map)))"

definition mainline_positions :: "event_id list \<Rightarrow> (event_id \<times> nat) list" where
  "mainline_positions mainline = hm_extend [] (zip (rev mainline) [0..<length mainline])"

definition order_of :: "order_map \<Rightarrow> event_id \<Rightarrow> nat \<times> nat \<times> event_id" where
  "order_of order_map i = (case map_of order_map i of Some k \<Rightarrow> k | None \<Rightarrow> (0, 0, i))"

definition mainline_sort :: "nat \<Rightarrow> sched \<Rightarrow> fetch \<Rightarrow> event_id list \<Rightarrow> event_id option
    \<Rightarrow> error + event_id list" where
  "mainline_sort fuel S fetch_event to_sort resolved_power_level =
     (if to_sort = [] then Ok []
      else
        try_bind (build_mainline fuel fetch_event resolved_power_level []) (\<lambda>mainline.
        try_bind (collect_order_map fuel fetch_event (mainline_positions mainline)
                    (id_order S to_sort) []) (\<lambda>order_map.
          Ok (sort_key (order_of order_map) (map fst order_map)))))"

section \<open>Resolution\<close>

text \<open>The conflicted events and the difference of the auth chains, as far as they exist.\<close>

definition full_conflicted_set :: "(event_id \<Rightarrow> bool) \<Rightarrow> sched \<Rightarrow> event_id list list
    \<Rightarrow> event_id list state_map \<Rightarrow> event_id list" where
  "full_conflicted_set event_exists S auth_chain_sets conflicting =
     remdups (filter event_exists
       (id_order S (get_auth_chain_diff auth_chain_sets @ concat (map snd conflicting))))"

text \<open>
  \<open>resolve\<close> from the point where there are conflicts: sort and check the control events, then
  order the remaining events by the resolved power levels and check them, then put the
  unconflicted state on top.
\<close>

definition resolve_conflicts :: "nat \<Rightarrow> ruma \<Rightarrow> sched \<Rightarrow> room_version_id \<Rightarrow> event_id state_map
    \<Rightarrow> event_id list \<Rightarrow> fetch \<Rightarrow> error + event_id state_map" where
  "resolve_conflicts fuel R S room_version clean all_conflicted event_fetch =
     (let control_events =
        filter (is_power_event_id R event_fetch) (id_order S all_conflicted) in
      try_bind (reverse_topological_power_sort R S event_fetch control_events all_conflicted)
        (\<lambda>sorted_control_levels.
      try_bind (RoomVersion_new room_version) (\<lambda>room_version.
      try_bind (iterative_auth_check R S room_version sorted_control_levels clean event_fetch)
        (\<lambda>resolved_control.
      let events_to_resolve = filter (\<lambda>i. i \<notin> set sorted_control_levels) all_conflicted;
          power_event = map_of resolved_control (RoomPowerLevels, []) in
      try_bind (mainline_sort fuel S event_fetch events_to_resolve power_event)
        (\<lambda>sorted_left_events.
      try_bind (iterative_auth_check R S room_version sorted_left_events resolved_control
                  event_fetch) (\<lambda>resolved_state.
        Ok (hm_extend resolved_state clean)))))))"

definition resolve :: "nat \<Rightarrow> ruma \<Rightarrow> sched \<Rightarrow> room_version_id \<Rightarrow> event_id state_map list
    \<Rightarrow> event_id list list \<Rightarrow> fetch \<Rightarrow> (event_id \<Rightarrow> bool) \<Rightarrow> error + event_id state_map" where
  "resolve fuel R S room_version state_sets auth_chain_sets event_fetch event_exists =
     (let (clean, conflicting) = separate state_sets in
      if conflicting = [] then Ok clean
      else
        resolve_conflicts fuel R S room_version clean
          (full_conflicted_set event_exists S auth_chain_sets conflicting) event_fetch)"

end
