(* ===== verification/State_Split.thy ===== *)
theory State_Split
  imports State_Res
begin

text \<open>
  Splitting the state sets and comparing the auth chains: the counting maps of \<open>separate\<close> and
  \<open>get_auth_chain_diff\<close> hold, for each entry, the number of sets it is in.
\<close>

section \<open>Counting\<close>

lemma saturating_inc_min: "saturating_inc (min n usize_max) = min (Suc n) usize_max"
  by (auto simp: saturating_inc_def)

lemma count_sets: "fold (\<lambda>_. saturating_inc) xs (min n usize_max) = min (n + length xs) usize_max"
proof (induction xs arbitrary: n)
  case (Cons x xs)
  have "fold (\<lambda>_. saturating_inc) (x # xs) (min n usize_max)
      = fold (\<lambda>_. saturating_inc) xs (min (Suc n) usize_max)"
    by (simp add: saturating_inc_min)
  also have "\<dots> = min (Suc n + length xs) usize_max" by (rule Cons.IH)
  finally show ?case by simp
qed simp

text \<open>The count of an entry, zero where it has none.\<close>

definition occurrence_count :: "occurrences \<Rightarrow> type_state_key \<Rightarrow> event_id \<Rightarrow> nat" where
  "occurrence_count occ k i =
     (case Option.bind (map_of occ k) (\<lambda>ids. map_of ids i) of Some n \<Rightarrow> n | None \<Rightarrow> 0)"

definition wf_counts :: "(event_id \<times> nat) list \<Rightarrow> bool" where
  "wf_counts ids \<longleftrightarrow> distinct (map fst ids) \<and> (\<forall>x \<in> set ids. 0 < snd x)"

definition wf_occurrences :: "occurrences \<Rightarrow> bool" where
  "wf_occurrences occ \<longleftrightarrow> distinct (map fst occ) \<and> (\<forall>x \<in> set occ. wf_counts (snd x))"

lemma saturating_inc_pos: "0 < saturating_inc n"
  by (simp add: saturating_inc_def usize_max_def)

lemma map_of_count_occurrence:
  "map_of (count_occurrence (k, v) occ) k' =
     (if k' = k then
        Some (let ids = (case map_of occ k of Some ids \<Rightarrow> ids | None \<Rightarrow> []) in
          AList.update v (case map_of ids v of Some x \<Rightarrow> saturating_inc x | None \<Rightarrow> 1) ids)
      else map_of occ k')"
  by (simp add: count_occurrence_def Let_def AList.update_conv')

lemma wf_counts_update: "wf_counts ids \<Longrightarrow> 0 < n \<Longrightarrow> wf_counts (AList.update v n ids)"
  unfolding wf_counts_def by (auto simp: AList.distinct_update dest: set_AList_update)

lemma wf_occurrences_lookup: "wf_occurrences occ \<Longrightarrow> map_of occ k = Some ids \<Longrightarrow> wf_counts ids"
  unfolding wf_occurrences_def by (force dest: map_of_SomeD)

lemma wf_count_occurrence:
  assumes "wf_occurrences occ"
  shows "wf_occurrences (count_occurrence kv occ)"
proof -
  obtain k v where kv: "kv = (k, v)" by (cases kv)
  have "wf_counts (case map_of occ k of Some ids \<Rightarrow> ids | None \<Rightarrow> [])"
    using wf_occurrences_lookup [OF assms] by (auto simp: wf_counts_def [of "[]"] split: option.split)
  then have "wf_counts (AList.update v n (case map_of occ k of Some ids \<Rightarrow> ids | None \<Rightarrow> []))"
    if "0 < n" for n using that by (rule wf_counts_update)
  moreover have "0 < (case x of Some n \<Rightarrow> saturating_inc n | None \<Rightarrow> 1)" for x
    using saturating_inc_pos by (simp split: option.split)
  ultimately show ?thesis
    using assms unfolding wf_occurrences_def kv count_occurrence_def Let_def
    by (auto simp: AList.distinct_update dest!: set_AList_update)
qed

lemma occurrence_count_step:
  assumes "wf_occurrences occ"
  shows "occurrence_count (count_occurrence (k, v) occ) k' i
    = (if k' = k \<and> i = v then saturating_inc (occurrence_count occ k i)
       else occurrence_count occ k' i)"
proof -
  have one: "saturating_inc 0 = 1" by (simp add: saturating_inc_def usize_max_def)
  show ?thesis
    by (cases "map_of occ k")
       (auto simp: occurrence_count_def map_of_count_occurrence Let_def AList.update_conv' one
         split: option.splits)
qed

lemma fold_count_occurrence:
  "wf_occurrences occ \<Longrightarrow> occurrence_count occ k i = min n usize_max \<Longrightarrow>
   wf_occurrences (fold count_occurrence xs occ)
   \<and> occurrence_count (fold count_occurrence xs occ) k i
       = min (n + count_list xs (k, i)) usize_max"
proof (induction xs arbitrary: occ n)
  case (Cons x xs)
  let ?n = "if x = (k, i) then Suc n else n"
  have "occurrence_count (count_occurrence x occ) k i = min ?n usize_max"
    using Cons.prems(2) occurrence_count_step [OF Cons.prems(1), of "fst x" "snd x" k i]
    by (cases x) (auto simp: saturating_inc_min)
  from Cons.IH [OF wf_count_occurrence [OF Cons.prems(1)] this] show ?case by simp
qed simp

section \<open>The second loop of \<open>separate\<close>\<close>

definition entries :: "occurrences \<Rightarrow> (type_state_key \<times> event_id \<times> nat) list" where
  "entries occ = concat (map (\<lambda>(k, ids). map (\<lambda>x. (k, x)) ids) occ)"

lemma fold_entries:
  "fold (\<lambda>(k, v). fold (f k) v) occ st = fold (\<lambda>(k, x). f k x) (entries occ) st"
proof (induction occ arbitrary: st)
  case (Cons p occ)
  have "fold (\<lambda>(k, x). f k x) (map (\<lambda>x. (k, x)) v) st = fold (f k) v st" for k v st
    by (simp add: fold_map comp_def)
  then show ?case using Cons by (auto simp: entries_def split: prod.split)
qed (simp add: entries_def)

lemma wf_counts_mem:
  assumes "wf_counts ids"
  shows "(i, n) \<in> set ids \<longleftrightarrow> map_of ids i = Some n \<and> 0 < n"
proof -
  have "map_of ids i = Some n \<longleftrightarrow> (i, n) \<in> set ids"
    using assms unfolding wf_counts_def by (intro map_of_iff_mem) simp
  then show ?thesis using assms unfolding wf_counts_def by fastforce
qed

lemma mem_entries:
  assumes "wf_occurrences occ"
  shows "(k, i, n) \<in> set (entries occ) \<longleftrightarrow> 0 < n \<and> occurrence_count occ k i = n"
proof -
  have mem: "(k, ids) \<in> set occ \<longleftrightarrow> map_of occ k = Some ids" for ids
    using map_of_iff_mem [of occ k ids] assms by (simp add: wf_occurrences_def)
  have "(k, i, n) \<in> set (entries occ) \<longleftrightarrow> (\<exists>ids. (k, ids) \<in> set occ \<and> (i, n) \<in> set ids)"
    unfolding entries_def by (cases k) (auto intro!: rev_bexI)
  then have iff: "(k, i, n) \<in> set (entries occ)
      \<longleftrightarrow> (\<exists>ids. map_of occ k = Some ids \<and> (i, n) \<in> set ids)"
    unfolding mem .
  show ?thesis
  proof (cases "map_of occ k")
    case None
    then show ?thesis by (auto simp: iff occurrence_count_def)
  next
    case (Some ids)
    show ?thesis
      using wf_counts_mem [OF wf_occurrences_lookup [OF assms Some], of i n]
      by (auto simp: iff Some occurrence_count_def split: option.split)
  qed
qed

text \<open>The identifiers that a map of lists holds for a key.\<close>

definition ids_at :: "'v list state_map \<Rightarrow> type_state_key \<Rightarrow> 'v set" where
  "ids_at m k = (case map_of m k of Some vs \<Rightarrow> set vs | None \<Rightarrow> {})"

lemma ids_at_push_entry:
  "ids_at (push_entry k v m) k' = (if k' = k then insert v (ids_at m k) else ids_at m k')"
  by (auto simp: ids_at_def push_entry_def AList.update_conv' split: option.split)

lemma separate_entry_simp:
  "separate_entry N k (i, n) (u, c)
     = (if n = N then (AList.update k i u, c) else (u, push_entry k i c))"
  by (simp add: separate_entry_def)

definition unique_at :: "nat \<Rightarrow> (type_state_key \<times> event_id \<times> nat) list \<Rightarrow> bool" where
  "unique_at N L \<longleftrightarrow> (\<forall>k i j. (k, i, N) \<in> set L \<and> (k, j, N) \<in> set L \<longrightarrow> i = j)"

lemma separate_entries:
  assumes "unique_at N L"
    and "fold (\<lambda>(k, x). separate_entry N k x) L (u, c) = (u', c')"
  shows "map_of u' k = Some i \<longleftrightarrow>
      (k, i, N) \<in> set L \<or> map_of u k = Some i \<and> (\<forall>j. (k, j, N) \<notin> set L)"
    and "ids_at c' k = ids_at c k \<union> {i. \<exists>n. n \<noteq> N \<and> (k, i, n) \<in> set L}"
    and "distinct (map fst u) \<Longrightarrow> distinct (map fst u')"
    and "distinct (map fst c) \<Longrightarrow> distinct (map fst c')"
proof -
  have "(map_of u' k = Some i \<longleftrightarrow>
      (k, i, N) \<in> set L \<or> map_of u k = Some i \<and> (\<forall>j. (k, j, N) \<notin> set L))
    \<and> ids_at c' k = ids_at c k \<union> {i. \<exists>n. n \<noteq> N \<and> (k, i, n) \<in> set L}
    \<and> (distinct (map fst u) \<longrightarrow> distinct (map fst u'))
    \<and> (distinct (map fst c) \<longrightarrow> distinct (map fst c'))"
    using assms
  proof (induction L arbitrary: u c)
    case (Cons x L)
    obtain kx ix nx where x: "x = (kx, ix, nx)" by (cases x)
    have uniq: "unique_at N L"
      using Cons.prems(1) unfolding unique_at_def by (meson list.set_intros(2))
    show ?case
    proof (cases "nx = N")
      case True
      then have "fold (\<lambda>(k, x). separate_entry N k x) L (AList.update kx ix u, c) = (u', c')"
        using Cons.prems(2) by (simp add: x separate_entry_simp)
      note IH = Cons.IH [OF uniq this]
      have "(kx, j, N) \<in> set L \<Longrightarrow> j = ix" for j
        using Cons.prems(1) [unfolded unique_at_def, rule_format, of kx ix j] True by (simp add: x)
      then have "map_of u' k = Some i \<longleftrightarrow>
          (k, i, N) \<in> set (x # L) \<or> map_of u k = Some i \<and> (\<forall>j. (k, j, N) \<notin> set (x # L))"
        using IH True by (cases "k = kx") (auto simp: x AList.update_conv')
      moreover have "{i. \<exists>n. n \<noteq> N \<and> (k, i, n) \<in> set (x # L)}
          = {i. \<exists>n. n \<noteq> N \<and> (k, i, n) \<in> set L}"
        using True by (auto simp: x)
      ultimately show ?thesis using IH by (simp add: AList.distinct_update)
    next
      case False
      then have "fold (\<lambda>(k, x). separate_entry N k x) L (u, push_entry kx ix c) = (u', c')"
        using Cons.prems(2) by (simp add: x separate_entry_simp)
      note IH = Cons.IH [OF uniq this]
      have "(k, j, N) \<in> set (x # L) \<longleftrightarrow> (k, j, N) \<in> set L" for j
        using False by (simp add: x)
      moreover have "{i. \<exists>n. n \<noteq> N \<and> (k, i, n) \<in> set (x # L)}
          = (if k = kx then {ix} else {}) \<union> {i. \<exists>n. n \<noteq> N \<and> (k, i, n) \<in> set L}"
        using False by (auto simp: x)
      moreover have "distinct (map fst (push_entry kx ix c))" if "distinct (map fst c)"
        using that by (simp add: push_entry_def AList.distinct_update)
      ultimately show ?thesis using IH by (simp add: ids_at_push_entry del: list.set)
    qed
  qed simp
  then show "map_of u' k = Some i \<longleftrightarrow>
      (k, i, N) \<in> set L \<or> map_of u k = Some i \<and> (\<forall>j. (k, j, N) \<notin> set L)"
    and "ids_at c' k = ids_at c k \<union> {i. \<exists>n. n \<noteq> N \<and> (k, i, n) \<in> set L}"
    and "distinct (map fst u) \<Longrightarrow> distinct (map fst u')"
    and "distinct (map fst c) \<Longrightarrow> distinct (map fst c')" by simp_all
qed

section \<open>Counts and sets\<close>

lemma count_list_concat: "count_list (concat xss) x = sum_list (map (\<lambda>xs. count_list xs x) xss)"
  by (induction xss) (simp_all add: count_list_append)

lemma count_list_distinct: "distinct xs \<Longrightarrow> count_list xs x = (if x \<in> set xs then 1 else 0)"
  by (induction xs) auto

text \<open>An element of distinct lists is counted once per list that has it.\<close>

lemma count_list_sets:
  "(\<And>xs. xs \<in> set xss \<Longrightarrow> distinct xs) \<Longrightarrow>
   count_list (concat xss) x = length (filter (\<lambda>xs. x \<in> set xs) xss)"
proof (induction xss)
  case (Cons xs xss)
  then show ?case by (simp add: count_list_append count_list_distinct)
qed simp

lemma filter_all_iff: "length (filter P xs) = length xs \<longleftrightarrow> (\<forall>x \<in> set xs. P x)"
  by (metis filter_True filter_id_conv length_filter_less less_irrefl)

lemma filter_less_iff: "length (filter P xs) < length xs \<longleftrightarrow> \<not> (\<forall>x \<in> set xs. P x)"
  unfolding filter_all_iff [symmetric] using length_filter_le [of P xs] by linarith

lemma filter_some_iff: "0 < length (filter P xs) \<longleftrightarrow> (\<exists>x \<in> set xs. P x)"
  by (auto simp: filter_empty_conv)

text \<open>A state set is a hash map; what it means for all sets, and for some set, to have an entry.\<close>

definition wf_sets :: "event_id state_map list \<Rightarrow> bool" where
  "wf_sets sets \<longleftrightarrow> (\<forall>s \<in> set sets. distinct (map fst s)) \<and> length sets \<le> usize_max"

lemma occurrence_count_sets:
  assumes "wf_sets sets"
  shows "wf_occurrences (fold count_occurrence (concat sets) [])"
    and "occurrence_count (fold count_occurrence (concat sets) []) k i
      = length (filter (\<lambda>s. map_of s k = Some i) sets)"
proof -
  have wf: "wf_occurrences []" by (simp add: wf_occurrences_def)
  have zero: "occurrence_count [] k i = min 0 usize_max" by (simp add: occurrence_count_def)
  note * = fold_count_occurrence [OF wf zero, of "concat sets"]
  show "wf_occurrences (fold count_occurrence (concat sets) [])" using * by blast
  have dist: "\<And>s. s \<in> set sets \<Longrightarrow> distinct (map fst s)" using assms by (simp add: wf_sets_def)
  have "count_list (concat sets) (k, i) = length (filter (\<lambda>s. (k, i) \<in> set s) sets)"
    using dist by (intro count_list_sets) (auto simp: distinct_map)
  also have "\<dots> = length (filter (\<lambda>s. map_of s k = Some i) sets)"
    using map_of_iff_mem [OF dist] by (intro arg_cong [of _ _ length] filter_cong) auto
  finally have cnt: "count_list (concat sets) (k, i)
      = length (filter (\<lambda>s. map_of s k = Some i) sets)" .
  moreover have "\<dots> \<le> usize_max"
    using assms order_trans [OF length_filter_le [of "\<lambda>s. map_of s k = Some i" sets]]
    by (simp add: wf_sets_def)
  ultimately show "occurrence_count (fold count_occurrence (concat sets) []) k i
      = length (filter (\<lambda>s. map_of s k = Some i) sets)" using * by simp
qed

lemma separate_result:
  assumes "wf_sets sets" and "sets \<noteq> []" and "separate sets = (clean, conflicting)"
  shows "map_of clean k = Some i \<longleftrightarrow> (\<forall>s \<in> set sets. map_of s k = Some i)"
    and "ids_at conflicting k
      = {i. (\<exists>s \<in> set sets. map_of s k = Some i) \<and> \<not> (\<forall>s \<in> set sets. map_of s k = Some i)}"
    and "distinct (map fst clean)" and "distinct (map fst conflicting)"
proof -
  let ?occ = "fold count_occurrence (concat sets) []"
  let ?N = "length sets"
  note occ = occurrence_count_sets [OF assms(1)]
  have N: "fold (\<lambda>_. saturating_inc) sets 0 = ?N"
    using count_sets [of sets 0] assms(1) by (simp add: wf_sets_def)
  have mem: "(k, i, n) \<in> set (entries ?occ)
      \<longleftrightarrow> 0 < n \<and> length (filter (\<lambda>s. map_of s k = Some i) sets) = n" for k i n
    by (simp only: mem_entries [OF occ(1)] occ(2))
  have full: "(k, i, ?N) \<in> set (entries ?occ) \<longleftrightarrow> (\<forall>s \<in> set sets. map_of s k = Some i)" for k i
    unfolding mem filter_all_iff using assms(2) by simp
  have "unique_at ?N (entries ?occ)"
    unfolding unique_at_def full using assms(2) by (cases sets) auto
  moreover have "fold (\<lambda>(k, x). separate_entry ?N k x) (entries ?occ) ([], []) = (clean, conflicting)"
    using assms(3) unfolding separate_def Let_def N fold_entries .
  ultimately have res: "map_of clean k = Some i \<longleftrightarrow> (k, i, ?N) \<in> set (entries ?occ)"
    "ids_at conflicting k = {i. \<exists>n. n \<noteq> ?N \<and> (k, i, n) \<in> set (entries ?occ)}"
    "distinct (map fst clean)" "distinct (map fst conflicting)"
    using separate_entries [of ?N "entries ?occ" "[]" "[]" clean conflicting] by (simp_all add: ids_at_def)
  show "map_of clean k = Some i \<longleftrightarrow> (\<forall>s \<in> set sets. map_of s k = Some i)"
    unfolding res(1) full ..
  have "(\<exists>n. n \<noteq> ?N \<and> (k, j, n) \<in> set (entries ?occ)) \<longleftrightarrow>
      (\<exists>s \<in> set sets. map_of s k = Some j) \<and> \<not> (\<forall>s \<in> set sets. map_of s k = Some j)" for j
    unfolding mem filter_all_iff [symmetric] filter_some_iff [symmetric] by auto
  then show "ids_at conflicting k
      = {i. (\<exists>s \<in> set sets. map_of s k = Some i) \<and> \<not> (\<forall>s \<in> set sets. map_of s k = Some i)}"
    unfolding res(2) by blast
  show "distinct (map fst clean)" and "distinct (map fst conflicting)" by (rule res(3), rule res(4))
qed

section \<open>Auth chains\<close>

lemma id_counts:
  "map_of (fold (\<lambda>i m. AList.update i (case map_of m i of Some c \<Rightarrow> c + 1 | None \<Rightarrow> 1) m) xs m) i
     = (case map_of m i of
          Some c \<Rightarrow> Some (c + count_list xs i)
        | None \<Rightarrow> (if i \<in> set xs then Some (count_list xs i) else None))"
proof (induction xs arbitrary: m)
  case (Cons x xs)
  show ?case unfolding fold_simps Cons.IH
    by (auto simp: AList.update_conv' count_notin split: option.split)
qed (simp split: option.split)

lemma distinct_id_counts:
  "distinct (map fst m) \<Longrightarrow>
   distinct (map fst (fold (\<lambda>i m. AList.update i (case map_of m i of Some c \<Rightarrow> c + 1 | None \<Rightarrow> 1) m) xs m))"
  by (induction xs arbitrary: m) (simp_all add: AList.distinct_update)

lemma auth_chain_diff_result:
  assumes "\<And>c. c \<in> set css \<Longrightarrow> distinct c"
  shows "set (get_auth_chain_diff css)
      = {i. (\<exists>c \<in> set css. i \<in> set c) \<and> \<not> (\<forall>c \<in> set css. i \<in> set c)}"
    and "distinct (get_auth_chain_diff css)"
proof -
  let ?m = "fold (\<lambda>i m. AList.update i (case map_of m i of Some c \<Rightarrow> c + 1 | None \<Rightarrow> 1) m)
    (concat css) ([] :: (event_id \<times> nat) list)"
  have dist: "distinct (map fst ?m)" by (rule distinct_id_counts) simp
  have "set (get_auth_chain_diff css) = {i. \<exists>c. map_of ?m i = Some c \<and> c < length css}"
    unfolding get_auth_chain_diff_def Let_def using map_of_iff_mem [OF dist] by force
  also have "\<dots> = {i. i \<in> set (concat css) \<and> count_list (concat css) i < length css}"
    unfolding id_counts by auto
  also have "\<dots> = {i. (\<exists>c \<in> set css. i \<in> set c)
      \<and> length (filter (\<lambda>c. i \<in> set c) css) < length css}"
    using count_list_sets [OF assms] by simp
  also have "\<dots> = {i. (\<exists>c \<in> set css. i \<in> set c) \<and> \<not> (\<forall>c \<in> set css. i \<in> set c)}"
    unfolding filter_less_iff ..
  finally show "set (get_auth_chain_diff css)
      = {i. (\<exists>c \<in> set css. i \<in> set c) \<and> \<not> (\<forall>c \<in> set css. i \<in> set c)}" .
  show "distinct (get_auth_chain_diff css)"
    unfolding get_auth_chain_diff_def Let_def using dist by (simp add: distinct_map_filter)
qed

section \<open>Properties\<close>

text \<open>
  C5: \<open>separate\<close> splits the state as specified. A key is unconflicted exactly when every state set
  has the same event for it; every other event that some set has for a key is conflicted, also when
  another set has no event for that key.
\<close>

theorem separate_correct:
  assumes "wf_sets sets" and "sets \<noteq> []" and "separate sets = (clean, conflicting)"
  shows "(map_of clean k = Some i \<longleftrightarrow> (\<forall>s \<in> set sets. map_of s k = Some i))
    \<and> (i \<in> ids_at conflicting k \<longleftrightarrow>
        (\<exists>s \<in> set sets. map_of s k = Some i) \<and> \<not> (\<forall>s \<in> set sets. map_of s k = Some i))"
  using separate_result [OF assms] by simp

theorem separate_correct_witness:
  "let sets = [[((RoomCreate, []), ''$c''), ((RoomMember, ''@a''), ''$1'')],
               [((RoomMember, ''@a''), ''$2''), ((RoomCreate, []), ''$c'')]] in
   (''$c'' \<notin> ids_at (snd (separate sets)) (RoomCreate, []))
   \<and> ''$1'' \<in> ids_at (snd (separate sets)) (RoomMember, ''@a'')
   \<and> map_of (fst (separate sets)) (RoomCreate, []) = Some ''$c''"
proof -
  let ?sets = "[[((RoomCreate, []), ''$c''), ((RoomMember, ''@a''), ''$1'')],
               [((RoomMember, ''@a''), ''$2''), ((RoomCreate, []), ''$c'')]]"
  have "wf_sets ?sets" by (simp add: wf_sets_def usize_max_def)
  moreover have "separate ?sets = (fst (separate ?sets), snd (separate ?sets))" by simp
  ultimately show ?thesis
    using separate_correct [of ?sets "fst (separate ?sets)" "snd (separate ?sets)"] by simp
qed

text \<open>
  C13: the auth chain difference is the set of events that are in some of the auth chains and not in
  all of them, each listed once.
\<close>

theorem auth_chain_diff_correct:
  assumes "\<forall>c \<in> set css. distinct c"
  shows "distinct (get_auth_chain_diff css)
    \<and> set (get_auth_chain_diff css) = \<Union> (set ` set css) - \<Inter> (set ` set css)"
  using auth_chain_diff_result [of css] assms by auto

theorem auth_chain_diff_correct_witness:
  "set (get_auth_chain_diff [[''$a'', ''$b''], [''$b'', ''$c'']]) = {''$a'', ''$c''}"
proof -
  have "\<forall>c \<in> set [[''$a'', ''$b''], [''$b'', ''$c'']]. distinct c" by simp
  from auth_chain_diff_correct [OF this] show ?thesis by auto
qed

end
