(* ===== verification/State_Res_Props.thy ===== *)
theory State_Res_Props
  imports State_Split Event_Auth_Props
begin

text \<open>
  State resolution: the graph of the control events, the order of the two sorts, and what the
  resolved state consists of.
\<close>

section \<open>The graph of the control events\<close>

lemma edges_of_keys: "e \<in> edges_of g k \<Longrightarrow> k \<in> fst ` set g"
  by (auto simp: edges_of_def dest: map_of_in_keys split: option.splits)

lemma wf_graph_or_default: "wf_graph g \<Longrightarrow> wf_graph (or_default k g)"
  unfolding wf_graph_def or_default_def by (simp add: map_of_eq_None_iff)

lemma wf_graph_entry_insert:
  assumes "wf_graph g"
  shows "wf_graph (entry_insert k v g)"
proof -
  let ?vs = "push_unique (case map_of g k of Some es \<Rightarrow> es | None \<Rightarrow> []) v"
  have edges: "distinct es" if "(n, es) \<in> set g" for n es
    using assms that unfolding wf_graph_def by blast
  have "distinct ?vs"
  proof (cases "map_of g k")
    case (Some es)
    then show ?thesis using edges [OF map_of_SomeD [OF Some]] by simp
  qed simp
  then have "distinct es" if "(n, es) \<in> set (AList.update k ?vs g)" for n es
    using set_AList_update [OF that] edges by auto
  moreover have "distinct (map fst (AList.update k ?vs g))"
    using assms by (simp add: wf_graph_def AList.distinct_update)
  ultimately show ?thesis unfolding wf_graph_def entry_insert_def by blast
qed

lemma add_auth_events_graph:
  assumes "wf_graph g" and "add_auth_events eid aids diff g st = (g', st')"
  shows "wf_graph g'"
    and "edges_of g' k = edges_of g k \<union> (if k = eid then set aids \<inter> set diff else {})"
proof -
  have "wf_graph g' \<and> (edges_of g' k = edges_of g k \<union> (if k = eid then set aids \<inter> set diff else {}))"
    using assms
  proof (induction eid aids diff g st rule: add_auth_events.induct)
    case (2 eid aid aids diff g st)
    show ?case
    proof (cases "aid \<in> set diff")
      case True
      then show ?thesis
        using 2(1) [OF True wf_graph_entry_insert [OF 2(3)]] 2(4) by auto
    next
      case False
      then show ?thesis using 2(2) [OF False 2(3)] 2(4) by auto
    qed
  qed auto
  then show "wf_graph g'"
    and "edges_of g' k = edges_of g k \<union> (if k = eid then set aids \<inter> set diff else {})"
    by simp_all
qed

text \<open>
  Between rounds, every node has exactly its auth events inside the conflicted set as edges, and an
  edge leads to a node or to an event that is still on the stack.
\<close>

definition graph_inv :: "fetch \<Rightarrow> event_id list \<Rightarrow> event_id graph \<Rightarrow> event_id list \<Rightarrow> bool" where
  "graph_inv fetch_event diff g st \<longleftrightarrow> wf_graph g
   \<and> (\<forall>k \<in> fst ` set g. edges_of g k = set (auth_events_of fetch_event k) \<inter> set diff)
   \<and> (\<forall>k. edges_of g k \<subseteq> fst ` set g \<union> set st)"

lemma graph_inv_step:
  assumes "graph_inv fe diff g (eid # st)"
    and "add_auth_events eid (auth_events_of fe eid) diff (or_default eid g) st = (g', st')"
  shows "graph_inv fe diff g' st'" and "fst ` set g' = insert eid (fst ` set g)"
    and "set st \<subseteq> set st'" and "set st' \<subseteq> set st \<union> (set (auth_events_of fe eid) \<inter> set diff)"
proof -
  have eid: "map_of (or_default eid g) eid \<noteq> None" by (simp add: map_of_or_default)
  have wf: "wf_graph (or_default eid g)"
    using assms(1) by (simp add: graph_inv_def wf_graph_or_default)
  note graph = add_auth_events_graph [OF wf assms(2)]
  show keys: "fst ` set g' = insert eid (fst ` set g)"
    using add_auth_events_keys [OF eid assms(2)] by (simp add: keys_or_default)
  obtain new where st': "st' = new @ st"
    and new: "set new = {a \<in> set (auth_events_of fe eid). a \<in> set diff \<and> a \<notin> insert eid (fst ` set g)}"
    using add_auth_events_state [OF eid assms(2)] by (auto simp: keys_or_default)
  show "set st \<subseteq> set st'" by (simp add: st')
  show "set st' \<subseteq> set st \<union> (set (auth_events_of fe eid) \<inter> set diff)" using new by (auto simp: st')
  have old: "edges_of g k = set (auth_events_of fe k) \<inter> set diff" if "k \<in> fst ` set g" for k
    using assms(1) that unfolding graph_inv_def by blast
  have edges: "edges_of g' k = set (auth_events_of fe k) \<inter> set diff" if "k \<in> fst ` set g'" for k
    using that keys old [of k] old [of eid] edges_of_keys [of _ g eid]
    by (auto simp: graph(2))
  have "edges_of g' k \<subseteq> fst ` set g' \<union> set st'" for k
  proof -
    have "edges_of g k \<subseteq> fst ` set g \<union> set (eid # st)"
      using assms(1) unfolding graph_inv_def by blast
    then show ?thesis using new by (auto simp: graph(2) keys st' split: if_splits)
  qed
  then show "graph_inv fe diff g' st'"
    using graph(1) edges unfolding graph_inv_def by blast
qed

text \<open>The events reachable along auth events inside the conflicted set.\<close>

inductive chained :: "fetch \<Rightarrow> event_id list \<Rightarrow> event_id set \<Rightarrow> event_id \<Rightarrow> bool"
  for fetch_event diff A where
  base: "i \<in> A \<Longrightarrow> chained fetch_event diff A i"
| auth: "chained fetch_event diff A i \<Longrightarrow> a \<in> set (auth_events_of fetch_event i) \<Longrightarrow> a \<in> set diff
    \<Longrightarrow> chained fetch_event diff A a"

lemma add_event_result:
  assumes "graph_inv fe diff g st" and "\<And>i. i \<in> fst ` set g \<union> set st \<Longrightarrow> chained fe diff A i"
  shows "graph_inv fe diff (add_event_and_auth_chain_to_graph fe diff g st) []"
    and "fst ` set g \<union> set st \<subseteq> fst ` set (add_event_and_auth_chain_to_graph fe diff g st)"
    and "\<And>i. i \<in> fst ` set (add_event_and_auth_chain_to_graph fe diff g st) \<Longrightarrow> chained fe diff A i"
proof -
  have "graph_inv fe diff (add_event_and_auth_chain_to_graph fe diff g st) []
    \<and> fst ` set g \<union> set st \<subseteq> fst ` set (add_event_and_auth_chain_to_graph fe diff g st)
    \<and> (\<forall>i \<in> fst ` set (add_event_and_auth_chain_to_graph fe diff g st). chained fe diff A i)"
    using assms
  proof (induction fe diff g st rule: add_event_and_auth_chain_to_graph.induct)
    case (2 fe diff g eid st)
    obtain g' st' where round: "add_auth_events eid (auth_events_of fe eid) diff (or_default eid g) st
        = (g', st')" by fastforce
    note step = graph_inv_step [OF 2(2) round]
    have "chained fe diff A i" if "i \<in> fst ` set g' \<union> set st'" for i
      using that step(2,4) 2(3) chained.auth [OF 2(3) [of eid]] by auto
    from 2(1) [OF round [symmetric] refl step(1) this] show ?case
      using step(2,3) round by auto
  qed simp
  then show "graph_inv fe diff (add_event_and_auth_chain_to_graph fe diff g st) []"
    and "fst ` set g \<union> set st \<subseteq> fst ` set (add_event_and_auth_chain_to_graph fe diff g st)"
    and "\<And>i. i \<in> fst ` set (add_event_and_auth_chain_to_graph fe diff g st) \<Longrightarrow> chained fe diff A i"
    by blast+
qed

lemma graph_inv_push: "graph_inv fe diff g [] \<Longrightarrow> graph_inv fe diff g st"
  unfolding graph_inv_def by auto

lemma power_graph_result:
  "graph_inv fe diff (power_graph fe diff evs) []"
  "fst ` set (power_graph fe diff evs) = {i. chained fe diff (set evs) i}"
proof -
  let ?add = "\<lambda>i g. add_event_and_auth_chain_to_graph fe diff g [i]"
  have fold: "graph_inv fe diff (fold ?add is g) [] \<and> fst ` set g \<union> set is \<subseteq> fst ` set (fold ?add is g)
      \<and> (\<forall>i \<in> fst ` set (fold ?add is g). chained fe diff A i)"
    if "graph_inv fe diff g []" "\<forall>i \<in> fst ` set g \<union> set is. chained fe diff A i" for "is" g A
    using that
  proof (induction "is" arbitrary: g)
    case (Cons i "is")
    have ch: "chained fe diff A j" if "j \<in> fst ` set g \<union> set [i]" for j using Cons.prems(2) that by auto
    note step = add_event_result [OF graph_inv_push [OF Cons.prems(1), of "[i]"] ch]
    have "\<forall>j \<in> fst ` set (?add i g) \<union> set is. chained fe diff A j"
      using step(3) Cons.prems(2) by (auto simp del: add_event_and_auth_chain_to_graph.simps)
    from Cons.IH [OF step(1) this] step(2) show ?case
      by (auto simp del: add_event_and_auth_chain_to_graph.simps)
  qed simp
  have "graph_inv fe diff [] []" by (simp add: graph_inv_def wf_graph_def edges_of_def)
  from fold [OF this, of evs "set evs"] have res: "graph_inv fe diff (power_graph fe diff evs) []"
    "set evs \<subseteq> fst ` set (power_graph fe diff evs)"
    "\<forall>i \<in> fst ` set (power_graph fe diff evs). chained fe diff (set evs) i"
    by (auto simp: power_graph_def chained.base)
  show "graph_inv fe diff (power_graph fe diff evs) []" by (rule res(1))
  have "i \<in> fst ` set (power_graph fe diff evs)" if "chained fe diff (set evs) i" for i
    using that
  proof induction
    case (auth i a)
    then show ?case using res(1) unfolding graph_inv_def by fastforce
  qed (use res(2) in auto)
  then show "fst ` set (power_graph fe diff evs) = {i. chained fe diff (set evs) i}"
    using res(3) by blast
qed

text \<open>Event graphs have no cycles: an event refers only to events of smaller rank.\<close>

definition ranked :: "fetch \<Rightarrow> (event_id \<Rightarrow> nat) \<Rightarrow> bool" where
  "ranked fetch_event rank \<longleftrightarrow> (\<forall>i. \<forall>a \<in> set (auth_events_of fetch_event i). rank a < rank i)"

lemma power_graph_grounded:
  assumes "ranked fe rank" and "i \<in> fst ` set (power_graph fe diff evs)"
  shows "grounded (power_graph fe diff evs) i"
proof (rule grounded_acyclic [OF _ _ assms(2)])
  let ?g = "power_graph fe diff evs"
  note inv = power_graph_result(1) [of fe diff evs, unfolded graph_inv_def]
  show "edges_of ?g n \<subseteq> fst ` set ?g" for n using inv by simp
  have "rank e < rank n" if "e \<in> edges_of ?g n" for e n
    using inv edges_of_keys [OF that] that assms(1) unfolding ranked_def by blast
  then show "wf {(e, n). e \<in> edges_of ?g n}"
    by (intro wf_subset [OF wf_measure [of rank]]) auto
qed

section \<open>Checking events one after the other\<close>

lemma fetch_all_Ok: "fetch_all fe ids = Ok evs \<Longrightarrow> map fe ids = map Some evs"
  by (induction ids arbitrary: evs) (auto simp: try_bind_eq_Ok ok_or_eq_Ok)

lemma sched_set: "sched_ok S \<Longrightarrow> set (id_order S ids) = set ids"
  unfolding sched_ok_def by (metis set_mset_mset)

text \<open>
  An event that passed the check for its key, against a state in which the keys the rules look at
  have the events of the state resolved so far.
\<close>

definition accepted_at :: "fetch \<Rightarrow> ruma \<Rightarrow> room_version \<Rightarrow> event \<Rightarrow> type_state_key \<Rightarrow> bool" where
  "accepted_at fetch_event R rv ev k \<longleftrightarrow>
     ev_type ev = fst k \<and> ev_state_key ev = Some (snd k)
   \<and> (\<exists>types tp auth_state resolved.
        auth_types_for_event R (ev_type ev) (ev_sender ev) (ev_state_key ev) (ev_content ev) = Ok types
      \<and> auth_check R rv ev tp (\<lambda>ty key. map_of auth_state (ty, key)) = Ok True
      \<and> (\<forall>key \<in> set types. \<forall>j e. map_of resolved key = Some j \<and> fetch_event j = Some e
            \<longrightarrow> map_of auth_state key = Some e))"

lemma map_of_add_resolved_state:
  "map_of (add_resolved_state fe ae rs keys st) key =
     (if key \<in> set keys \<and> resolved_event fe ae rs key \<noteq> None then resolved_event fe ae rs key
      else map_of st key)"
  unfolding add_resolved_state_def
  by (induction keys arbitrary: st) (auto simp: AList.update_conv' split: option.split)

end
