(* ===== verification/Mainline.thy ===== *)
theory Mainline
  imports State_Res_Props
begin

text \<open>
  The mainline order: the sort keys do not depend on the order in which requests complete, and the
  walks along power level events end when auth events cannot form a cycle.
\<close>

section \<open>Sort keys\<close>

text \<open>The key of an event: its depth, time and identifier; events without a depth have none.\<close>

definition mainline_key :: "nat \<Rightarrow> fetch \<Rightarrow> (event_id \<times> nat) list \<Rightarrow> event_id
    \<Rightarrow> (nat \<times> nat \<times> event_id) option" where
  "mainline_key fuel fetch_event mm i =
     Option.bind (fetch_event i) (\<lambda>ev.
       (case get_mainline_depth fuel fetch_event mm (Some ev) of
          Ok d \<Rightarrow> Some (d, ev_ts ev, i) | Err _ \<Rightarrow> None))"

definition walk_fails :: "nat \<Rightarrow> fetch \<Rightarrow> (event_id \<times> nat) list \<Rightarrow> event_id \<Rightarrow> bool" where
  "walk_fails fuel fetch_event mm i \<longleftrightarrow>
     (\<exists>ev. fetch_event i = Some ev
        \<and> get_mainline_depth fuel fetch_event mm (Some ev) = Err OutOfFuel)"

text \<open>The lookups after the events of \<open>ids\<close> are added.\<close>

definition with_keys :: "nat \<Rightarrow> fetch \<Rightarrow> (event_id \<times> nat) list \<Rightarrow> event_id list
    \<Rightarrow> (event_id \<Rightarrow> (nat \<times> nat \<times> event_id) option) \<Rightarrow> event_id
    \<Rightarrow> (nat \<times> nat \<times> event_id) option" where
  "with_keys fuel fe mm ids m i =
     (if i \<in> set ids \<and> mainline_key fuel fe mm i \<noteq> None then mainline_key fuel fe mm i else m i)"

lemma with_keys_Cons:
  "with_keys fuel fe mm (i # ids) m =
     with_keys fuel fe mm ids
       (case mainline_key fuel fe mm i of Some k \<Rightarrow> m(i \<mapsto> k) | None \<Rightarrow> m)"
  by (rule ext) (auto simp: with_keys_def split: option.split)

lemma collect_order_map_result:
  "if \<exists>i \<in> set ids. walk_fails fuel fe mm i
   then collect_order_map fuel fe mm ids om = Err OutOfFuel
   else \<exists>om'. collect_order_map fuel fe mm ids om = Ok om'
      \<and> (distinct (map fst om) \<longrightarrow> distinct (map fst om'))
      \<and> map_of om' = with_keys fuel fe mm ids (map_of om)"
proof (induction ids arbitrary: om)
  case (Cons i ids)
  show ?case
  proof (cases "fe i")
    case None
    then have "\<not> walk_fails fuel fe mm i" "mainline_key fuel fe mm i = None"
      by (simp_all add: walk_fails_def mainline_key_def)
    then show ?thesis using Cons [of om] None by (simp add: with_keys_Cons)
  next
    case (Some ev)
    show ?thesis
    proof (cases "get_mainline_depth fuel fe mm (Some ev)")
      case (Inl e)
      then have "mainline_key fuel fe mm i = None" "walk_fails fuel fe mm i \<longleftrightarrow> e = OutOfFuel"
        by (simp_all add: walk_fails_def mainline_key_def Some)
      then show ?thesis using Cons [of om] Some Inl by (simp add: with_keys_Cons)
    next
      case (Inr d)
      then have "mainline_key fuel fe mm i = Some (d, ev_ts ev, i)" "\<not> walk_fails fuel fe mm i"
        by (simp_all add: walk_fails_def mainline_key_def Some)
      then show ?thesis
        using Cons [of "AList.update i (d, ev_ts ev, i) om"] Some Inr
        by (cases "\<exists>a \<in> set ids. walk_fails fuel fe mm a")
           (auto simp: with_keys_Cons AList.update_conv' AList.distinct_update)
    qed
  qed
qed (simp add: with_keys_def fun_eq_iff)

lemma mainline_key_id: "mainline_key fuel fe mm i = Some k \<Longrightarrow> snd (snd k) = i"
  by (auto simp: mainline_key_def split: sum.splits bind_splits)

text \<open>The sorted list is determined by the events that have a key.\<close>

lemma sort_by_key_unique:
  assumes "distinct xs" and "distinct ys" and "set xs = set ys"
    and "inj_on f (set xs)"
  shows "sort_key f xs = sort_key f ys"
proof -
  have "mset xs = mset ys" using assms(1-3) by (simp add: set_eq_iff_mset_eq_distinct)
  then have "map f (sort_key f xs) = map f (sort_key f ys)"
    by (intro sorted_unique) simp_all
  then show ?thesis
    using assms(3,4) by (auto dest: map_inj_on)
qed

lemma insort_key_eq:
  "\<forall>x \<in> insert a (set xs). f x = g x \<Longrightarrow> insort_key f a xs = insort_key g a xs"
  by (induction xs) auto

lemma sort_key_eq: "\<forall>x \<in> set xs. f x = g x \<Longrightarrow> sort_key f xs = sort_key g xs"
proof (induction xs)
  case (Cons a xs)
  then show ?case using insort_key_eq [of a "sort_key g xs" f g] by simp
qed simp

text \<open>What the sort returns: the events that have a key, by increasing key.\<close>

lemma mainline_sort_Ok:
  assumes "sched_ok S" and "to_sort \<noteq> []" and "build_mainline fuel fe pl [] = Ok mainline"
  defines "key \<equiv> mainline_key fuel fe (mainline_positions mainline)"
  shows "if \<exists>i \<in> set to_sort. walk_fails fuel fe (mainline_positions mainline) i
    then mainline_sort fuel S fe to_sort pl = Err OutOfFuel
    else \<exists>xs. mainline_sort fuel S fe to_sort pl = Ok (sort_key (\<lambda>i. the (key i)) xs)
      \<and> distinct xs \<and> set xs = {i \<in> set to_sort. key i \<noteq> None}"
proof -
  let ?mm = "mainline_positions mainline"
  note res = collect_order_map_result [of "id_order S to_sort" fuel fe ?mm "[]",
      unfolded sched_set [OF assms(1)]]
  show ?thesis
  proof (cases "\<exists>i \<in> set to_sort. walk_fails fuel fe ?mm i")
    case True
    then show ?thesis using res assms(2,3) by (simp add: mainline_sort_def)
  next
    case False
    with res obtain om where om: "collect_order_map fuel fe ?mm (id_order S to_sort) [] = Ok om"
      "distinct (map fst om)" "map_of om = with_keys fuel fe ?mm (id_order S to_sort) (map_of [])"
      by auto
    have look: "map_of om i = (if i \<in> set to_sort then key i else None)" for i
      by (cases "key i") (auto simp: om(3) with_keys_def sched_set [OF assms(1)] key_def)
    then have set: "set (map fst om) = {i \<in> set to_sort. key i \<noteq> None}"
      by (auto simp: map_of_eq_None_iff [symmetric] dom_map_of_conv_image_fst [symmetric]
          split: if_splits)
    have "sort_key (order_of om) (map fst om) = sort_key (\<lambda>i. the (key i)) (map fst om)"
      using set look by (intro sort_key_eq) (auto simp: order_of_def)
    then have "mainline_sort fuel S fe to_sort pl = Ok (sort_key (\<lambda>i. the (key i)) (map fst om))"
      using om(1) assms(2,3) by (simp add: mainline_sort_def)
    then show ?thesis using False om(2) set by auto
  qed
qed

section \<open>The walks end\<close>

lemma next_power_event_Ok:
  "next_power_event fe aids = Ok (Some (a, ev)) \<Longrightarrow> a \<in> set aids \<and> fe a = Some ev"
  by (induction aids) (auto simp: try_bind_eq_Ok ok_or_eq_Ok split: if_splits)

lemma next_power_event_Err: "next_power_event fe aids \<noteq> Err OutOfFuel"
  by (induction aids) (auto simp: try_bind_eq_Err ok_or_def split: option.splits if_splits)

lemma build_mainline_ends:
  assumes "ranked fe rank" and "\<And>p. pl = Some p \<Longrightarrow> rank p < fuel"
  shows "build_mainline fuel fe pl acc \<noteq> Err OutOfFuel"
  using assms(2)
proof (induction fuel arbitrary: pl acc)
  case (Suc fuel)
  show ?case
  proof (cases pl)
    case (Some p)
    show ?thesis
    proof
      assume "build_mainline (Suc fuel) fe pl acc = Err OutOfFuel"
      then obtain ev nxt where ev: "fe p = Some ev"
        and nxt: "next_power_event fe (ev_auth_events ev) = Ok nxt"
        and rest: "build_mainline fuel fe (map_option fst nxt) (acc @ [p]) = Err OutOfFuel"
        using next_power_event_Err
        by (auto simp: Some try_bind_eq_Err ok_or_def split: option.splits)
      have "rank q < fuel" if "map_option fst nxt = Some q" for q
      proof -
        from that nxt obtain e where "next_power_event fe (ev_auth_events ev) = Ok (Some (q, e))"
          by auto
        then have "q \<in> set (auth_events_of fe p)"
          by (simp add: auth_events_of_def ev next_power_event_Ok)
        then have "rank q < rank p" using assms(1) by (simp add: ranked_def)
        then show ?thesis using Suc.prems [OF Some] by simp
      qed
      from Suc.IH [OF this] rest show False by blast
    qed
  qed simp
next
  case 0
  then show ?case by (cases pl) auto
qed

lemma get_mainline_depth_ends:
  assumes "ranked fe rank"
  shows "\<lbrakk>\<And>e. ev = Some e \<Longrightarrow> \<exists>i. fe i = Some e \<and> rank i < fuel\<rbrakk> \<Longrightarrow>
    get_mainline_depth fuel fe mm ev \<noteq> Err OutOfFuel"
proof (induction fuel arbitrary: ev)
  case (Suc fuel)
  show ?case
  proof (cases ev)
    case (Some e)
    then obtain i where i: "fe i = Some e" "rank i < Suc fuel" using Suc.prems by auto
    show ?thesis
    proof
      assume "get_mainline_depth (Suc fuel) fe mm ev = Err OutOfFuel"
      then obtain nxt where nxt: "next_power_event fe (ev_auth_events e) = Ok nxt"
        and rest: "get_mainline_depth fuel fe mm (map_option snd nxt) = Err OutOfFuel"
        using next_power_event_Err by (auto simp: Some try_bind_eq_Err split: option.splits)
      have "\<exists>j. fe j = Some f \<and> rank j < fuel" if "map_option snd nxt = Some f" for f
      proof -
        from that nxt obtain j where "next_power_event fe (ev_auth_events e) = Ok (Some (j, f))"
          by auto
        then have j: "j \<in> set (auth_events_of fe i)" "fe j = Some f"
          by (simp_all add: auth_events_of_def i(1) next_power_event_Ok)
        then have "rank j < rank i" using assms by (simp add: ranked_def)
        then show ?thesis using i(2) j(2) by auto
      qed
      from Suc.IH [OF this] rest show False by blast
    qed
  qed simp
next
  case 0
  then show ?case by (cases ev) auto
qed

section \<open>A small store\<close>

text \<open>
  A create event \<open>$c\<close>, two power level events \<open>$p\<close> and \<open>$q\<close>, and two topics, \<open>$t\<close> under \<open>$q\<close>
  and \<open>$u\<close> under \<open>$p\<close>; and two completion orders.
\<close>

definition demo_store :: fetch where
  "demo_store i =
     (if i = ''$c'' then Some ((demo_event ''$c'' ''@a'' RoomCreate (Some []) ''create'')\<lparr>ev_auth_events := []\<rparr>)
      else if i = ''$p'' then Some (demo_event ''$p'' ''@a'' RoomPowerLevels (Some []) ''pl'')
      else if i = ''$q'' then Some ((demo_event ''$q'' ''@a'' RoomPowerLevels (Some []) ''pl2'')
                              \<lparr>ev_auth_events := [''$c'', ''$p'']\<rparr>)
      else if i = ''$t'' then Some ((demo_event ''$t'' ''@b'' (CustomType ''topic'') (Some []) ''x'')
                              \<lparr>ev_auth_events := [''$q''], ev_ts := 5\<rparr>)
      else if i = ''$u'' then Some ((demo_event ''$u'' ''@b'' (CustomType ''topic'') (Some []) ''y'')
                              \<lparr>ev_auth_events := [''$p''], ev_ts := 9\<rparr>)
      else None)"

definition demo_rank :: "event_id \<Rightarrow> nat" where
  "demo_rank i = (if i = ''$c'' then 1 else if i = ''$p'' then 2 else if i = ''$q'' then 3
     else if i = ''$t'' \<or> i = ''$u'' then 4 else 0)"

definition in_order :: sched where
  "in_order = \<lparr>id_order = (\<lambda>xs. xs), hash_order = (\<lambda>m. m)\<rparr>"

definition reversed :: sched where
  "reversed = \<lparr>id_order = rev, hash_order = rev\<rparr>"

lemma demo_scheds: "sched_ok in_order" "sched_ok reversed"
  by (simp_all add: sched_ok_def in_order_def reversed_def)

lemma demo_ranked: "ranked demo_store demo_rank"
  by (auto simp: ranked_def auth_events_of_def demo_store_def demo_rank_def demo_event_def)

section \<open>Properties\<close>



text \<open>
  C14: the mainline sort is deterministic. The order in which fetched events arrive does not change
  its result.
\<close>

theorem mainline_sort_deterministic:
  assumes "sched_ok S" and "sched_ok S'"
  shows "mainline_sort fuel S fe to_sort pl = mainline_sort fuel S' fe to_sort pl"
proof (cases "to_sort = [] \<or> (\<exists>e. build_mainline fuel fe pl [] = Err e)")
  case True
  then show ?thesis by (auto simp: mainline_sort_def)
next
  case False
  then obtain mainline where m: "build_mainline fuel fe pl [] = Ok mainline"
    by (cases "build_mainline fuel fe pl []") auto
  let ?key = "mainline_key fuel fe (mainline_positions mainline)"
  have inj: "inj_on (\<lambda>i. the (?key i)) {i \<in> set to_sort. ?key i \<noteq> None}"
    using mainline_key_id by (intro inj_on_inverseI [of _ "\<lambda>k. snd (snd k)"]) fastforce
  have same: "sort_key (\<lambda>i. the (?key i)) xs = sort_key (\<lambda>i. the (?key i)) ys"
    if "distinct xs" "set xs = {i \<in> set to_sort. ?key i \<noteq> None}"
      "distinct ys" "set ys = {i \<in> set to_sort. ?key i \<noteq> None}" for xs ys
    using that inj by (intro sort_by_key_unique) auto
  from False have ne: "to_sort \<noteq> []" by simp
  note res = mainline_sort_Ok [OF assms(1) ne m] mainline_sort_Ok [OF assms(2) ne m]
  show ?thesis
  proof (cases "\<exists>i \<in> set to_sort. walk_fails fuel fe (mainline_positions mainline) i")
    case True
    then show ?thesis using res by (simp only: if_True)
  next
    case no_fail: False
    from res(1) [unfolded if_not_P [OF no_fail]] obtain xs
      where xs: "mainline_sort fuel S fe to_sort pl = Ok (sort_key (\<lambda>i. the (?key i)) xs)"
        "distinct xs" "set xs = {i \<in> set to_sort. ?key i \<noteq> None}"
      by blast
    from res(2) [unfolded if_not_P [OF no_fail]] obtain ys
      where ys: "mainline_sort fuel S' fe to_sort pl = Ok (sort_key (\<lambda>i. the (?key i)) ys)"
        "distinct ys" "set ys = {i \<in> set to_sort. ?key i \<noteq> None}"
      by blast
    show ?thesis unfolding xs(1) ys(1) same [OF xs(2,3) ys(2,3)] ..
  qed
qed

theorem mainline_sort_deterministic_witness:
  "mainline_sort 9 in_order demo_store [''$t'', ''$u''] (Some ''$q'')
   = mainline_sort 9 reversed demo_store [''$t'', ''$u''] (Some ''$q'')"
  by (rule mainline_sort_deterministic [OF demo_scheds])

text \<open>
  C15: the mainline sort ends. With acyclic auth events, fuel above the rank of every event is
  enough, so the loops of the code return.
\<close>

theorem mainline_sort_ends:
  assumes "sched_ok S" and "ranked fe rank" and "\<forall>i. rank i < fuel"
  shows "mainline_sort fuel S fe to_sort pl \<noteq> Err OutOfFuel"
proof (cases "to_sort = []")
  case False
  have ends: "build_mainline fuel fe pl [] \<noteq> Err OutOfFuel"
    using assms(3) by (intro build_mainline_ends [OF assms(2)]) simp
  show ?thesis
  proof (cases "build_mainline fuel fe pl []")
    case (Inr mainline)
    have "\<not> walk_fails fuel fe (mainline_positions mainline) i" for i
      using get_mainline_depth_ends [OF assms(2), of "Some _" fuel] assms(3)
      unfolding walk_fails_def by blast
    then show ?thesis using mainline_sort_Ok [OF assms(1) False Inr] by auto
  qed (use ends False in \<open>simp add: mainline_sort_def\<close>)
qed (simp add: mainline_sort_def)

theorem mainline_sort_ends_witness:
  "mainline_sort 9 in_order demo_store [''$t'', ''$u''] (Some ''$q'') \<noteq> Err OutOfFuel"
proof -
  have "\<forall>i. demo_rank i < 9" by (simp add: demo_rank_def)
  from mainline_sort_ends [OF demo_scheds(1) demo_ranked this] show ?thesis .
qed

end
