(* ===== verification/Pdu_Id.thy ===== *)
theory Pdu_Id
  imports Room_Version
begin

text \<open>
  \<open>core/matrix/pdu/count.rs\<close>, \<open>id.rs\<close> and \<open>raw_id.rs\<close>: the position of an event in its room
  (\<open>Count\<close>), the identifier of an event in the timeline (\<open>Id\<close>) and the database key made of it
  (\<open>RawId\<close>). A signed 64-bit integer is the word of its two's complement; \<open>sint\<close> reads it. The
  debug assertions of the source are not part of the model.
\<close>

type_synonym i64 = "64 word"

section \<open>Counts\<close>

datatype count = Normal u64 | Backfilled i64

datatype direction = Forward | Backward

definition from_signed :: "i64 \<Rightarrow> count" where
  "from_signed s = (if sint s \<le> 0 then Backfilled s else Normal s)"

definition from_unsigned :: "u64 \<Rightarrow> count" where
  "from_unsigned u = from_signed u"

fun into_unsigned :: "count \<Rightarrow> u64" where
  "into_unsigned (Normal i) = i"
| "into_unsigned (Backfilled i) = i"

fun into_signed :: "count \<Rightarrow> i64" where
  "into_signed (Normal i) = i"
| "into_signed (Backfilled i) = i"

fun into_normal :: "count \<Rightarrow> count" where
  "into_normal (Normal i) = Normal i"
| "into_normal (Backfilled _) = Normal 0"

text \<open>The arithmetic of \<open>i64\<close> and \<open>u64\<close> that counts use.\<close>

definition i64_min :: int where "i64_min = - (2 ^ 63)"
definition i64_max :: int where "i64_max = 2 ^ 63 - 1"
definition u64_max :: int where "u64_max = 2 ^ 64 - 1"

definition checked_i64 :: "int \<Rightarrow> i64 option" where
  "checked_i64 r = (if i64_min \<le> r \<and> r \<le> i64_max then Some (word_of_int r) else None)"

definition checked_u64 :: "int \<Rightarrow> u64 option" where
  "checked_u64 r = (if 0 \<le> r \<and> r \<le> u64_max then Some (word_of_int r) else None)"

definition saturate_i64 :: "int \<Rightarrow> i64" where
  "saturate_i64 r = word_of_int (max i64_min (min i64_max r))"

definition saturate_u64 :: "int \<Rightarrow> u64" where
  "saturate_u64 r = word_of_int (max 0 (min u64_max r))"

fun checked_add :: "count \<Rightarrow> u64 \<Rightarrow> string + count" where
  "checked_add (Normal i) add =
     try_bind (ok_or (checked_u64 (uint i + uint add)) ''Count::Normal overflow'')
       (\<lambda>i. Ok (Normal i))"
| "checked_add (Backfilled i) add =
     try_bind (ok_or (checked_i64 (sint i + sint add)) ''Count::Backfilled overflow'')
       (\<lambda>i. Ok (Backfilled i))"

fun checked_sub :: "count \<Rightarrow> u64 \<Rightarrow> string + count" where
  "checked_sub (Normal i) sub =
     try_bind (ok_or (checked_u64 (uint i - uint sub)) ''Count::Normal underflow'')
       (\<lambda>i. Ok (Normal i))"
| "checked_sub (Backfilled i) sub =
     try_bind (ok_or (checked_i64 (sint i - sint sub)) ''Count::Backfilled underflow'')
       (\<lambda>i. Ok (Backfilled i))"

fun checked_inc :: "count \<Rightarrow> direction \<Rightarrow> string + count" where
  "checked_inc c Forward = checked_add c 1"
| "checked_inc c Backward = checked_sub c 1"

fun count_saturating_add :: "count \<Rightarrow> u64 \<Rightarrow> count" where
  "count_saturating_add (Normal i) add = Normal (saturate_u64 (uint i + uint add))"
| "count_saturating_add (Backfilled i) add = Backfilled (saturate_i64 (sint i + sint add))"

fun count_saturating_sub :: "count \<Rightarrow> u64 \<Rightarrow> count" where
  "count_saturating_sub (Normal i) sub = Normal (saturate_u64 (uint i - uint sub))"
| "count_saturating_sub (Backfilled i) sub = Backfilled (saturate_i64 (sint i - sint sub))"

fun count_saturating_inc :: "count \<Rightarrow> direction \<Rightarrow> count" where
  "count_saturating_inc c Forward = count_saturating_add c 1"
| "count_saturating_inc c Backward = count_saturating_sub c 1"

definition count_min :: count where
  "count_min = Backfilled (word_of_int i64_min)"

definition count_max :: count where
  "count_max = Normal (word_of_int i64_max)"

text \<open>\<open>Ord\<close> of counts.\<close>

definition count_less :: "count \<Rightarrow> count \<Rightarrow> bool" where
  "count_less a b \<longleftrightarrow> sint (into_signed a) < sint (into_signed b)"

section \<open>Identifiers\<close>

record pdu_id =
  shortroomid :: u64
  shorteventid :: count

datatype raw_id = RawNormal bytes | RawBackfilled bytes

definition RawId_from_Id :: "pdu_id \<Rightarrow> raw_id" where
  "RawId_from_Id i =
     (case shorteventid i of
        Normal n \<Rightarrow> RawNormal (to_be_bytes (shortroomid i) @ to_be_bytes n)
      | Backfilled n \<Rightarrow>
          RawBackfilled (to_be_bytes (shortroomid i) @ to_be_bytes 0 @ to_be_bytes n))"

fun as_bytes :: "raw_id \<Rightarrow> bytes" where
  "as_bytes (RawNormal raw) = raw"
| "as_bytes (RawBackfilled raw) = raw"

definition RawId_from_bytes :: "bytes \<Rightarrow> error + raw_id" where
  "RawId_from_bytes i =
     (if length i = 16 then Ok (RawNormal i)
      else if length i = 24 then Ok (RawBackfilled i)
      else Err (Panic ''unrecognized RawId length''))"

fun raw_shortroomid :: "raw_id \<Rightarrow> bytes" where
  "raw_shortroomid (RawNormal raw) = take 8 raw"
| "raw_shortroomid (RawBackfilled raw) = take 8 raw"

fun raw_shorteventid :: "raw_id \<Rightarrow> bytes" where
  "raw_shorteventid (RawNormal raw) = take 8 (drop 8 raw)"
| "raw_shorteventid (RawBackfilled raw) = take 8 (drop 16 raw)"

definition Id_from_RawId :: "raw_id \<Rightarrow> pdu_id" where
  "Id_from_RawId raw =
     \<lparr>shortroomid = from_be_bytes (raw_shortroomid raw),
      shorteventid = from_unsigned (from_be_bytes (raw_shorteventid raw))\<rparr>"

definition pdu_count :: "raw_id \<Rightarrow> count" where
  "pdu_count raw = shorteventid (Id_from_RawId raw)"

section \<open>Lemmas\<close>

text \<open>The counts the server hands out: positive ones, and negative ones for backfilled events.\<close>

fun valid_count :: "count \<Rightarrow> bool" where
  "valid_count (Normal n) \<longleftrightarrow> 0 < sint n"
| "valid_count (Backfilled n) \<longleftrightarrow> sint n < 0"

text \<open>How a signed word reads as an unsigned one.\<close>

lemma sint_cases: "sint (w :: i64) = (if uint w < 2 ^ 63 then uint w else uint w - 2 ^ 64)"
proof -
  have lt: "uint w < 2 ^ 64" using uint_bounded [of w] by simp
  have "sint w = (uint w + 2 ^ 63) mod 2 ^ 64 - 2 ^ 63"
    by (simp add: sint_uint signed_take_bit_eq_take_bit_shift take_bit_eq_mod)
  also have "(uint w + 2 ^ 63) mod 2 ^ 64
      = (if uint w < 2 ^ 63 then uint w + 2 ^ 63 else uint w - 2 ^ 63)"
  proof (cases "uint w < 2 ^ 63")
    case True
    then show ?thesis using uint_bounded [of w] by simp
  next
    case False
    have "(uint w + 2 ^ 63) mod 2 ^ 64 = (uint w - 2 ^ 63 + 2 ^ 64) mod 2 ^ 64"
      by (simp add: add.commute)
    also have "\<dots> = (uint w - 2 ^ 63) mod 2 ^ 64" by (rule mod_add_self2)
    also have "\<dots> = uint w - 2 ^ 63" using False lt by (intro mod_pos_pos_trivial) simp_all
    finally show ?thesis using False by simp
  qed
  finally show ?thesis by simp
qed

text \<open>Two's complement keeps the order among numbers of the same sign.\<close>

lemma sint_less_uint:
  assumes "(0 \<le> sint (v :: i64)) = (0 \<le> sint w)"
  shows "sint v < sint w \<longleftrightarrow> v < w"
  using assms uint_bounded [of v] uint_bounded [of w]
  by (auto simp: sint_cases word_less_def split: if_splits)

lemma length_as_bytes:
  "length (as_bytes (RawId_from_Id i)) = (case shorteventid i of Normal _ \<Rightarrow> 16 | Backfilled _ \<Rightarrow> 24)"
  by (simp add: RawId_from_Id_def split: count.split)

lemma zero_bytes_less:
  assumes "n \<noteq> 0"
  shows "to_be_bytes 0 @ xs < to_be_bytes n" and "\<not> to_be_bytes n < to_be_bytes 0 @ xs"
proof -
  have "to_be_bytes 0 < to_be_bytes n"
    using assms by (simp add: to_be_bytes_less_iff word_neq_0_conv [symmetric])
  then show lt: "to_be_bytes 0 @ xs < to_be_bytes n"
    using list_less_append [of "to_be_bytes 0" "to_be_bytes n" xs "[]"] by simp
  show "\<not> to_be_bytes n < to_be_bytes 0 @ xs" using lt by (rule order_less_not_sym)
qed

lemma raw_id_less:
  assumes "valid_count (shorteventid i)" and "valid_count (shorteventid j)"
  shows "as_bytes (RawId_from_Id i) < as_bytes (RawId_from_Id j) \<longleftrightarrow>
    shortroomid i < shortroomid j
    \<or> shortroomid i = shortroomid j \<and> count_less (shorteventid i) (shorteventid j)"
proof -
  note pre = list_less_append [of "to_be_bytes (shortroomid i)" "to_be_bytes (shortroomid j)"]
  have pos: "n \<noteq> 0" if "0 < sint n" for n :: i64 using that by auto
  show ?thesis
    using assms
    by (cases "shorteventid i"; cases "shorteventid j")
       (auto simp: RawId_from_Id_def pre to_be_bytes_less_iff count_less_def list_less_append
         zero_bytes_less pos sint_less_uint)
qed

section \<open>Properties\<close>

text \<open>
  C17: timeline identifiers survive the database. For every valid count, making the key of an
  identifier, reading the key from its bytes and decoding it gives the identifier back.
\<close>

theorem pdu_id_roundtrip:
  assumes "valid_count (shorteventid i)"
  shows "\<exists>raw. RawId_from_bytes (as_bytes (RawId_from_Id i)) = Ok raw \<and> Id_from_RawId raw = i"
proof (cases "shorteventid i")
  case (Normal n)
  then show ?thesis using assms
    by (cases i) (auto simp: RawId_from_Id_def RawId_from_bytes_def Id_from_RawId_def
        from_unsigned_def from_signed_def)
next
  case (Backfilled n)
  then show ?thesis using assms
    by (cases i) (auto simp: RawId_from_Id_def RawId_from_bytes_def Id_from_RawId_def
        from_unsigned_def from_signed_def)
qed

theorem pdu_id_roundtrip_witness:
  "\<exists>raw. RawId_from_bytes (as_bytes (RawId_from_Id \<lparr>shortroomid = 7, shorteventid = Backfilled (- 3)\<rparr>))
     = Ok raw \<and> Id_from_RawId raw = \<lparr>shortroomid = 7, shorteventid = Backfilled (- 3)\<rparr>"
  by (rule pdu_id_roundtrip) code_simp

text \<open>
  C18: the database iterates a room in timeline order. The keys of two events of a room with valid
  counts compare as the counts do, so backfilled events come before the others and each group is
  in order; keys of different rooms compare by room.
\<close>

theorem raw_id_order:
  assumes "valid_count (shorteventid i)" and "valid_count (shorteventid j)"
  shows "as_bytes (RawId_from_Id i) < as_bytes (RawId_from_Id j) \<longleftrightarrow>
    shortroomid i < shortroomid j
    \<or> shortroomid i = shortroomid j \<and> count_less (shorteventid i) (shorteventid j)"
  using assms by (rule raw_id_less)

theorem raw_id_order_witness:
  "as_bytes (RawId_from_Id \<lparr>shortroomid = 1, shorteventid = Backfilled (- 2)\<rparr>)
   < as_bytes (RawId_from_Id \<lparr>shortroomid = 1, shorteventid = Normal 5\<rparr>)"
  using raw_id_order [of "\<lparr>shortroomid = 1, shorteventid = Backfilled (- 2)\<rparr>"
      "\<lparr>shortroomid = 1, shorteventid = Normal 5\<rparr>"]
  by (simp add: count_less_def)

text \<open>
  C19: the step forward from the newest backfilled event goes the wrong way. The key after count
  \<open>-1\<close> sorts before the key of every backfilled event, so a forward iteration that is meant to
  start behind that event starts with all backfilled events again.
\<close>

theorem forward_step_rewinds:
  assumes "sint n < 0"
  shows "as_bytes (RawId_from_Id
       \<lparr>shortroomid = r, shorteventid = count_saturating_inc (Backfilled (- 1)) Forward\<rparr>)
     < as_bytes (RawId_from_Id \<lparr>shortroomid = r, shorteventid = Backfilled n\<rparr>)"
proof -
  have "count_saturating_inc (Backfilled (- 1)) Forward = Backfilled 0" by code_simp
  moreover have "n \<noteq> 0" using assms by auto
  then have "to_be_bytes 0 < to_be_bytes n"
    by (simp add: to_be_bytes_less_iff word_neq_0_conv [symmetric])
  ultimately show ?thesis by (simp add: RawId_from_Id_def list_less_append)
qed

theorem forward_step_rewinds_witness:
  "as_bytes (RawId_from_Id
       \<lparr>shortroomid = 1, shorteventid = count_saturating_inc (Backfilled (- 1)) Forward\<rparr>)
     < as_bytes (RawId_from_Id \<lparr>shortroomid = 1, shorteventid = Backfilled (- 1)\<rparr>)"
  by (rule forward_step_rewinds) simp

end
