(* ===== verification/Timeline.thy ===== *)
theory Timeline
  imports Event Pdu_Id
begin

text \<open>
  \<open>service/rooms/timeline/data.rs\<close> and \<open>service/rooms/outlier/mod.rs\<close>: where events are kept. The
  three column families are association lists; a stored JSON object is the event it deserialises
  to. \<open>get_pdu\<close> asks the timeline and the outliers at once and takes the first success, which is
  a parameter where both have the event. Iteration over the timeline is iteration over the keys in
  byte order.
\<close>

section \<open>Storing and fetching events\<close>

record timeline_db =
  eventid_pduid :: "(event_id \<times> bytes) list"
  pduid_pdu :: "(bytes \<times> event) list"
  eventid_outlierpdu :: "(event_id \<times> event) list"

definition empty_db :: timeline_db where
  "empty_db = \<lparr>eventid_pduid = [], pduid_pdu = [], eventid_outlierpdu = []\<rparr>"

definition get_pdu_id :: "timeline_db \<Rightarrow> event_id \<Rightarrow> bytes option" where
  "get_pdu_id db i = map_of (eventid_pduid db) i"

definition get_non_outlier_pdu :: "timeline_db \<Rightarrow> event_id \<Rightarrow> event option" where
  "get_non_outlier_pdu db i = Option.bind (get_pdu_id db i) (\<lambda>pduid. map_of (pduid_pdu db) pduid)"

definition get_pdu_outlier :: "timeline_db \<Rightarrow> event_id \<Rightarrow> event option" where
  "get_pdu_outlier db i = map_of (eventid_outlierpdu db) i"

definition get_pdu :: "(event_id \<Rightarrow> bool) \<Rightarrow> timeline_db \<Rightarrow> event_id \<Rightarrow> event option" where
  "get_pdu outlier_first db i =
     (case (get_non_outlier_pdu db i, get_pdu_outlier db i) of
        (Some accepted, Some outlier) \<Rightarrow> Some (if outlier_first i then outlier else accepted)
      | (Some accepted, None) \<Rightarrow> Some accepted
      | (None, outlier) \<Rightarrow> outlier)"

definition non_outlier_pdu_exists :: "timeline_db \<Rightarrow> event_id \<Rightarrow> bool" where
  "non_outlier_pdu_exists db i =
     (case get_pdu_id db i of Some pduid \<Rightarrow> map_of (pduid_pdu db) pduid \<noteq> None | None \<Rightarrow> False)"

definition outlier_pdu_exists :: "timeline_db \<Rightarrow> event_id \<Rightarrow> bool" where
  "outlier_pdu_exists db i \<longleftrightarrow> map_of (eventid_outlierpdu db) i \<noteq> None"

definition pdu_exists :: "timeline_db \<Rightarrow> event_id \<Rightarrow> bool" where
  "pdu_exists db i \<longleftrightarrow> non_outlier_pdu_exists db i \<or> outlier_pdu_exists db i"

definition get_pdu_from_id :: "timeline_db \<Rightarrow> raw_id \<Rightarrow> event option" where
  "get_pdu_from_id db pduid = map_of (pduid_pdu db) (as_bytes pduid)"

definition get_pdu_count :: "timeline_db \<Rightarrow> event_id \<Rightarrow> error + count" where
  "get_pdu_count db i =
     try_bind (ok_or (get_pdu_id db i) (NotFound [])) (\<lambda>pduid.
     try_bind (RawId_from_bytes pduid) (\<lambda>raw. Ok (pdu_count raw)))"

text \<open>\<open>append_pdu\<close> and \<open>prepend_backfill_pdu\<close> write the same three families.\<close>

definition prepend_backfill_pdu :: "raw_id \<Rightarrow> event_id \<Rightarrow> event \<Rightarrow> timeline_db \<Rightarrow> timeline_db" where
  "prepend_backfill_pdu pduid i json db =
     db\<lparr>pduid_pdu := AList.update (as_bytes pduid) json (pduid_pdu db),
        eventid_pduid := AList.update i (as_bytes pduid) (eventid_pduid db),
        eventid_outlierpdu := AList.delete i (eventid_outlierpdu db)\<rparr>"

definition append_pdu :: "raw_id \<Rightarrow> event \<Rightarrow> event \<Rightarrow> timeline_db \<Rightarrow> timeline_db" where
  "append_pdu pduid pdu json db =
     db\<lparr>pduid_pdu := AList.update (as_bytes pduid) json (pduid_pdu db),
        eventid_pduid := AList.update (ev_id pdu) (as_bytes pduid) (eventid_pduid db),
        eventid_outlierpdu := AList.delete (ev_id pdu) (eventid_outlierpdu db)\<rparr>"

definition replace_pdu :: "raw_id \<Rightarrow> event \<Rightarrow> timeline_db \<Rightarrow> error + timeline_db" where
  "replace_pdu pduid json db =
     (if map_of (pduid_pdu db) (as_bytes pduid) = None then Err (NotFound ''PDU does not exist.'')
      else Ok (db\<lparr>pduid_pdu := AList.update (as_bytes pduid) json (pduid_pdu db)\<rparr>))"

definition add_pdu_outlier :: "event_id \<Rightarrow> event \<Rightarrow> timeline_db \<Rightarrow> timeline_db" where
  "add_pdu_outlier i pdu db =
     db\<lparr>eventid_outlierpdu := AList.update i pdu (eventid_outlierpdu db)\<rparr>"

section \<open>Iterating a room\<close>

definition raw_stream_from :: "timeline_db \<Rightarrow> bytes \<Rightarrow> (bytes \<times> event) list" where
  "raw_stream_from db start = sort_key fst (filter (\<lambda>kv. start \<le> fst kv) (pduid_pdu db))"

definition rev_raw_stream_from :: "timeline_db \<Rightarrow> bytes \<Rightarrow> (bytes \<times> event) list" where
  "rev_raw_stream_from db start = rev (sort_key fst (filter (\<lambda>kv. fst kv \<le> start) (pduid_pdu db)))"

definition count_to_id :: "(string \<Rightarrow> u64 option) \<Rightarrow> string \<Rightarrow> count \<Rightarrow> direction \<Rightarrow> error + raw_id" where
  "count_to_id get_shortroomid room_id c dir =
     try_bind (ok_or (get_shortroomid room_id) (NotFound room_id)) (\<lambda>short.
       Ok (RawId_from_Id \<lparr>shortroomid = short, shorteventid = count_saturating_inc c dir\<rparr>))"

definition each_pdu :: "bytes \<times> event \<Rightarrow> error + (count \<times> event)" where
  "each_pdu item =
     try_bind (RawId_from_bytes (fst item)) (\<lambda>raw. Ok (pdu_count raw, snd item))"

definition pdus :: "(string \<Rightarrow> u64 option) \<Rightarrow> timeline_db \<Rightarrow> string \<Rightarrow> count
    \<Rightarrow> error + (error + (count \<times> event)) list" where
  "pdus get_shortroomid db room_id from =
     try_bind (count_to_id get_shortroomid room_id from Forward) (\<lambda>current.
       Ok (map each_pdu (takeWhile (\<lambda>kv. starts_with (fst kv) (raw_shortroomid current))
             (raw_stream_from db (as_bytes current)))))"

definition pdus_rev :: "(string \<Rightarrow> u64 option) \<Rightarrow> timeline_db \<Rightarrow> string \<Rightarrow> count
    \<Rightarrow> error + (error + (count \<times> event)) list" where
  "pdus_rev get_shortroomid db room_id until =
     try_bind (count_to_id get_shortroomid room_id until Backward) (\<lambda>current.
       Ok (map each_pdu (takeWhile (\<lambda>kv. starts_with (fst kv) (raw_shortroomid current))
             (rev_raw_stream_from db (as_bytes current)))))"

text \<open>\<open>last_timeline_count\<close> and \<open>latest_pdu_in_room\<close> read the first item of the reverse stream.\<close>

definition first_item :: "(error + (count \<times> event)) list \<Rightarrow> error + (count \<times> event) option" where
  "first_item items =
     (case items of [] \<Rightarrow> Ok None | r # _ \<Rightarrow> try_bind r (\<lambda>item. Ok (Some item)))"

definition last_timeline_count :: "(string \<Rightarrow> u64 option) \<Rightarrow> timeline_db \<Rightarrow> string \<Rightarrow> error + count" where
  "last_timeline_count get_shortroomid db room_id =
     try_bind (pdus_rev get_shortroomid db room_id count_max) (\<lambda>items.
     try_bind (first_item items) (\<lambda>item.
       Ok (case item of
             Some (Normal n, _) \<Rightarrow> Normal n
           | _ \<Rightarrow> count_max)))"

definition latest_pdu_in_room :: "(string \<Rightarrow> u64 option) \<Rightarrow> timeline_db \<Rightarrow> string \<Rightarrow> error + event" where
  "latest_pdu_in_room get_shortroomid db room_id =
     try_bind (pdus_rev get_shortroomid db room_id count_max) (\<lambda>items.
     try_bind (first_item items) (\<lambda>item.
       ok_or (map_option snd item) (NotFound ''no PDU's found in room'')))"

section \<open>Well-formed stores\<close>

text \<open>Entries point to events with their own identifier; two events do not share a key.\<close>

definition wf_db :: "timeline_db \<Rightarrow> bool" where
  "wf_db db \<longleftrightarrow>
     (\<forall>i k. map_of (eventid_pduid db) i = Some k \<longrightarrow>
        (\<exists>e. map_of (pduid_pdu db) k = Some e \<and> ev_id e = i))
   \<and> (\<forall>i e. map_of (eventid_outlierpdu db) i = Some e \<longrightarrow> ev_id e = i)"

text \<open>
  The operations as the server performs them: new events get keys that no event has, and a stored
  event is only replaced by an event with its identifier.
\<close>

inductive db_step :: "timeline_db \<Rightarrow> timeline_db \<Rightarrow> bool" where
  append: "ev_id json = ev_id pdu \<Longrightarrow> as_bytes pduid \<notin> fst ` set (pduid_pdu db) \<Longrightarrow>
    db_step db (append_pdu pduid pdu json db)"
| backfill: "ev_id json = i \<Longrightarrow> as_bytes pduid \<notin> fst ` set (pduid_pdu db) \<Longrightarrow>
    db_step db (prepend_backfill_pdu pduid i json db)"
| replace: "map_of (pduid_pdu db) (as_bytes pduid) = Some old \<Longrightarrow> ev_id json = ev_id old \<Longrightarrow>
    replace_pdu pduid json db = Ok db' \<Longrightarrow> db_step db db'"
| outlier: "ev_id pdu = i \<Longrightarrow> db_step db (add_pdu_outlier i pdu db)"

inductive_cases db_stepE: "db_step db db'"

lemma wf_db_put:
  assumes "wf_db db" and "ev_id json = i" and "k \<notin> fst ` set (pduid_pdu db)"
  shows "wf_db (db\<lparr>pduid_pdu := AList.update k json (pduid_pdu db),
        eventid_pduid := AList.update i k (eventid_pduid db),
        eventid_outlierpdu := AList.delete i (eventid_outlierpdu db)\<rparr>)"
proof -
  have fresh: "map_of (pduid_pdu db) k = None" using assms(3) by (simp add: map_of_eq_None_iff)
  then have "k \<noteq> k'" if "map_of (eventid_pduid db) j = Some k'" for j k'
    using assms(1) that unfolding wf_db_def by fastforce
  then show ?thesis
    using assms(1,2) unfolding wf_db_def
    by (auto simp: AList.update_conv' AList.delete_conv' split: if_splits)
qed

lemma wf_db_step: "db_step db db' \<Longrightarrow> wf_db db \<Longrightarrow> wf_db db'"
proof (induction rule: db_step.induct)
  case (append json pdu pduid db)
  then show ?case unfolding append_pdu_def by (intro wf_db_put)
next
  case (backfill json i pduid db)
  then show ?case unfolding prepend_backfill_pdu_def by (intro wf_db_put)
next
  case (replace db pduid old json db')
  then show ?case
    by (fastforce simp: replace_pdu_def wf_db_def AList.update_conv')
next
  case (outlier pdu i db)
  then show ?case by (simp add: add_pdu_outlier_def wf_db_def AList.update_conv')
qed

lemma wf_empty_db: "wf_db empty_db"
  by (simp add: wf_db_def empty_db_def)

lemma reachable_wf_db: "db_step\<^sup>*\<^sup>* empty_db db \<Longrightarrow> wf_db db"
  by (induction rule: rtranclp_induct) (auto simp: wf_empty_db wf_db_step)

interpretation timeline: event_store "get_pdu outlier_first" wf_db for outlier_first
proof
  fix s i e
  assume "wf_db s" "get_pdu outlier_first s i = Some e"
  then show "ev_id e = i"
    unfolding wf_db_def get_pdu_def get_non_outlier_pdu_def get_pdu_id_def get_pdu_outlier_def
    by (fastforce split: option.splits if_splits bind_splits)
qed

text \<open>Fetching and asking for existence agree.\<close>

lemma pdu_exists_iff: "pdu_exists db i \<longleftrightarrow> get_pdu r db i \<noteq> None"
  by (auto simp: pdu_exists_def non_outlier_pdu_exists_def outlier_pdu_exists_def get_pdu_def
      get_non_outlier_pdu_def get_pdu_outlier_def split: option.splits bind_splits)

section \<open>Iteration\<close>

definition wf_keys :: "timeline_db \<Rightarrow> bool" where
  "wf_keys db \<longleftrightarrow> distinct (map fst (pduid_pdu db))
   \<and> (\<forall>k \<in> fst ` set (pduid_pdu db). \<exists>i. valid_count (shorteventid i) \<and> k = as_bytes (RawId_from_Id i))"

lemma wf_keys_mem:
  "wf_keys db \<Longrightarrow> x \<in> set (pduid_pdu db) \<Longrightarrow>
   \<exists>i. valid_count (shorteventid i) \<and> fst x = as_bytes (RawId_from_Id i)"
  unfolding wf_keys_def by (metis imageI)

lemma starts_with_room:
  "starts_with (as_bytes (RawId_from_Id i)) (raw_shortroomid (RawId_from_Id j))
     \<longleftrightarrow> shortroomid i = shortroomid j"
  by (auto simp: starts_with_def RawId_from_Id_def split: count.split)

lemma sint_word_of_int:
  assumes "i64_min \<le> r" and "r \<le> i64_max"
  shows "sint (word_of_int r :: i64) = r"
proof (cases "0 \<le> r")
  case True
  then have "uint (word_of_int r :: i64) = r"
    using assms by (simp add: uint_word_of_int i64_max_def)
  then show ?thesis using True assms by (simp add: sint_cases i64_max_def)
next
  case False
  have "r mod 2 ^ 64 = (r + 2 ^ 64) mod 2 ^ 64" by simp
  also have "\<dots> = r + 2 ^ 64"
    using False assms(1) by (intro mod_pos_pos_trivial) (simp_all add: i64_min_def)
  finally have "uint (word_of_int r :: i64) = r + 2 ^ 64" by (simp add: uint_word_of_int)
  then show ?thesis using False assms(1) by (simp add: sint_cases i64_min_def)
qed

lemma sint_ge_min: "i64_min \<le> sint (w :: i64)"
  by (simp add: sint_cases i64_min_def order_trans [OF _ uint_nonnegative])

text \<open>A step forward between valid counts is a step of one.\<close>

lemma forward_step:
  assumes "valid_count c" and "valid_count (count_saturating_inc c Forward)"
  shows "sint (into_signed (count_saturating_inc c Forward)) = sint (into_signed c) + 1"
proof (cases c)
  case (Normal n)
  have n: "uint n < 2 ^ 63" using assms(1) uint_bounded [of n] by (simp add: Normal sint_cases split: if_splits)
  then have inc: "saturate_u64 (uint n + 1) = n + 1"
    by (simp add: saturate_u64_def u64_max_def)
  have "uint (n + 1) = (uint n + 1) mod 2 ^ 64" by (simp add: uint_word_arith_bintrs(1) take_bit_eq_mod)
  also have "\<dots> = uint n + 1" using n uint_nonnegative [of n] by (intro mod_pos_pos_trivial) simp_all
  finally have "uint (n + 1) = uint n + 1" .
  then show ?thesis using n assms(2) by (simp add: Normal inc sint_cases split: if_splits)
next
  case (Backfilled n)
  have "sint (word_of_int (sint n + 1) :: i64) = sint n + 1"
    using assms(1) sint_ge_min [of n]
    by (intro sint_word_of_int) (simp_all add: Backfilled i64_max_def)
  moreover have "saturate_i64 (sint n + sint (1 :: u64)) = word_of_int (sint n + 1)"
    using assms(1) sint_ge_min [of n] by (simp add: Backfilled saturate_i64_def i64_max_def)
  ultimately show ?thesis by (simp add: Backfilled)
qed

lemma each_pdu_valid:
  assumes "valid_count (shorteventid i)"
  shows "each_pdu (as_bytes (RawId_from_Id i), e) = Ok (shorteventid i, e)"
  using assms
  by (cases "shorteventid i")
     (auto simp: each_pdu_def RawId_from_bytes_def RawId_from_Id_def pdu_count_def Id_from_RawId_def
       from_unsigned_def from_signed_def)

lemma raw_id_le:
  assumes "valid_count (shorteventid i)" and "valid_count (shorteventid j)"
    and "shortroomid i = shortroomid j"
  shows "as_bytes (RawId_from_Id i) \<le> as_bytes (RawId_from_Id j)
     \<longleftrightarrow> sint (into_signed (shorteventid i)) \<le> sint (into_signed (shorteventid j))"
  using raw_id_less [OF assms(2,1)] assms(3) by (auto simp: not_less [symmetric] count_less_def)

text \<open>The forward stream of a room, before the keys are decoded.\<close>

lemma forward_stream:
  assumes "wf_keys db" and "valid_count c"
    and start_def: "start = RawId_from_Id \<lparr>shortroomid = room, shorteventid = c\<rparr>"
  shows "takeWhile (\<lambda>kv. starts_with (fst kv) (raw_shortroomid start))
      (raw_stream_from db (as_bytes start))
    = sort_key fst (filter (\<lambda>kv. as_bytes start \<le> fst kv \<and> starts_with (fst kv) (raw_shortroomid start))
        (pduid_pdu db))"
proof -
  let ?P = "\<lambda>kv :: bytes \<times> event. starts_with (fst kv) (raw_shortroomid start)"
  have "?P x" if x: "x \<in> set (raw_stream_from db (as_bytes start))"
    and y: "y \<in> set (raw_stream_from db (as_bytes start))" and le: "fst x \<le> fst y" and P: "?P y" for x y
  proof -
    obtain i where i: "valid_count (shorteventid i)" "fst x = as_bytes (RawId_from_Id i)"
      using wf_keys_mem [OF assms(1), of x] x by (auto simp: raw_stream_from_def)
    obtain j where j: "valid_count (shorteventid j)" "fst y = as_bytes (RawId_from_Id j)"
      using wf_keys_mem [OF assms(1), of y] y by (auto simp: raw_stream_from_def)
    have room: "shortroomid j = room" using P by (simp add: j(2) start_def starts_with_room)
    have "\<not> as_bytes (RawId_from_Id i) < as_bytes start"
      using x i(2) by (auto simp: raw_stream_from_def)
    then have "\<not> shortroomid i < room"
      using raw_id_less [OF i(1), of "\<lparr>shortroomid = room, shorteventid = c\<rparr>"] assms(2)
      by (simp add: start_def)
    moreover have "\<not> as_bytes (RawId_from_Id j) < as_bytes (RawId_from_Id i)" using le i j by simp
    then have "\<not> room < shortroomid i" using raw_id_less [OF j(1) i(1)] room by simp
    ultimately have "shortroomid i = room" by simp
    then show ?thesis by (simp add: i(2) start_def starts_with_room)
  qed
  then have "takeWhile ?P (raw_stream_from db (as_bytes start))
      = filter ?P (raw_stream_from db (as_bytes start))"
    by (intro takeWhile_sorted [of fst]) (simp_all add: raw_stream_from_def)
  also have "\<dots> = sort_key fst (filter (\<lambda>kv. as_bytes start \<le> fst kv \<and> ?P kv) (pduid_pdu db))"
    by (simp add: raw_stream_from_def filter_sort conj_commute)
  finally show ?thesis .
qed

text \<open>The items a forward stream starting at a valid count decodes to.\<close>

lemma decode_item:
  assumes "wf_keys db" and "kv \<in> set (pduid_pdu db)"
    and "starts_with (fst kv) (raw_shortroomid (RawId_from_Id \<lparr>shortroomid = room, shorteventid = c\<rparr>))"
  obtains d where "valid_count d" "fst kv = as_bytes (RawId_from_Id \<lparr>shortroomid = room, shorteventid = d\<rparr>)"
    "each_pdu kv = Ok (d, snd kv)"
proof -
  obtain i where i: "valid_count (shorteventid i)" "fst kv = as_bytes (RawId_from_Id i)"
    using wf_keys_mem [OF assms(1,2)] by auto
  have "i = \<lparr>shortroomid = room, shorteventid = shorteventid i\<rparr>"
    using assms(3) starts_with_room [of i "\<lparr>shortroomid = room, shorteventid = c\<rparr>"]
    by (cases i) (simp add: i(2))
  moreover have "each_pdu kv = Ok (shorteventid i, snd kv)"
    using each_pdu_valid [OF i(1), of "snd kv"] i(2) by (metis prod.collapse)
  ultimately show thesis using that [of "shorteventid i"] i by metis
qed

lemma decode_list:
  assumes "\<forall>kv \<in> set s. \<exists>d. valid_count d \<and> each_pdu kv = Ok (d, snd kv)
      \<and> fst kv = as_bytes (RawId_from_Id \<lparr>shortroomid = room, shorteventid = d\<rparr>)"
  shows "\<exists>items. map each_pdu s = map Ok items
    \<and> map (\<lambda>(d, e). as_bytes (RawId_from_Id \<lparr>shortroomid = room, shorteventid = d\<rparr>)) items = map fst s
    \<and> set items = {(d, e). valid_count d
         \<and> (as_bytes (RawId_from_Id \<lparr>shortroomid = room, shorteventid = d\<rparr>), e) \<in> set s}"
  using assms
proof (induction s)
  case (Cons kv s)
  let ?key = "\<lambda>d. as_bytes (RawId_from_Id \<lparr>shortroomid = room, shorteventid = d\<rparr>)"
  have "\<forall>kv \<in> set s. \<exists>d. valid_count d \<and> each_pdu kv = Ok (d, snd kv) \<and> fst kv = ?key d"
    using Cons.prems by (meson list.set_intros(2))
  from Cons.IH [OF this] obtain items where items: "map each_pdu s = map Ok items"
    "map (\<lambda>(d, e). ?key d) items = map fst s"
    "set items = {(d, e). valid_count d \<and> (?key d, e) \<in> set s}" by blast
  from Cons.prems obtain d where d: "valid_count d" "each_pdu kv = Ok (d, snd kv)" "fst kv = ?key d"
    by (meson list.set_intros(1))
  have "(?key d', e') = kv \<longleftrightarrow> (d', e') = (d, snd kv)" if "valid_count d'" for d' e'
  proof
    assume "(?key d', e') = kv"
    then show "(d', e') = (d, snd kv)"
      using each_pdu_valid [of "\<lparr>shortroomid = room, shorteventid = d'\<rparr>" e'] that d(2) by auto
  qed (use d(3) in \<open>simp add: prod_eq_iff\<close>)
  then have "set ((d, snd kv) # items) = {(d, e). valid_count d \<and> (?key d, e) \<in> set (kv # s)}"
    unfolding list.set items(3) using d(1) by blast
  moreover have "map each_pdu (kv # s) = map Ok ((d, snd kv) # items)"
    using items(1) d(2) by (simp only: list.map)
  moreover have "map (\<lambda>(d, e). ?key d) ((d, snd kv) # items) = map fst (kv # s)"
    using items(2) d(3) by (simp only: list.map prod.case)
  ultimately show ?case by blast
qed simp

text \<open>An event for the witnesses.\<close>

definition sample_event :: event where
  "sample_event = \<lparr>ev_id = ''$a'', ev_room = ''!r'', ev_sender = ''@a'', ev_ts = 0, ev_type = RoomCreate,
     ev_content = [], ev_state_key = Some [], ev_prev_events = [], ev_auth_events = [],
     ev_redacts = None\<rparr>"

lemma sample_event_id [simp]: "ev_id sample_event = ''$a''"
  by (simp add: sample_event_def)

section \<open>Properties\<close>



text \<open>
  C21: appending an event stores it. Afterwards it is fetched from the timeline whatever the race
  between the two look-ups, it is no outlier any more, its count is the one of its key, and no other
  event of the timeline has changed.
\<close>

theorem append_pdu_stores:
  assumes "wf_db db" and "ev_id json = ev_id pdu" and "valid_count (shorteventid p)"
    and "as_bytes (RawId_from_Id p) \<notin> fst ` set (pduid_pdu db)"
  shows "let db' = append_pdu (RawId_from_Id p) pdu json db in
      get_pdu r db' (ev_id pdu) = Some json
    \<and> \<not> outlier_pdu_exists db' (ev_id pdu)
    \<and> get_pdu_count db' (ev_id pdu) = Ok (shorteventid p)
    \<and> (\<forall>i. i \<noteq> ev_id pdu \<longrightarrow> get_pdu r db' i = get_pdu r db i)
    \<and> wf_db db'"
proof -
  let ?db = "append_pdu (RawId_from_Id p) pdu json db"
  have key: "map_of (eventid_pduid db) i \<noteq> Some (as_bytes (RawId_from_Id p))" for i
    using assms(1,4) unfolding wf_db_def by (metis map_of_in_keys)
  have "get_pdu r ?db (ev_id pdu) = Some json" "\<not> outlier_pdu_exists ?db (ev_id pdu)"
    by (simp_all add: append_pdu_def get_pdu_def get_non_outlier_pdu_def get_pdu_id_def
        get_pdu_outlier_def outlier_pdu_exists_def AList.update_conv' AList.delete_conv')
  moreover have "get_pdu_count ?db (ev_id pdu) = Ok (shorteventid p)"
    using each_pdu_valid [OF assms(3), of json]
    by (auto simp: append_pdu_def get_pdu_count_def get_pdu_id_def AList.update_conv' each_pdu_def
        try_bind_eq_Ok)
  moreover have "get_pdu r ?db i = get_pdu r db i" if "i \<noteq> ev_id pdu" for i
    using that key [of i]
    by (cases "map_of (eventid_pduid db) i")
       (simp_all add: append_pdu_def get_pdu_def get_non_outlier_pdu_def get_pdu_id_def
         get_pdu_outlier_def AList.update_conv' AList.delete_conv')
  moreover have "wf_db ?db" by (rule wf_db_step [OF db_step.append assms(1)]) (use assms in auto)
  ultimately show ?thesis by (simp add: Let_def)
qed

theorem append_pdu_stores_witness:
  "let p = \<lparr>shortroomid = 1, shorteventid = Normal 4\<rparr>
   in get_pdu (\<lambda>_. True) (append_pdu (RawId_from_Id p) sample_event sample_event empty_db) ''$a'' = Some sample_event"
proof -
  have "valid_count (shorteventid \<lparr>shortroomid = 1, shorteventid = Normal 4\<rparr>)" by simp
  from append_pdu_stores [OF wf_empty_db refl [of "ev_id sample_event"] this] show ?thesis
    by (simp add: empty_db_def Let_def)
qed

text \<open>
  C22: forward iteration returns the timeline. From a valid count whose successor is valid, \<open>pdus\<close>
  yields, without panic, exactly the events of the room with a greater count, each with its count,
  in increasing order of their keys.
\<close>

theorem pdus_forward:
  assumes "wf_keys db" and "rooms room_id = Some room"
    and "valid_count c" and "valid_count (count_saturating_inc c Forward)"
  shows "\<exists>items. pdus rooms db room_id c = Ok (map Ok items)
    \<and> set items = {(d, e). valid_count d \<and> count_less c d
         \<and> (as_bytes (RawId_from_Id \<lparr>shortroomid = room, shorteventid = d\<rparr>), e) \<in> set (pduid_pdu db)}
    \<and> sorted (map (\<lambda>(d, e). as_bytes (RawId_from_Id \<lparr>shortroomid = room, shorteventid = d\<rparr>)) items)"
proof -
  let ?raw = "\<lambda>d. RawId_from_Id \<lparr>shortroomid = room, shorteventid = d\<rparr>"
  let ?c = "count_saturating_inc c Forward"
  let ?in = "\<lambda>kv :: bytes \<times> event. as_bytes (?raw ?c) \<le> fst kv
    \<and> starts_with (fst kv) (raw_shortroomid (?raw ?c))"
  let ?s = "sort_key fst (filter ?in (pduid_pdu db))"
  have stream: "pdus rooms db room_id c = Ok (map each_pdu ?s)"
    unfolding pdus_def count_to_id_def
    using assms(2) forward_stream [OF assms(1,4) refl, of room] by simp
  have "\<forall>kv \<in> set ?s. \<exists>d. valid_count d \<and> each_pdu kv = Ok (d, snd kv) \<and> fst kv = as_bytes (?raw d)"
    by (auto elim!: decode_item [OF assms(1)])
  from decode_list [OF this] obtain items where items: "map each_pdu ?s = map Ok items"
    "map (\<lambda>(d, e). as_bytes (?raw d)) items = map fst ?s"
    "set items = {(d, e). valid_count d \<and> (as_bytes (?raw d), e) \<in> set ?s}" by blast
  have "?in (as_bytes (?raw d), e) \<longleftrightarrow> count_less c d" if "valid_count d" for d e
    using raw_id_le [of "\<lparr>shortroomid = room, shorteventid = ?c\<rparr>"
        "\<lparr>shortroomid = room, shorteventid = d\<rparr>"] assms(4) forward_step [OF assms(3,4)] that
    by (simp add: count_less_def starts_with_room add1_zle_eq)
  then have "(as_bytes (?raw d), e) \<in> set ?s
      \<longleftrightarrow> count_less c d \<and> (as_bytes (?raw d), e) \<in> set (pduid_pdu db)" if "valid_count d" for d e
    using that unfolding set_sort set_filter by blast
  then have "set items = {(d, e). valid_count d \<and> count_less c d
      \<and> (as_bytes (?raw d), e) \<in> set (pduid_pdu db)}"
    unfolding items(3) by blast
  moreover have "sorted (map (\<lambda>(d, e). as_bytes (?raw d)) items)"
    unfolding items(2) by (rule sorted_sort_key)
  ultimately show ?thesis unfolding stream items(1) by blast
qed

theorem pdus_forward_witness:
  "let db = append_pdu (RawId_from_Id \<lparr>shortroomid = 1, shorteventid = Normal 4\<rparr>)
         sample_event sample_event empty_db
   in \<exists>items. pdus (\<lambda>_. Some 1) db ''!r'' (Normal 3) = Ok (map Ok items) \<and> (Normal 4, sample_event) \<in> set items"
proof -
  let ?p = "\<lparr>shortroomid = 1, shorteventid = Normal 4\<rparr>"
  let ?db = "append_pdu (RawId_from_Id ?p) sample_event sample_event empty_db"
  have db: "pduid_pdu ?db = [(as_bytes (RawId_from_Id ?p), sample_event)]"
    by (simp add: append_pdu_def empty_db_def)
  have "wf_keys ?db" unfolding wf_keys_def db by (auto intro!: exI [of _ ?p])
  moreover have "valid_count (Normal 3)" "valid_count (count_saturating_inc (Normal 3) Forward)"
    by code_simp+
  ultimately obtain items where "pdus (\<lambda>_. Some 1) ?db ''!r'' (Normal 3) = Ok (map Ok items)"
    "set items = {(d, e). valid_count d \<and> count_less (Normal 3) d
         \<and> (as_bytes (RawId_from_Id \<lparr>shortroomid = 1, shorteventid = d\<rparr>), e) \<in> set (pduid_pdu ?db)}"
    using pdus_forward [of ?db "\<lambda>_. Some 1" "''!r''" 1 "Normal 3"] by auto
  then show ?thesis by (auto simp: db count_less_def Let_def)
qed

end
