(* ===== verification/Resolution.thy ===== *)
theory Resolution
  imports Mainline Timeline
begin

text \<open>
  \<open>state_resolution\<close> of \<open>service/rooms/event_handler/resolve_state.rs\<close>: \<open>resolve\<close> with the events of
  the timeline and the outliers. What the result consists of, proved for every well-formed event
  store and used on the one of the server.
\<close>

definition event_fetch :: "(event_id \<Rightarrow> bool) \<Rightarrow> timeline_db \<Rightarrow> fetch" where
  "event_fetch outlier_first db i = get_pdu outlier_first db i"

definition event_exists :: "timeline_db \<Rightarrow> event_id \<Rightarrow> bool" where
  "event_exists db i = pdu_exists db i"

definition state_resolution :: "nat \<Rightarrow> ruma \<Rightarrow> sched \<Rightarrow> (event_id \<Rightarrow> bool) \<Rightarrow> timeline_db
    \<Rightarrow> room_version_id \<Rightarrow> event_id state_map list \<Rightarrow> event_id list list
    \<Rightarrow> error + event_id state_map" where
  "state_resolution fuel R S outlier_first db room_version state_sets auth_chain_sets =
     resolve fuel R S room_version state_sets auth_chain_sets (event_fetch outlier_first db)
       (event_exists db)"

section \<open>Events that pass the check\<close>

lemma map_of_fold_events:
  "map_of (fold (\<lambda>ev. AList.update (ev_id ev) ev) es m) i = Some e \<Longrightarrow>
   e \<in> set es \<and> ev_id e = i \<or> map_of m i = Some e"
proof (induction es arbitrary: m)
  case (Cons x es)
  from Cons.IH [of "AList.update (ev_id x) x m"] Cons.prems show ?case
    by (auto simp: AList.update_conv' split: if_splits)
qed simp

lemma set_map_filter: "e \<in> set (List.map_filter f xs) \<longleftrightarrow> (\<exists>x \<in> set xs. f x = Some e)"
  by (induction xs) (auto simp: List.map_filter_simps split: option.split)

lemma collect_auth_events_lookup:
  assumes "map_of (collect_auth_events S fe evs) i = Some e"
  shows "ev_id e = i \<and> (\<exists>j. fe j = Some e)"
proof -
  from map_of_fold_events [OF assms [unfolded collect_auth_events_def Let_def]]
  have "e \<in> set (List.map_filter fe (id_order S (remdups (concat (map ev_auth_events evs)))))"
    and "ev_id e = i" by simp_all
  then show ?thesis by (auto simp: set_map_filter)
qed

lemma check_one_Ok:
  assumes "check_one R S rv fe ae ev rs = Ok rs'"
  obtains key types auth_state accepted where
    "ev_state_key ev = Some key"
    "auth_types_for_event R (ev_type ev) (ev_sender ev) (Some key) (ev_content ev) = Ok types"
    "auth_check R rv ev (current_third_party S (add_resolved_state fe ae rs types auth_state))
       (\<lambda>ty k. map_of (add_resolved_state fe ae rs types auth_state) (ty, k)) = Ok accepted"
    "rs' = (if accepted then AList.update (ev_type ev, key) (ev_id ev) rs else rs)"
  using assms unfolding check_one_def
  by (auto simp: try_bind_eq_Ok ok_or_eq_Ok Let_def)

lemma accepted_atI:
  assumes "ev_state_key ev = Some key"
    and "auth_types_for_event R (ev_type ev) (ev_sender ev) (Some key) (ev_content ev) = Ok types"
    and "auth_check R rv ev tp (\<lambda>ty k. map_of st (ty, k)) = Ok True"
    and "\<And>k j e. k \<in> set types \<Longrightarrow> map_of rs k = Some j \<Longrightarrow> fe j = Some e \<Longrightarrow> map_of st k = Some e"
  shows "accepted_at fe R rv ev (ev_type ev, key)"
  unfolding accepted_at_def fst_conv snd_conv
proof (intro conjI exI)
  show "\<forall>k \<in> set types. \<forall>j e. map_of rs k = Some j \<and> fe j = Some e \<longrightarrow> map_of st k = Some e"
    using assms(4) by blast
qed (use assms in simp_all)

context event_store
begin

lemma check_one_source:
  assumes "well_formed s" and "\<And>i e. map_of ae i = Some e \<Longrightarrow> find_event s i = Some e"
    and "find_event s i = Some ev"
    and "check_one R S rv (find_event s) ae ev rs = Ok rs'"
  shows "rs' = rs \<or> (\<exists>key. rs' = AList.update (ev_type ev, key) i rs
      \<and> accepted_at (find_event s) R rv ev (ev_type ev, key))"
proof -
  from assms(4) obtain key types st accepted where
    key: "ev_state_key ev = Some key"
    and types: "auth_types_for_event R (ev_type ev) (ev_sender ev) (Some key) (ev_content ev) = Ok types"
    and chk: "auth_check R rv ev (current_third_party S (add_resolved_state (find_event s) ae rs types st))
       (\<lambda>ty k. map_of (add_resolved_state (find_event s) ae rs types st) (ty, k)) = Ok accepted"
    and rs': "rs' = (if accepted then AList.update (ev_type ev, key) (ev_id ev) rs else rs)"
    by (rule check_one_Ok)
  have look: "map_of (add_resolved_state (find_event s) ae rs types st) k = Some e"
    if "k \<in> set types" "map_of rs k = Some j" "find_event s j = Some e" for k j e
    using that assms(2)
    by (cases "map_of ae j") (auto simp: map_of_add_resolved_state resolved_event_def)
  have "accepted_at (find_event s) R rv ev (ev_type ev, key)" if accepted
  proof (rule accepted_atI [OF key types])
    show "auth_check R rv ev (current_third_party S (add_resolved_state (find_event s) ae rs types st))
       (\<lambda>ty k. map_of (add_resolved_state (find_event s) ae rs types st) (ty, k)) = Ok True"
      using chk that by simp
  qed (rule look)
  then show ?thesis using rs' find_event_id [OF assms(1,3)] by auto
qed

text \<open>
  Every entry of the state after the checks was there before, or is an event of the list that
  passed its check; and no key is lost.
\<close>

lemma check_each_source:
  assumes "well_formed s" and "\<And>i e. map_of ae i = Some e \<Longrightarrow> find_event s i = Some e"
  shows "check_each R S rv (find_event s) ae evs rs = Ok rs' \<Longrightarrow> map find_event_s ids = map Some evs \<Longrightarrow>
    find_event_s = find_event s \<Longrightarrow> map_of rs' k = Some i \<Longrightarrow>
    map_of rs k = Some i \<or> (i \<in> set ids \<and> (\<exists>ev. find_event s i = Some ev
       \<and> accepted_at (find_event s) R rv ev k))"
proof (induction evs arbitrary: rs ids)
  case (Cons ev evs)
  from Cons.prems(2) obtain j js where ids: "ids = j # js" "map find_event_s js = map Some evs"
    "find_event s j = Some ev" using Cons.prems(3) by (cases ids) auto
  from Cons.prems(1) obtain rs1 where
    one: "check_one R S rv (find_event s) ae ev rs = Ok rs1"
    and rest: "check_each R S rv (find_event s) ae evs rs1 = Ok rs'"
    by (auto simp: try_bind_eq_Ok)
  from Cons.IH [OF rest ids(2) Cons.prems(3,4)] show ?case
    using check_one_source [OF assms ids(3) one] ids
    by (auto simp: AList.update_conv' split: if_splits)
qed simp

lemma iterative_source:
  assumes "well_formed s" and "sched_ok S"
    and "iterative_auth_check R S rv ids rs (find_event s) = Ok rs'" and "map_of rs' k = Some i"
  shows "map_of rs k = Some i \<or> (i \<in> set ids \<and> (\<exists>ev. find_event s i = Some ev
       \<and> accepted_at (find_event s) R rv ev k))"
proof -
  from assms(3) obtain evs where evs: "fetch_all (find_event s) (id_order S ids) = Ok evs"
    and chk: "check_each R S rv (find_event s) (collect_auth_events S (find_event s) evs) evs rs = Ok rs'"
    by (auto simp: iterative_auth_check_def try_bind_eq_Ok)
  have "find_event s j = Some e" if "map_of (collect_auth_events S (find_event s) evs) j = Some e" for j e
    using collect_auth_events_lookup [OF that] find_event_id [OF assms(1)] by blast
  from check_each_source [OF assms(1) this chk fetch_all_Ok [OF evs] refl assms(4)]
  show ?thesis using sched_set [OF assms(2)] by simp
qed

end

section \<open>The resolved state\<close>

lemma distinct_check_one:
  "check_one R S rv fe ae ev rs = Ok rs' \<Longrightarrow> distinct (map fst rs) \<Longrightarrow> distinct (map fst rs')"
  by (erule check_one_Ok) (auto simp: AList.distinct_update)

lemma topo_sort_subset:
  assumes "wf_graph g" and "lexicographical_topological_sort g key = Ok xs"
  shows "set xs \<subseteq> fst ` set g"
  using topo_sort_result [OF assms(1), of key] assms(2) greedy_closed(2) [of g key xs] by auto

lemma reverse_sort_subset:
  assumes "reverse_topological_power_sort R S fe evs diff = Ok xs" and "set evs \<subseteq> set diff"
  shows "set xs \<subseteq> set diff"
proof -
  from assms(1) obtain pls where
    "lexicographical_topological_sort (power_graph fe diff evs) (fetcher fe pls) = Ok xs"
    by (auto simp: reverse_topological_power_sort_def Let_def try_bind_eq_Ok)
  moreover have "wf_graph (power_graph fe diff evs)"
    using power_graph_result(1) [of fe diff evs] by (simp add: graph_inv_def)
  ultimately have "set xs \<subseteq> {i. chained fe diff (set evs) i}"
    using topo_sort_subset power_graph_result(2) by blast
  moreover have "i \<in> set diff" if "chained fe diff (set evs) i" for i
    using that assms(2) by induction auto
  ultimately show ?thesis by blast
qed

lemma mainline_sort_subset:
  assumes "sched_ok S" and "mainline_sort fuel S fe to_sort pl = Ok xs"
  shows "set xs \<subseteq> set to_sort"
proof (cases "to_sort = []")
  case True
  then show ?thesis using assms(2) by (simp add: mainline_sort_def)
next
  case False
  with assms(2) obtain mainline where m: "build_mainline fuel fe pl [] = Ok mainline"
    by (auto simp: mainline_sort_def try_bind_eq_Ok)
  show ?thesis using mainline_sort_Ok [OF assms(1) False m] assms(2) by (auto split: if_splits)
qed

context event_store
begin

lemma resolve_conflicts_source:
  assumes "well_formed s" and "sched_ok S" and "distinct (map fst clean)"
    and "resolve_conflicts fuel R S ver clean confl (find_event s) = Ok m"
  shows "map_of clean k = Some i \<Longrightarrow> map_of m k = Some i"
    and "map_of m k = Some i \<Longrightarrow> map_of clean k = Some i \<or> (i \<in> set confl
      \<and> (\<exists>rv ev. RoomVersion_new ver = Ok rv \<and> find_event s i = Some ev
          \<and> accepted_at (find_event s) R rv ev k))"
proof -
  let ?ctrl = "filter (is_power_event_id R (find_event s)) (id_order S confl)"
  from assms(4) obtain sorted_ctrl rv ctrl left res where
    sorted_ctrl: "reverse_topological_power_sort R S (find_event s) ?ctrl confl = Ok sorted_ctrl"
    and rv: "RoomVersion_new ver = Ok rv"
    and ctrl: "iterative_auth_check R S rv sorted_ctrl clean (find_event s) = Ok ctrl"
    and left: "mainline_sort fuel S (find_event s) (filter (\<lambda>i. i \<notin> set sorted_ctrl) confl)
        (map_of ctrl (RoomPowerLevels, [])) = Ok left"
    and res: "iterative_auth_check R S rv left ctrl (find_event s) = Ok res"
    and m: "m = hm_extend res clean"
    by (auto simp: resolve_conflicts_def Let_def try_bind_eq_Ok)
  have look: "map_of m k = (case map_of clean k of Some i \<Rightarrow> Some i | None \<Rightarrow> map_of res k)"
    by (simp add: m map_of_hm_extend [OF assms(3)] map_add_def)
  then show "map_of clean k = Some i \<Longrightarrow> map_of m k = Some i" by simp
  have "set ?ctrl \<subseteq> set confl" using sched_set [OF assms(2)] by auto
  note sub = reverse_sort_subset [OF sorted_ctrl this] mainline_sort_subset [OF assms(2) left]
  assume "map_of m k = Some i"
  then consider "map_of clean k = Some i" | "map_of res k = Some i"
    using look by (auto split: option.splits)
  then show "map_of clean k = Some i \<or> (i \<in> set confl
      \<and> (\<exists>rv ev. RoomVersion_new ver = Ok rv \<and> find_event s i = Some ev
          \<and> accepted_at (find_event s) R rv ev k))"
    using iterative_source [OF assms(1,2) res, of k i] iterative_source [OF assms(1,2) ctrl, of k i]
      sub rv by cases auto
qed

end

text \<open>The events that may enter the state: in conflict, or in the difference of the auth chains.\<close>

lemma full_conflicted_mem:
  assumes "sched_ok S" and "distinct (map fst confl)"
    and "i \<in> set (full_conflicted_set ex S chs confl)"
  shows "ex i" and "i \<in> set (get_auth_chain_diff chs) \<or> (\<exists>k. i \<in> ids_at confl k)"
proof -
  have "i \<in> set (get_auth_chain_diff chs) \<or> (\<exists>k vs. (k, vs) \<in> set confl \<and> i \<in> set vs)" and "ex i"
    using assms(3) unfolding full_conflicted_set_def by (auto simp: sched_set [OF assms(1)])
  moreover have "i \<in> ids_at confl k" if "(k, vs) \<in> set confl" "i \<in> set vs" for k vs
  proof -
    have "map_of confl k = Some vs" using that(1) map_of_iff_mem [OF assms(2)] by blast
    with that(2) show ?thesis by (simp add: ids_at_def)
  qed
  ultimately show "ex i" and "i \<in> set (get_auth_chain_diff chs) \<or> (\<exists>k. i \<in> ids_at confl k)"
    by blast+
qed

section \<open>A room with a conflict\<close>

text \<open>
  A room created by \<open>@a\<close>, who is its member and sets power levels; and two topics, \<open>$t\<close> and \<open>$u\<close>, on
  which the two state sets differ.
\<close>

definition conflict_event :: "event_id \<Rightarrow> event_type \<Rightarrow> string \<Rightarrow> string \<Rightarrow> event_id list \<Rightarrow> nat \<Rightarrow> event" where
  "conflict_event i ty key content auth ts =
     (demo_event i ''@a'' ty (Some key) content)\<lparr>ev_auth_events := auth, ev_ts := ts\<rparr>"

definition conflict_events :: "event list" where
  "conflict_events =
     [conflict_event ''$c'' RoomCreate [] ''create'' [] 1,
      conflict_event ''$m'' RoomMember ''@a'' ''join'' [''$c''] 2,
      conflict_event ''$p'' RoomPowerLevels [] ''pl'' [''$c'', ''$m''] 3,
      conflict_event ''$t'' (CustomType ''topic'') [] ''x'' [''$c'', ''$m'', ''$p''] 4,
      conflict_event ''$u'' (CustomType ''topic'') [] ''y'' [''$c'', ''$m'', ''$p''] 5]"

definition conflict_db :: timeline_db where
  "conflict_db = fold (\<lambda>ev. add_pdu_outlier (ev_id ev) ev) conflict_events empty_db"

definition conflict_sets :: "event_id state_map list" where
  "conflict_sets =
     (let base = [((RoomCreate, []), ''$c''), ((RoomMember, ''@a''), ''$m''), ((RoomPowerLevels, []), ''$p'')]
      in [base @ [((CustomType ''topic'', []), ''$t'')], base @ [((CustomType ''topic'', []), ''$u'')]])"

definition conflict_chains :: "event_id list list" where
  "conflict_chains = [[''$c'', ''$m'', ''$p''], [''$c'', ''$m'', ''$p'']]"

lemma conflict_db_reachable: "db_step\<^sup>*\<^sup>* empty_db conflict_db"
proof -
  have "db_step\<^sup>*\<^sup>* db (fold (\<lambda>ev. add_pdu_outlier (ev_id ev) ev) evs db)" for evs db
  proof (induction evs arbitrary: db)
    case (Cons ev evs)
    then show ?case
      using db_step.outlier [OF refl, of db ev]
      by (auto intro: converse_rtranclp_into_rtranclp)
  qed simp
  then show ?thesis unfolding conflict_db_def .
qed

lemma conflict_separate:
  "separate conflict_sets =
     ([((RoomCreate, []), ''$c''), ((RoomMember, ''@a''), ''$m''), ((RoomPowerLevels, []), ''$p'')],
      [((CustomType ''topic'', []), [''$t'', ''$u''])])"
  by (simp add: conflict_sets_def separate_def count_occurrence_def separate_entry_def push_entry_def
      saturating_inc_def usize_max_def Let_def)

lemma conflict_resolve:
  "state_resolution 9 demo_ruma S (\<lambda>_. False) conflict_db Id_V11 conflict_sets conflict_chains
   = resolve_conflicts 9 demo_ruma S Id_V11 (fst (separate conflict_sets))
       (full_conflicted_set (event_exists conflict_db) S conflict_chains (snd (separate conflict_sets)))
       (event_fetch (\<lambda>_. False) conflict_db)"
  by (simp add: state_resolution_def resolve_def conflict_separate)

lemma conflict_resolved:
  "state_resolution 9 demo_ruma in_order (\<lambda>_. False) conflict_db Id_V11 conflict_sets conflict_chains
   = Ok [((RoomCreate, []), ''$c''), ((RoomMember, ''@a''), ''$m''), ((RoomPowerLevels, []), ''$p''),
         ((CustomType ''topic'', []), ''$u'')]"
  unfolding conflict_resolve conflict_separate fst_conv snd_conv by code_simp

lemma conflict_resolved_reversed:
  "state_resolution 9 demo_ruma reversed (\<lambda>_. False) conflict_db Id_V11 conflict_sets conflict_chains
   = Ok [((RoomCreate, []), ''$c''), ((RoomMember, ''@a''), ''$m''), ((RoomPowerLevels, []), ''$p''),
         ((CustomType ''topic'', []), ''$t'')]"
  unfolding conflict_resolve conflict_separate fst_conv snd_conv by code_simp

section \<open>Properties\<close>



text \<open>
  C16: the result depends on the order in which fetches complete. The sorted events are collected with
  \<open>try_buffer_unordered\<close>, so the order of the sort is lost before the checks: two completion orders
  resolve the same conflict to different topics.
\<close>

theorem state_resolution_order_dependent:
  "\<exists>S S'. sched_ok S \<and> sched_ok S'
     \<and> state_resolution 9 demo_ruma S (\<lambda>_. False) conflict_db Id_V11 conflict_sets conflict_chains
       \<noteq> state_resolution 9 demo_ruma S' (\<lambda>_. False) conflict_db Id_V11 conflict_sets conflict_chains"
proof (intro exI conjI)
  show "sched_ok in_order" "sched_ok reversed" by (rule demo_scheds)+
  show "state_resolution 9 demo_ruma in_order (\<lambda>_. False) conflict_db Id_V11 conflict_sets conflict_chains
      \<noteq> state_resolution 9 demo_ruma reversed (\<lambda>_. False) conflict_db Id_V11 conflict_sets conflict_chains"
    unfolding conflict_resolved conflict_resolved_reversed by simp
qed

end
