(* ===== verification/Globals.thy ===== *)
theory Globals
  imports Event
begin

text \<open>
  \<open>service/globals/data.rs\<close> and \<open>core/utils/bytes.rs\<close>: the persistent counter from which the server
  draws every short identifier and every timeline position, as an interface and as its
  implementation; and the errors of the services.
\<close>

section \<open>Errors of the services\<close>

text \<open>
  The variants of \<open>core/error/mod.rs\<close> that the modelled services return, a panic, and a loop whose
  bound ran out.
\<close>

datatype svc_error =
    BadRequest string
  | Forbidden string
  | MissingItem string
  | Database string
  | Arithmetic string
  | StateResolution error
  | SerdeSer string
  | SerdeDe string
  | Io string
  | Utf8
  | Panicked string
  | NoFuel

section \<open>Bytes\<close>

definition u64_from_bytes :: "bytes \<Rightarrow> svc_error + u64" where
  "u64_from_bytes bs = (if length bs = 8 then Ok (from_be_bytes bs) else Err (BadRequest ''TryFromSlice''))"

definition u64_from_bytes_or_zero :: "bytes \<Rightarrow> u64" where
  "u64_from_bytes_or_zero bs = (case u64_from_bytes bs of Ok n \<Rightarrow> n | Err _ \<Rightarrow> 0)"

definition u64_from_u8 :: "bytes \<Rightarrow> svc_error + u64" where
  "u64_from_u8 bs =
     (case u64_from_bytes bs of Ok n \<Rightarrow> Ok n | Err _ \<Rightarrow> Err (Panicked ''must slice at least 8 bytes''))"

text \<open>\<open>wrapping_add\<close> is the addition of words.\<close>

definition increment :: "bytes option \<Rightarrow> bytes" where
  "increment old = to_be_bytes ((case old of Some bs \<Rightarrow> u64_from_bytes_or_zero bs | None \<Rightarrow> 0) + 1)"

lemma u64_from_to_be_bytes [simp]:
  "u64_from_bytes (to_be_bytes w) = Ok w" "u64_from_u8 (to_be_bytes w) = Ok w"
  "u64_from_bytes_or_zero (to_be_bytes w) = w"
  by (simp_all add: u64_from_bytes_def u64_from_u8_def u64_from_bytes_or_zero_def)

section \<open>The counter\<close>

record globals =
  global_map :: "(bytes \<times> bytes) list"
  global_counter :: u64

definition COUNTER :: bytes where
  "COUNTER = [0x63]"

definition stored_count :: "(bytes \<times> bytes) list \<Rightarrow> svc_error + u64" where
  "stored_count db = (case map_of db COUNTER of Some bs \<Rightarrow> u64_from_bytes bs | None \<Rightarrow> Ok 0)"

definition globals_new :: "(bytes \<times> bytes) list \<Rightarrow> svc_error + globals" where
  "globals_new db =
     (case stored_count db of
        Ok n \<Rightarrow> Ok \<lparr>global_map = db, global_counter = n\<rparr>
      | Err _ \<Rightarrow> Err (Panicked ''initialized global counter''))"

text \<open>The greatest \<open>u64\<close> is the word \<open>- 1\<close>, where \<open>checked_add(1)\<close> fails.\<close>

definition next_count :: "globals \<Rightarrow> svc_error + (u64 \<times> globals)" where
  "next_count g =
     (if global_counter g = - 1 then Err (Panicked ''counter must not overflow u64'')
      else
        let n = global_counter g + 1
        in Ok (n, g\<lparr>global_counter := n, global_map := AList.update COUNTER (to_be_bytes n) (global_map g)\<rparr>))"

definition current_count :: "globals \<Rightarrow> u64" where
  "current_count g = global_counter g"

section \<open>The interface of a counter\<close>

text \<open>
  A counter hands out its successor and stands there. \<open>draw k s\<close> draws \<open>k\<close> numbers in a row.
\<close>

fun draw :: "('s \<Rightarrow> 'e + (u64 \<times> 's)) \<Rightarrow> nat \<Rightarrow> 's \<Rightarrow> 'e + (u64 list \<times> 's)" where
  "draw next_num 0 s = Ok ([], s)"
| "draw next_num (Suc k) s =
     try_bind (next_num s) (\<lambda>(n, s').
     try_bind (draw next_num k s') (\<lambda>(ns, s''). Ok (n # ns, s'')))"

locale fresh_counter =
  fixes next_num :: "'s \<Rightarrow> 'e + (u64 \<times> 's)"
    and value_of :: "'s \<Rightarrow> u64"
    and wf :: "'s \<Rightarrow> bool"
  assumes next_value: "wf s \<Longrightarrow> next_num s = Ok (n, s') \<Longrightarrow> value_of s < n \<and> value_of s' = n"
    and next_wf: "wf s \<Longrightarrow> next_num s = Ok (n, s') \<Longrightarrow> wf s'"
begin

lemma next_positive: "wf s \<Longrightarrow> next_num s = Ok (n, s') \<Longrightarrow> 0 < n"
  using next_value [of s n s'] by (auto simp: word_gt_0)

lemma draw_increasing:
  "wf s \<Longrightarrow> draw next_num k s = Ok (ns, s') \<Longrightarrow>
   sorted_wrt (<) ns \<and> (\<forall>n \<in> set ns. value_of s < n \<and> n \<le> value_of s') \<and> wf s' \<and> value_of s \<le> value_of s'"
proof (induction k arbitrary: s ns)
  case (Suc k)
  from Suc.prems(2) obtain n t ms where
    n: "next_num s = Ok (n, t)" and ms: "draw next_num k t = Ok (ms, s')" and ns: "ns = n # ms"
    by (auto simp: try_bind_eq_Ok)
  note v = next_value [OF Suc.prems(1) n]
  from Suc.IH [OF next_wf [OF Suc.prems(1) n] ms] v ns show ?case
    by (auto intro: less_imp_le order.trans)
qed simp

end

text \<open>The counter in memory and the stored one agree.\<close>

definition wf_globals :: "globals \<Rightarrow> bool" where
  "wf_globals g \<longleftrightarrow> stored_count (global_map g) = Ok (global_counter g)"

lemma word_less_succ:
  assumes "(w :: u64) \<noteq> - 1"
  shows "w < w + 1"
proof -
  have "unat w \<noteq> unat (- 1 :: u64)" using assms by (simp only: word_unat_eq_iff [symmetric] not_False_eq_True)
  moreover have "unat (- 1 :: u64) = 18446744073709551615"
    by (simp add: unsigned_minus_1_eq_mask mask_eq_exp_minus_1)
  ultimately have "unat w + 1 < 18446744073709551616" using unat_u64_less [of w] by linarith
  then have "unat (w + 1) = unat w + 1" by (simp add: unat_word_ariths)
  then show ?thesis by (simp add: word_less_nat_alt)
qed

lemma globals_new_wf: "globals_new db = Ok g \<Longrightarrow> wf_globals g"
  by (auto simp: globals_new_def wf_globals_def split: sum.splits)

interpretation globals: fresh_counter next_count current_count wf_globals
proof
  fix s s' n
  assume "wf_globals s" and n: "next_count s = Ok (n, s')"
  show "current_count s < n \<and> current_count s' = n" and "wf_globals s'"
    using n word_less_succ [of "global_counter s"]
    by (auto simp: next_count_def current_count_def wf_globals_def stored_count_def
        AList.update_conv' Let_def split: if_splits)
qed

lemma next_count_error:
  "next_count g = Err e \<longleftrightarrow> global_counter g = - 1 \<and> e = Panicked ''counter must not overflow u64''"
  by (auto simp: next_count_def Let_def)

section \<open>Properties\<close>

text \<open>
  C28: numbers are never reused, also across restarts. The numbers drawn before a restart, which
  reads the counter from the database again, and those drawn after it are strictly increasing.
\<close>

theorem counter_survives_restart:
  assumes "globals_new db = Ok g" and "draw next_count k g = Ok (ns, g')"
    and "globals_new (global_map g') = Ok h" and "draw next_count l h = Ok (ms, h')"
  shows "sorted_wrt (<) (ns @ ms)"
proof -
  note ns = globals.draw_increasing [OF globals_new_wf [OF assms(1)] assms(2)]
  have "h = g'"
    using assms(3) ns by (auto simp: globals_new_def wf_globals_def split: sum.splits)
  note ms = globals.draw_increasing [OF globals_new_wf [OF assms(3)] assms(4)]
  from ns ms \<open>h = g'\<close> show ?thesis by (auto simp: sorted_wrt_append intro: le_less_trans)
qed

theorem counter_survives_restart_witness:
  "sorted_wrt (<) ([1, 2] @ [3 :: u64])"
proof -
  let ?g = "\<lparr>global_map = [(COUNTER, to_be_bytes 2)], global_counter = 2\<rparr>"
  have "globals_new [] = Ok \<lparr>global_map = [], global_counter = 0\<rparr>"
    and "globals_new (global_map ?g) = Ok ?g"
    by (simp_all add: globals_new_def stored_count_def)
  moreover have "draw next_count (Suc (Suc 0)) \<lparr>global_map = [], global_counter = 0\<rparr> = Ok ([1, 2], ?g)"
    and "draw next_count (Suc 0) ?g
      = Ok ([3], \<lparr>global_map = [(COUNTER, to_be_bytes 3)], global_counter = 3\<rparr>)"
    by (simp_all add: next_count_def)
  ultimately show ?thesis using counter_survives_restart by blast
qed

end
