(* ===== verification/Short.thy ===== *)
theory Short
  imports Globals
begin

text \<open>
  \<open>service/rooms/short/mod.rs\<close>: short identifiers, 64-bit numbers drawn from the global counter that
  stand for event identifiers, state keys, rooms and states in the database. The contract that the
  four tables share is the locale \<open>short_table\<close>. Concurrent requests, whose look-up and creation are
  separate steps, are a step relation.
\<close>

section \<open>The tables\<close>

record short_db =
  sh_globals :: globals
  eventid_shorteventid :: "(event_id \<times> u64) list"
  shorteventid_eventid :: "(u64 \<times> event_id) list"
  statekey_shortstatekey :: "(type_state_key \<times> u64) list"
  shortstatekey_statekey :: "(u64 \<times> type_state_key) list"
  roomid_shortroomid :: "(string \<times> u64) list"
  statehash_shortstatehash :: "(bytes \<times> u64) list"

text \<open>\<open>next_count().unwrap()\<close> on the counter of the service.\<close>

definition draw_short :: "short_db \<Rightarrow> svc_error + (u64 \<times> short_db)" where
  "draw_short s =
     try_bind (next_count (sh_globals s)) (\<lambda>(n, g). Ok (n, s\<lparr>sh_globals := g\<rparr>))"

text \<open>The common shape of the operations: look up, and create what is missing.\<close>

definition get_or_create ::
    "('s \<Rightarrow> 'k \<Rightarrow> u64 option) \<Rightarrow> ('s \<Rightarrow> 'k \<Rightarrow> svc_error + (u64 \<times> 's)) \<Rightarrow> 's \<Rightarrow> 'k
     \<Rightarrow> svc_error + (u64 \<times> 's)" where
  "get_or_create find_short create s k =
     (case find_short s k of Some n \<Rightarrow> Ok (n, s) | None \<Rightarrow> create s k)"

definition get_shorteventid :: "short_db \<Rightarrow> event_id \<Rightarrow> u64 option" where
  "get_shorteventid s event_id = map_of (eventid_shorteventid s) event_id"

definition create_shorteventid :: "short_db \<Rightarrow> event_id \<Rightarrow> svc_error + (u64 \<times> short_db)" where
  "create_shorteventid s event_id =
     try_bind (draw_short s) (\<lambda>(short, s).
       Ok (short, s\<lparr>eventid_shorteventid := AList.update event_id short (eventid_shorteventid s),
                    shorteventid_eventid := AList.update short event_id (shorteventid_eventid s)\<rparr>))"

definition get_or_create_shorteventid :: "short_db \<Rightarrow> event_id \<Rightarrow> svc_error + (u64 \<times> short_db)" where
  "get_or_create_shorteventid = get_or_create get_shorteventid create_shorteventid"

text \<open>
  \<open>multi_get_or_create_shorteventid\<close>: the stream of look-ups runs ahead of the creations, for the
  identifiers that \<open>ahead\<close> selects by so much that it reads the table as it was at the start.
\<close>

fun multi_from :: "(event_id \<Rightarrow> bool) \<Rightarrow> short_db \<Rightarrow> short_db \<Rightarrow> event_id list
    \<Rightarrow> svc_error + (u64 list \<times> short_db)" where
  "multi_from ahead s0 s [] = Ok ([], s)"
| "multi_from ahead s0 s (i # is) =
     try_bind (case get_shorteventid (if ahead i then s0 else s) i of
                 Some n \<Rightarrow> Ok (n, s) | None \<Rightarrow> create_shorteventid s i) (\<lambda>(n, s).
     try_bind (multi_from ahead s0 s is) (\<lambda>(ns, s). Ok (n # ns, s)))"

definition multi_get_or_create_shorteventid ::
    "(event_id \<Rightarrow> bool) \<Rightarrow> short_db \<Rightarrow> event_id list \<Rightarrow> svc_error + (u64 list \<times> short_db)" where
  "multi_get_or_create_shorteventid ahead s event_ids = multi_from ahead s s event_ids"

definition get_eventid_from_short :: "short_db \<Rightarrow> u64 \<Rightarrow> svc_error + event_id" where
  "get_eventid_from_short s shorteventid =
     ok_or (map_of (shorteventid_eventid s) shorteventid) (Database ''Failed to find EventId from short'')"

definition multi_get_eventid_from_short :: "short_db \<Rightarrow> u64 list \<Rightarrow> (svc_error + event_id) list" where
  "multi_get_eventid_from_short s shorteventids = map (get_eventid_from_short s) shorteventids"

definition get_shortstatekey :: "short_db \<Rightarrow> type_state_key \<Rightarrow> u64 option" where
  "get_shortstatekey s key = map_of (statekey_shortstatekey s) key"

definition create_shortstatekey :: "short_db \<Rightarrow> type_state_key \<Rightarrow> svc_error + (u64 \<times> short_db)" where
  "create_shortstatekey s key =
     try_bind (draw_short s) (\<lambda>(short, s).
       Ok (short, s\<lparr>statekey_shortstatekey := AList.update key short (statekey_shortstatekey s),
                    shortstatekey_statekey := AList.update short key (shortstatekey_statekey s)\<rparr>))"

definition get_or_create_shortstatekey :: "short_db \<Rightarrow> type_state_key \<Rightarrow> svc_error + (u64 \<times> short_db)" where
  "get_or_create_shortstatekey = get_or_create get_shortstatekey create_shortstatekey"

definition get_statekey_from_short :: "short_db \<Rightarrow> u64 \<Rightarrow> svc_error + type_state_key" where
  "get_statekey_from_short s shortstatekey =
     ok_or (map_of (shortstatekey_statekey s) shortstatekey)
       (Database ''Failed to find (StateEventType, state_key) from short'')"

definition multi_get_statekey_from_short :: "short_db \<Rightarrow> u64 list \<Rightarrow> (svc_error + type_state_key) list" where
  "multi_get_statekey_from_short s shortstatekeys = map (get_statekey_from_short s) shortstatekeys"

definition get_shortstatehash :: "short_db \<Rightarrow> bytes \<Rightarrow> u64 option" where
  "get_shortstatehash s state_hash = map_of (statehash_shortstatehash s) state_hash"

definition create_shortstatehash :: "short_db \<Rightarrow> bytes \<Rightarrow> svc_error + (u64 \<times> short_db)" where
  "create_shortstatehash s state_hash =
     try_bind (draw_short s) (\<lambda>(short, s).
       Ok (short, s\<lparr>statehash_shortstatehash := AList.update state_hash short (statehash_shortstatehash s)\<rparr>))"

definition get_or_create_shortstatehash :: "short_db \<Rightarrow> bytes \<Rightarrow> svc_error + ((u64 \<times> bool) \<times> short_db)" where
  "get_or_create_shortstatehash s state_hash =
     try_bind (get_or_create get_shortstatehash create_shortstatehash s state_hash) (\<lambda>(n, s').
       Ok ((n, get_shortstatehash s state_hash \<noteq> None), s'))"

definition get_shortroomid :: "short_db \<Rightarrow> string \<Rightarrow> u64 option" where
  "get_shortroomid s room_id = map_of (roomid_shortroomid s) room_id"

definition create_shortroomid :: "short_db \<Rightarrow> string \<Rightarrow> svc_error + (u64 \<times> short_db)" where
  "create_shortroomid s room_id =
     try_bind (draw_short s) (\<lambda>(short, s).
       Ok (short, s\<lparr>roomid_shortroomid := AList.update room_id short (roomid_shortroomid s)\<rparr>))"

definition get_or_create_shortroomid :: "short_db \<Rightarrow> string \<Rightarrow> svc_error + (u64 \<times> short_db)" where
  "get_or_create_shortroomid = get_or_create get_shortroomid create_shortroomid"

section \<open>The contract of a table\<close>

locale short_table =
  fixes find_short :: "'s \<Rightarrow> 'k \<Rightarrow> u64 option"
    and create :: "'s \<Rightarrow> 'k \<Rightarrow> svc_error + (u64 \<times> 's)"
    and level :: "'s \<Rightarrow> u64"
    and wf :: "'s \<Rightarrow> bool"
  assumes create_finds: "wf s \<Longrightarrow> create s k = Ok (n, s') \<Longrightarrow> find_short s' = (find_short s)(k \<mapsto> n)"
    and create_level: "wf s \<Longrightarrow> create s k = Ok (n, s') \<Longrightarrow> level s < n \<and> level s' = n"
    and create_wf: "wf s \<Longrightarrow> create s k = Ok (n, s') \<Longrightarrow> wf s'"
    and found_level: "wf s \<Longrightarrow> find_short s k = Some n \<Longrightarrow> 0 < n \<and> n \<le> level s"
    and found_inj: "wf s \<Longrightarrow> find_short s k = Some n \<Longrightarrow> find_short s k' = Some n \<Longrightarrow> k = k'"
begin

lemma get_or_create_wf:
  "wf s \<Longrightarrow> get_or_create find_short create s k = Ok (n, s') \<Longrightarrow> wf s'"
  using create_wf by (auto simp: get_or_create_def split: option.splits)

lemma get_or_create_finds:
  "wf s \<Longrightarrow> get_or_create find_short create s k = Ok (n, s') \<Longrightarrow>
   find_short s' = (find_short s)(k \<mapsto> n) \<and> level s \<le> level s'"
  using create_finds [of s k n s'] create_level [of s k n s']
  by (auto simp: get_or_create_def fun_upd_idem split: option.splits)

text \<open>An identifier keeps its number, and a second request returns it without a change.\<close>

lemma get_or_create_keeps:
  "wf s \<Longrightarrow> get_or_create find_short create s k = Ok (n, s') \<Longrightarrow> find_short s k' = Some m \<Longrightarrow>
   find_short s' k' = Some m"
  using create_finds [of s k n s'] by (auto simp: get_or_create_def split: option.splits)

lemma get_or_create_again:
  "wf s \<Longrightarrow> get_or_create find_short create s k = Ok (n, s') \<Longrightarrow>
   get_or_create find_short create s' k = Ok (n, s')"
  using get_or_create_finds [of s k n s'] by (simp add: get_or_create_def)

lemma get_or_create_inj:
  assumes "wf s" and "get_or_create find_short create s k = Ok (n, s')"
    and "get_or_create find_short create s' k' = Ok (m, s'')"
  shows "n = m \<longleftrightarrow> k = k'"
proof
  note wf' = get_or_create_wf [OF assms(1,2)] and n = get_or_create_finds [OF assms(1,2)]
  note wf'' = get_or_create_wf [OF wf' assms(3)] and m = get_or_create_finds [OF wf' assms(3)]
  have "find_short s'' k = Some n" using get_or_create_keeps [OF wf' assms(3)] n by simp
  moreover have "find_short s'' k' = Some m" using m by simp
  ultimately show "k = k'" if "n = m" using found_inj [OF wf''] that by blast
  show "n = m" if "k = k'" using get_or_create_again [OF assms(1,2)] assms(3) that by simp
qed

end

section \<open>The tables meet the contract\<close>

text \<open>
  \<open>table_ok\<close>: the numbers of a table are positive, drawn before, and differ. \<open>back_ok\<close>: the reverse
  table finds what the table has, and has only numbers drawn before.
\<close>

definition table_ok :: "('k \<times> u64) list \<Rightarrow> u64 \<Rightarrow> bool" where
  "table_ok t lim \<longleftrightarrow> (\<forall>k n. map_of t k = Some n \<longrightarrow> 0 < n \<and> n \<le> lim
     \<and> (\<forall>k'. map_of t k' = Some n \<longrightarrow> k' = k))"

definition back_ok :: "('k \<times> u64) list \<Rightarrow> (u64 \<times> 'k) list \<Rightarrow> u64 \<Rightarrow> bool" where
  "back_ok t b lim \<longleftrightarrow> (\<forall>k n. map_of t k = Some n \<longrightarrow> map_of b n = Some k)
     \<and> (\<forall>n k. map_of b n = Some k \<longrightarrow> n \<le> lim)"

definition short_level :: "short_db \<Rightarrow> u64" where
  "short_level s = current_count (sh_globals s)"

definition wf_short :: "short_db \<Rightarrow> bool" where
  "wf_short s \<longleftrightarrow> wf_globals (sh_globals s)
     \<and> table_ok (eventid_shorteventid s) (short_level s)
     \<and> back_ok (eventid_shorteventid s) (shorteventid_eventid s) (short_level s)
     \<and> table_ok (statekey_shortstatekey s) (short_level s)
     \<and> back_ok (statekey_shortstatekey s) (shortstatekey_statekey s) (short_level s)
     \<and> table_ok (roomid_shortroomid s) (short_level s)
     \<and> table_ok (statehash_shortstatehash s) (short_level s)"

lemma table_ok_mono: "table_ok t a \<Longrightarrow> a \<le> b \<Longrightarrow> table_ok t b"
  unfolding table_ok_def by (meson order.trans)

lemma back_ok_mono: "back_ok t r a \<Longrightarrow> a \<le> b \<Longrightarrow> back_ok t r b"
  unfolding back_ok_def by (meson order.trans)

lemma table_okD:
  assumes "table_ok t lim" and "map_of t k = Some n"
  shows "0 < n" and "n \<le> lim" and "map_of t k' = Some n \<Longrightarrow> k' = k"
  using assms unfolding table_ok_def by blast+

lemma table_ok_update:
  assumes "table_ok t a" and "a < n"
  shows "table_ok (AList.update k n t) n"
  unfolding table_ok_def AList.update_conv'
proof (intro allI impI)
  have new: "m < n" if "map_of t k' = Some m" for k' m
    using table_okD(2) [OF assms(1) that] assms(2) by simp
  have pos: "0 < n" using assms(2) by (auto simp: word_gt_0)
  fix j m
  assume m: "((map_of t)(k \<mapsto> n)) j = Some m"
  show "0 < m \<and> m \<le> n \<and> (\<forall>k'. ((map_of t)(k \<mapsto> n)) k' = Some m \<longrightarrow> k' = j)"
  proof (cases "j = k")
    case True
    with m have "m = n" by simp
    moreover have "map_of t k' \<noteq> Some n" for k' using new [of k' n] by blast
    ultimately show ?thesis using pos True by (auto simp: fun_upd_def)
  next
    case False
    with m have j: "map_of t j = Some m" by simp
    from table_okD [OF assms(1) j] new [OF j] show ?thesis
      by (auto simp: fun_upd_def split: if_splits)
  qed
qed

lemma back_ok_update:
  assumes "back_ok t r a" and "table_ok t a" and "a < n"
  shows "back_ok (AList.update k n t) (AList.update n k r) n"
  unfolding back_ok_def AList.update_conv'
proof (intro conjI allI impI)
  fix j m
  assume m: "((map_of t)(k \<mapsto> n)) j = Some m"
  show "((map_of r)(n \<mapsto> k)) m = Some j"
  proof (cases "j = k")
    case False
    with m have j: "map_of t j = Some m" by simp
    then have "map_of r m = Some j" using assms(1) unfolding back_ok_def by blast
    moreover have "m \<noteq> n" using table_okD(2) [OF assms(2) j] assms(3) by auto
    ultimately show ?thesis by simp
  qed (use m in simp)
next
  fix m j
  assume m: "((map_of r)(n \<mapsto> k)) m = Some j"
  show "m \<le> n"
  proof (cases "m = n")
    case False
    with m have "map_of r m = Some j" by simp
    then have "m \<le> a" using assms(1) unfolding back_ok_def by blast
    then show ?thesis using assms(3) by simp
  qed simp
qed

lemma draw_short_Ok:
  assumes "wf_short s" and "draw_short s = Ok (n, s')"
  obtains g where "s' = s\<lparr>sh_globals := g\<rparr>" and "wf_globals g" and "short_level s < n"
    and "current_count g = n"
proof -
  from assms(2) obtain g where g: "next_count (sh_globals s) = Ok (n, g)" "s' = s\<lparr>sh_globals := g\<rparr>"
    by (auto simp: draw_short_def try_bind_eq_Ok)
  have "wf_globals (sh_globals s)" using assms(1) by (simp add: wf_short_def)
  from globals.next_value [OF this g(1)] globals.next_wf [OF this g(1)] g(2) that show thesis
    by (simp add: short_level_def)
qed

text \<open>A creation draws a number and enters it into one table.\<close>

definition kept_or_put :: "u64 \<Rightarrow> ('k \<times> u64) list \<Rightarrow> ('k \<times> u64) list \<Rightarrow> bool" where
  "kept_or_put n t t' \<longleftrightarrow> t' = t \<or> (\<exists>k. t' = AList.update k n t)"

definition kept_or_put_both ::
    "u64 \<Rightarrow> ('k \<times> u64) list \<times> (u64 \<times> 'k) list \<Rightarrow> ('k \<times> u64) list \<times> (u64 \<times> 'k) list \<Rightarrow> bool" where
  "kept_or_put_both n t t' \<longleftrightarrow>
     t' = t \<or> (\<exists>k. t' = (AList.update k n (fst t), AList.update n k (snd t)))"

lemma kept_or_put_intros [simp]:
  "kept_or_put n t t" "kept_or_put n t (AList.update k n t)"
  "kept_or_put_both n (t, r) (t, r)" "kept_or_put_both n (t, r) (AList.update k n t, AList.update n k r)"
  by (auto simp: kept_or_put_def kept_or_put_both_def)

lemma table_ok_put: "table_ok t a \<Longrightarrow> a < n \<Longrightarrow> kept_or_put n t t' \<Longrightarrow> table_ok t' n"
  by (auto simp: kept_or_put_def intro: table_ok_update table_ok_mono)

lemma tables_ok_put_both:
  "table_ok t a \<Longrightarrow> back_ok t r a \<Longrightarrow> a < n \<Longrightarrow> kept_or_put_both n (t, r) (t', r') \<Longrightarrow>
   table_ok t' n \<and> back_ok t' r' n"
  by (auto simp: kept_or_put_both_def intro: table_ok_update table_ok_mono back_ok_update back_ok_mono)

lemma wf_short_create:
  assumes "wf_short s" and "draw_short s = Ok (n, t)" and "sh_globals s' = sh_globals t"
    and "kept_or_put_both n (eventid_shorteventid t, shorteventid_eventid t)
      (eventid_shorteventid s', shorteventid_eventid s')"
    and "kept_or_put_both n (statekey_shortstatekey t, shortstatekey_statekey t)
      (statekey_shortstatekey s', shortstatekey_statekey s')"
    and "kept_or_put n (roomid_shortroomid t) (roomid_shortroomid s')"
    and "kept_or_put n (statehash_shortstatehash t) (statehash_shortstatehash s')"
  shows "wf_short s' \<and> short_level s < n \<and> short_level s' = n"
proof -
  from draw_short_Ok [OF assms(1,2)] obtain g where
    g: "t = s\<lparr>sh_globals := g\<rparr>" "wf_globals g" "short_level s < n" "current_count g = n" .
  note old = assms(1) [unfolded wf_short_def]
  note put = table_ok_put [OF _ g(3)] tables_ok_put_both [OF _ _ g(3)]
  have "table_ok (eventid_shorteventid s') n \<and> back_ok (eventid_shorteventid s') (shorteventid_eventid s') n"
    using put(2) [OF _ _ assms(4)] old by (simp add: g(1))
  moreover have "table_ok (statekey_shortstatekey s') n
      \<and> back_ok (statekey_shortstatekey s') (shortstatekey_statekey s') n"
    using put(2) [OF _ _ assms(5)] old by (simp add: g(1))
  moreover have "table_ok (roomid_shortroomid s') n" "table_ok (statehash_shortstatehash s') n"
    using put(1) [OF _ assms(6)] put(1) [OF _ assms(7)] old by (simp_all add: g(1))
  ultimately show ?thesis using g(1,2,3,4) assms(3) by (simp add: wf_short_def short_level_def)
qed

lemma draw_short_tables:
  "draw_short s = Ok (n, t) \<Longrightarrow>
   eventid_shorteventid t = eventid_shorteventid s \<and> shorteventid_eventid t = shorteventid_eventid s
   \<and> statekey_shortstatekey t = statekey_shortstatekey s \<and> shortstatekey_statekey t = shortstatekey_statekey s
   \<and> roomid_shortroomid t = roomid_shortroomid s \<and> statehash_shortstatehash t = statehash_shortstatehash s"
  by (auto simp: draw_short_def try_bind_eq_Ok)

lemma create_shorteventid_Ok:
  assumes "wf_short s" and "create_shorteventid s k = Ok (n, s')"
  shows "wf_short s' \<and> short_level s < n \<and> short_level s' = n
    \<and> eventid_shorteventid s' = AList.update k n (eventid_shorteventid s)
    \<and> shorteventid_eventid s' = AList.update n k (shorteventid_eventid s)"
proof -
  from assms(2) obtain t where t: "draw_short s = Ok (n, t)"
    and s': "s' = t\<lparr>eventid_shorteventid := AList.update k n (eventid_shorteventid t),
      shorteventid_eventid := AList.update n k (shorteventid_eventid t)\<rparr>"
    by (auto simp: create_shorteventid_def try_bind_eq_Ok)
  show ?thesis
    using wf_short_create [OF assms(1) t, of s'] draw_short_tables [OF t]
    by (simp add: s')
qed

lemma create_shortstatekey_Ok:
  assumes "wf_short s" and "create_shortstatekey s k = Ok (n, s')"
  shows "wf_short s' \<and> short_level s < n \<and> short_level s' = n
    \<and> statekey_shortstatekey s' = AList.update k n (statekey_shortstatekey s)
    \<and> shortstatekey_statekey s' = AList.update n k (shortstatekey_statekey s)"
proof -
  from assms(2) obtain t where t: "draw_short s = Ok (n, t)"
    and s': "s' = t\<lparr>statekey_shortstatekey := AList.update k n (statekey_shortstatekey t),
      shortstatekey_statekey := AList.update n k (shortstatekey_statekey t)\<rparr>"
    by (auto simp: create_shortstatekey_def try_bind_eq_Ok)
  show ?thesis
    using wf_short_create [OF assms(1) t, of s'] draw_short_tables [OF t]
    by (simp add: s')
qed

lemma create_shortroomid_Ok:
  assumes "wf_short s" and "create_shortroomid s k = Ok (n, s')"
  shows "wf_short s' \<and> short_level s < n \<and> short_level s' = n
    \<and> roomid_shortroomid s' = AList.update k n (roomid_shortroomid s)"
proof -
  from assms(2) obtain t where t: "draw_short s = Ok (n, t)"
    and s': "s' = t\<lparr>roomid_shortroomid := AList.update k n (roomid_shortroomid t)\<rparr>"
    by (auto simp: create_shortroomid_def try_bind_eq_Ok)
  show ?thesis
    using wf_short_create [OF assms(1) t, of s'] draw_short_tables [OF t]
    by (simp add: s')
qed

lemma create_shortstatehash_Ok:
  assumes "wf_short s" and "create_shortstatehash s k = Ok (n, s')"
  shows "wf_short s' \<and> short_level s < n \<and> short_level s' = n
    \<and> statehash_shortstatehash s' = AList.update k n (statehash_shortstatehash s)"
proof -
  from assms(2) obtain t where t: "draw_short s = Ok (n, t)"
    and s': "s' = t\<lparr>statehash_shortstatehash := AList.update k n (statehash_shortstatehash t)\<rparr>"
    by (auto simp: create_shortstatehash_def try_bind_eq_Ok)
  show ?thesis
    using wf_short_create [OF assms(1) t, of s'] draw_short_tables [OF t]
    by (simp add: s')
qed

interpretation event_ids: short_table get_shorteventid create_shorteventid short_level wf_short
proof
  fix s k n s'
  assume "wf_short s" and "create_shorteventid s k = Ok (n, s')"
  note new = create_shorteventid_Ok [OF this]
  show "get_shorteventid s' = (get_shorteventid s)(k \<mapsto> n)" by (simp add: get_shorteventid_def new fun_eq_iff AList.update_conv')
  show "short_level s < n \<and> short_level s' = n" and "wf_short s'" using new by blast+
next
  fix s k n k'
  assume "wf_short s" and "get_shorteventid s k = Some n"
  then show "0 < n \<and> n \<le> short_level s" and "get_shorteventid s k' = Some n \<Longrightarrow> k = k'"
    unfolding wf_short_def table_ok_def get_shorteventid_def by blast+
qed

interpretation state_keys: short_table get_shortstatekey create_shortstatekey short_level wf_short
proof
  fix s k n s'
  assume "wf_short s" and "create_shortstatekey s k = Ok (n, s')"
  note new = create_shortstatekey_Ok [OF this]
  show "get_shortstatekey s' = (get_shortstatekey s)(k \<mapsto> n)" by (simp add: get_shortstatekey_def new fun_eq_iff AList.update_conv')
  show "short_level s < n \<and> short_level s' = n" and "wf_short s'" using new by blast+
next
  fix s k n k'
  assume "wf_short s" and "get_shortstatekey s k = Some n"
  then show "0 < n \<and> n \<le> short_level s" and "get_shortstatekey s k' = Some n \<Longrightarrow> k = k'"
    unfolding wf_short_def table_ok_def get_shortstatekey_def by blast+
qed

interpretation room_ids: short_table get_shortroomid create_shortroomid short_level wf_short
proof
  fix s k n s'
  assume "wf_short s" and "create_shortroomid s k = Ok (n, s')"
  note new = create_shortroomid_Ok [OF this]
  show "get_shortroomid s' = (get_shortroomid s)(k \<mapsto> n)" by (simp add: get_shortroomid_def new fun_eq_iff AList.update_conv')
  show "short_level s < n \<and> short_level s' = n" and "wf_short s'" using new by blast+
next
  fix s k n k'
  assume "wf_short s" and "get_shortroomid s k = Some n"
  then show "0 < n \<and> n \<le> short_level s" and "get_shortroomid s k' = Some n \<Longrightarrow> k = k'"
    unfolding wf_short_def table_ok_def get_shortroomid_def by blast+
qed

interpretation state_hashes: short_table get_shortstatehash create_shortstatehash short_level wf_short
proof
  fix s k n s'
  assume "wf_short s" and "create_shortstatehash s k = Ok (n, s')"
  note new = create_shortstatehash_Ok [OF this]
  show "get_shortstatehash s' = (get_shortstatehash s)(k \<mapsto> n)" by (simp add: get_shortstatehash_def new fun_eq_iff AList.update_conv')
  show "short_level s < n \<and> short_level s' = n" and "wf_short s'" using new by blast+
next
  fix s k n k'
  assume "wf_short s" and "get_shortstatehash s k = Some n"
  then show "0 < n \<and> n \<le> short_level s" and "get_shortstatehash s k' = Some n \<Longrightarrow> k = k'"
    unfolding wf_short_def table_ok_def get_shortstatehash_def by blast+
qed

section \<open>Requests that run concurrently\<close>

text \<open>
  Concurrent calls of \<open>get_or_create_shorteventid\<close>. A call looks its event up; if that fails it goes
  on to create an identifier. Either step is atomic: the counter is under a lock and the tables are
  written for one key.
\<close>

datatype short_call = Asked event_id | Missed event_id | Answered event_id u64

inductive short_step :: "short_db \<times> short_call list \<Rightarrow> short_db \<times> short_call list \<Rightarrow> bool" where
  ask: "short_step (s, cs) (s, cs @ [Asked i])"
| hit: "c < length cs \<Longrightarrow> cs ! c = Asked i \<Longrightarrow> get_shorteventid s i = Some n \<Longrightarrow>
    short_step (s, cs) (s, cs[c := Answered i n])"
| miss: "c < length cs \<Longrightarrow> cs ! c = Asked i \<Longrightarrow> get_shorteventid s i = None \<Longrightarrow>
    short_step (s, cs) (s, cs[c := Missed i])"
| create: "c < length cs \<Longrightarrow> cs ! c = Missed i \<Longrightarrow> create_shorteventid s i = Ok (n, s') \<Longrightarrow>
    short_step (s, cs) (s', cs[c := Answered i n])"

definition answers_ok :: "short_db \<Rightarrow> short_call list \<Rightarrow> bool" where
  "answers_ok s cs \<longleftrightarrow> wf_short s
     \<and> (\<forall>i n. Answered i n \<in> set cs \<longrightarrow> get_eventid_from_short s n = Ok i)"

lemma set_list_update_cases: "x \<in> set (xs[c := y]) \<Longrightarrow> x = y \<or> x \<in> set xs"
  using set_update_subset_insert [of xs c y] by blast

lemma answers_ok_put:
  "answers_ok s cs \<Longrightarrow> (\<forall>i n. c' = Answered i n \<longrightarrow> get_eventid_from_short s n = Ok i) \<Longrightarrow>
   answers_ok s (cs[c := c'])"
  unfolding answers_ok_def by (metis set_list_update_cases)

lemma found_resolves:
  "wf_short s \<Longrightarrow> get_shorteventid s i = Some n \<Longrightarrow> get_eventid_from_short s n = Ok i"
  unfolding wf_short_def back_ok_def get_shorteventid_def get_eventid_from_short_def by simp

text \<open>What a short identifier stands for never changes.\<close>

lemma create_keeps_resolved:
  assumes "wf_short s" and "create_shorteventid s j = Ok (m, s')" and "get_eventid_from_short s n = Ok i"
  shows "get_eventid_from_short s' n = Ok i"
proof -
  note new = create_shorteventid_Ok [OF assms(1,2)]
  have n: "map_of (shorteventid_eventid s) n = Some i"
    using assms(3) by (simp add: get_eventid_from_short_def ok_or_eq_Ok)
  then have "n \<le> short_level s" using assms(1) unfolding wf_short_def back_ok_def by blast
  then have "n \<noteq> m" using new by auto
  with n show ?thesis by (simp add: get_eventid_from_short_def new AList.update_conv')
qed

lemma answers_ok_step:
  "short_step x y \<Longrightarrow> answers_ok (fst x) (snd x) \<Longrightarrow> answers_ok (fst y) (snd y)"
proof (induction rule: short_step.induct)
  case (ask s cs i)
  then show ?case by (auto simp: answers_ok_def)
next
  case (hit c cs i s n)
  then have "get_eventid_from_short s n = Ok i"
    using found_resolves [of s i n] by (simp add: answers_ok_def)
  then show ?case using hit by (auto intro: answers_ok_put)
next
  case (miss c cs i s)
  then show ?case by (auto intro: answers_ok_put)
next
  case (create c cs i s n s')
  then have wf: "wf_short s" and ok: "answers_ok s cs" by (simp_all add: answers_ok_def)
  note new = create_shorteventid_Ok [OF wf create(3)]
  have "answers_ok s' cs"
    using ok new create_keeps_resolved [OF wf create(3)] unfolding answers_ok_def by blast
  moreover have "get_eventid_from_short s' n = Ok i"
    by (simp add: get_eventid_from_short_def new AList.update_conv')
  ultimately show ?case by (auto intro: answers_ok_put)
qed

definition empty_short :: short_db where
  "empty_short = \<lparr>sh_globals = \<lparr>global_map = [], global_counter = 0\<rparr>,
     eventid_shorteventid = [], shorteventid_eventid = [], statekey_shortstatekey = [],
     shortstatekey_statekey = [], roomid_shortroomid = [], statehash_shortstatehash = []\<rparr>"

lemma wf_empty_short: "wf_short empty_short"
  by (simp add: wf_short_def empty_short_def table_ok_def back_ok_def wf_globals_def stored_count_def)

lemma answers_reachable: "short_step\<^sup>*\<^sup>* (empty_short, []) x \<Longrightarrow> answers_ok (fst x) (snd x)"
proof (induction rule: rtranclp_induct)
  case base
  show ?case by (simp add: answers_ok_def wf_empty_short)
next
  case (step x y)
  then show ?case using answers_ok_step by blast
qed

section \<open>Properties\<close>


text \<open>One call from the empty database: the first event gets number 1.\<close>

definition one_short :: short_db where
  "one_short = empty_short\<lparr>sh_globals := \<lparr>global_map = [(COUNTER, to_be_bytes 1)], global_counter = 1\<rparr>,
     eventid_shorteventid := [(''$a'', 1)], shorteventid_eventid := [(1, ''$a'')]\<rparr>"

lemma create_one_short: "create_shorteventid empty_short ''$a'' = Ok (1, one_short)"
  by (simp add: create_shorteventid_def draw_short_def next_count_def empty_short_def one_short_def)


text \<open>
  C27: two concurrent requests for one new event may get different numbers. Both look the event up
  before either creates it, so the numbers are not unique and the first answer is no longer the
  entry of the table.
\<close>

theorem short_id_race:
  "\<exists>s n m. short_step\<^sup>*\<^sup>* (empty_short, []) (s, [Answered ''$a'' n, Answered ''$a'' m])
     \<and> n \<noteq> m \<and> get_shorteventid s ''$a'' = Some m"
proof -
  let ?i = "''$a''"
  obtain s2 where s2: "create_shorteventid one_short ?i = Ok (2, s2)" "get_shorteventid s2 ?i = Some 2"
    by (auto simp: create_shorteventid_def draw_short_def next_count_def one_short_def
        empty_short_def get_shorteventid_def)
  have none: "get_shorteventid empty_short ?i = None" by (simp add: get_shorteventid_def empty_short_def)
  have "short_step (empty_short, []) (empty_short, [Asked ?i])"
    using ask [of empty_short "[]" ?i] by simp
  moreover have "short_step (empty_short, [Asked ?i]) (empty_short, [Asked ?i, Asked ?i])"
    using ask [of empty_short "[Asked ?i]" ?i] by simp
  moreover have "short_step (empty_short, [Asked ?i, Asked ?i]) (empty_short, [Missed ?i, Asked ?i])"
    using miss [of 0 "[Asked ?i, Asked ?i]" ?i, OF _ _ none] by simp
  moreover have "short_step (empty_short, [Missed ?i, Asked ?i]) (empty_short, [Missed ?i, Missed ?i])"
    using miss [of 1 "[Missed ?i, Asked ?i]" ?i, OF _ _ none] by simp
  moreover have "short_step (empty_short, [Missed ?i, Missed ?i]) (one_short, [Answered ?i 1, Missed ?i])"
    using create [of 0 "[Missed ?i, Missed ?i]" ?i, OF _ _ create_one_short] by simp
  moreover have "short_step (one_short, [Answered ?i 1, Missed ?i]) (s2, [Answered ?i 1, Answered ?i 2])"
    using create [of 1 "[Answered ?i 1, Missed ?i]" ?i, OF _ _ s2(1)] by simp
  ultimately have "short_step\<^sup>*\<^sup>* (empty_short, []) (s2, [Answered ?i 1, Answered ?i 2])"
    by (meson converse_rtranclp_into_rtranclp rtranclp.rtrancl_refl)
  moreover have "(1 :: u64) \<noteq> 2" by simp
  ultimately show ?thesis using s2(2) by blast
qed

end
