(* ===== verification/State_Compressor.thy ===== *)
theory State_Compressor
  imports Short
begin

text \<open>
  \<open>service/rooms/state_compressor/mod.rs\<close>: room states stored as layers of differences. A state is a
  \<open>BTreeSet\<close> of 16 bytes per entry, a list in increasing order here; the stored form of a difference
  is the byte string of the code. The cache in front of the store is the crate \<open>lru_cache\<close>, a
  parameter of the model.
\<close>

section \<open>States and differences\<close>

type_synonym compressed_state = "bytes list"

definition bts_insert :: "bytes \<Rightarrow> compressed_state \<Rightarrow> compressed_state" where
  "bts_insert = insort_insert"

definition bts_remove :: "bytes \<Rightarrow> compressed_state \<Rightarrow> compressed_state" where
  "bts_remove = remove1"

definition bts_difference :: "compressed_state \<Rightarrow> compressed_state \<Rightarrow> compressed_state" where
  "bts_difference xs ys = filter (\<lambda>x. x \<notin> set ys) xs"

record state_diff =
  sd_parent :: "u64 option"
  sd_added :: compressed_state
  sd_removed :: compressed_state

record short_state_info =
  info_hash :: u64
  full_state :: compressed_state
  info_added :: compressed_state
  info_removed :: compressed_state

definition compress_state_event :: "u64 \<Rightarrow> u64 \<Rightarrow> bytes" where
  "compress_state_event shortstatekey shorteventid = to_be_bytes shortstatekey @ to_be_bytes shorteventid"

text \<open>A compressed entry is an array of 16 bytes, so its two halves always convert.\<close>

definition parse_compressed_state_event :: "bytes \<Rightarrow> u64 \<times> u64" where
  "parse_compressed_state_event compressed_event =
     (from_be_bytes (take 8 compressed_event), from_be_bytes (drop 8 compressed_event))"

lemma parse_compress [simp]: "parse_compressed_state_event (compress_state_event k e) = (k, e)"
  by (simp add: parse_compressed_state_event_def compress_state_event_def)

lemma compress_parse:
  "length x = 16 \<Longrightarrow> compress_state_event (fst (parse_compressed_state_event x))
     (snd (parse_compressed_state_event x)) = x"
  by (simp add: parse_compressed_state_event_def compress_state_event_def to_from_be_bytes)

section \<open>The stored differences\<close>

definition encode_statediff :: "state_diff \<Rightarrow> bytes" where
  "encode_statediff diff =
     to_be_bytes (case sd_parent diff of Some p \<Rightarrow> p | None \<Rightarrow> 0) @ concat (sd_added diff)
     @ (if sd_removed diff \<noteq> [] then to_be_bytes 0 @ concat (sd_removed diff) else [])"

definition save_statediff :: "u64 \<Rightarrow> state_diff \<Rightarrow> (bytes \<times> bytes) list \<Rightarrow> (bytes \<times> bytes) list" where
  "save_statediff shortstatehash diff db = AList.update (to_be_bytes shortstatehash) (encode_statediff diff) db"

text \<open>The loop of \<open>get_statediff\<close> over the bytes behind the parent.\<close>

function parse_statediff :: "bytes \<Rightarrow> bool \<Rightarrow> compressed_state \<Rightarrow> compressed_state
    \<Rightarrow> compressed_state \<times> compressed_state" where
  "parse_statediff rest add_mode added removed =
     (if length rest < 16 then (added, removed)
      else
        let v = take 16 rest in
        if add_mode \<and> take 8 v = to_be_bytes 0 then parse_statediff (drop 8 rest) False added removed
        else if add_mode then parse_statediff (drop 16 rest) True (bts_insert v added) removed
        else parse_statediff (drop 16 rest) False added (bts_insert v removed))"
  by pat_completeness auto
termination
  by (relation "measure (\<lambda>(rest, _, _, _). length rest)") auto

declare parse_statediff.simps [simp del]

definition get_statediff :: "(bytes \<times> bytes) list \<Rightarrow> u64 \<Rightarrow> svc_error + state_diff" where
  "get_statediff db shortstatehash =
     try_bind (ok_or (map_of db (to_be_bytes shortstatehash)) (Database ''Failed to find StateDiff from short''))
       (\<lambda>value.
        if length value < 8 then Err (Panicked ''range end index out of range'')
        else
          let parent = (case u64_from_bytes (take 8 value) of
                          Ok p \<Rightarrow> (if p \<noteq> 0 then Some p else None) | Err _ \<Rightarrow> None);
              (added, removed) = parse_statediff (drop 8 value) True [] []
          in Ok \<lparr>sd_parent = parent, sd_added = added, sd_removed = removed\<rparr>)"

section \<open>Loading\<close>

text \<open>The cache: look-ups refresh an entry, insertions may evict others.\<close>

record ('c, 'k, 'v) lru =
  lru_get :: "'c \<Rightarrow> 'k \<Rightarrow> 'v option \<times> 'c"
  lru_insert :: "'c \<Rightarrow> 'k \<Rightarrow> 'v \<Rightarrow> 'c"

text \<open>What the code relies on: a cache returns only what was inserted under the key.\<close>

definition lru_ok :: "('c, 'k, 'v) lru \<Rightarrow> bool" where
  "lru_ok L \<longleftrightarrow>
     (\<forall>c k k' v. fst (lru_get L (snd (lru_get L c k)) k') = Some v \<longrightarrow> fst (lru_get L c k') = Some v)
     \<and> (\<forall>c k w k' v. fst (lru_get L (lru_insert L c k w) k') = Some v \<longrightarrow>
          k' = k \<and> v = w \<or> fst (lru_get L c k') = Some v)"

text \<open>A cache without bound has this behaviour.\<close>

definition plain_lru :: "(('k \<times> 'v) list, 'k, 'v) lru" where
  "plain_lru = \<lparr>lru_get = (\<lambda>c k. (map_of c k, c)), lru_insert = (\<lambda>c k v. AList.update k v c)\<rparr>"

lemma plain_lru_ok: "lru_ok plain_lru"
  by (auto simp: lru_ok_def plain_lru_def AList.update_conv' split: if_splits)

type_synonym 'c stateinfo_lru = "('c, u64, short_state_info list) lru"

record 'c compressor =
  stateinfo_cache :: 'c
  shortstatehash_statediff :: "(bytes \<times> bytes) list"

definition new_shortstatehash_info ::
    "('c compressor \<Rightarrow> u64 \<Rightarrow> svc_error + (short_state_info list \<times> 'c compressor))
     \<Rightarrow> 'c compressor \<Rightarrow> u64 \<Rightarrow> svc_error + (short_state_info list \<times> 'c compressor)" where
  "new_shortstatehash_info load_info s shortstatehash =
     try_bind (get_statediff (shortstatehash_statediff s) shortstatehash) (\<lambda>diff.
       case sd_parent diff of
         None \<Rightarrow> Ok ([\<lparr>info_hash = shortstatehash, full_state = sd_added diff,
                     info_added = sd_added diff, info_removed = sd_removed diff\<rparr>], s)
       | Some parent \<Rightarrow>
           try_bind (load_info s parent) (\<lambda>(stack, s).
             if stack = [] then Err (Panicked ''at least one frame'')
             else Ok (stack @ [\<lparr>info_hash = shortstatehash,
                      full_state = fold bts_remove (sd_removed diff)
                        (fold bts_insert (sd_added diff) (full_state (last stack))),
                      info_added = sd_added diff, info_removed = sd_removed diff\<rparr>], s)))"

fun load_shortstatehash_info :: "nat \<Rightarrow> 'c stateinfo_lru \<Rightarrow> 'c compressor \<Rightarrow> u64
    \<Rightarrow> svc_error + (short_state_info list \<times> 'c compressor)" where
  "load_shortstatehash_info 0 L s shortstatehash = Err NoFuel"
| "load_shortstatehash_info (Suc fuel) L s shortstatehash =
     (case lru_get L (stateinfo_cache s) shortstatehash of
        (Some r, c) \<Rightarrow> Ok (r, s\<lparr>stateinfo_cache := c\<rparr>)
      | (None, c) \<Rightarrow>
          try_bind (new_shortstatehash_info (load_shortstatehash_info fuel L)
                     (s\<lparr>stateinfo_cache := c\<rparr>) shortstatehash) (\<lambda>(stack, s).
            Ok (stack, s\<lparr>stateinfo_cache := lru_insert L (stateinfo_cache s) shortstatehash stack\<rparr>)))"

section \<open>Saving\<close>

definition merge_removed :: "compressed_state \<Rightarrow> compressed_state \<times> compressed_state
    \<Rightarrow> compressed_state \<times> compressed_state" where
  "merge_removed = fold (\<lambda>x (parent_new, parent_removed).
     if x \<in> set parent_new then (bts_remove x parent_new, parent_removed)
     else (parent_new, bts_insert x parent_removed))"

definition merge_new :: "compressed_state \<Rightarrow> compressed_state \<times> compressed_state
    \<Rightarrow> compressed_state \<times> compressed_state" where
  "merge_new = fold (\<lambda>x (parent_new, parent_removed).
     if x \<in> set parent_removed then (parent_new, bts_remove x parent_removed)
     else (bts_insert x parent_new, parent_removed))"

text \<open>The macro \<open>checked!\<close> on \<open>usize\<close> values.\<close>

definition checked_usize :: "int \<Rightarrow> svc_error + int" where
  "checked_usize x = (if x < 18446744073709551616 then Ok x else Err (Arithmetic ''operation overflowed''))"

definition state_len :: "compressed_state \<Rightarrow> int" where
  "state_len xs = int (length xs)"

function save_state_from_diff :: "(bytes \<times> bytes) list \<Rightarrow> u64 \<Rightarrow> compressed_state \<Rightarrow> compressed_state
    \<Rightarrow> int \<Rightarrow> short_state_info list \<Rightarrow> svc_error + (bytes \<times> bytes) list" where
  "save_state_from_diff db shortstatehash statediffnew statediffremoved diff_to_sibling parent_states =
     try_bind (checked_usize (state_len statediffnew + state_len statediffremoved)) (\<lambda>diffsum.
     if 3 < length parent_states then
       let parent = last parent_states;
           (parent_new, parent_removed) =
             merge_new statediffnew (merge_removed statediffremoved (info_added parent, info_removed parent))
       in save_state_from_diff db shortstatehash parent_new parent_removed diffsum (butlast parent_states)
     else if parent_states = [] then
       Ok (save_statediff shortstatehash
             \<lparr>sd_parent = None, sd_added = statediffnew, sd_removed = statediffremoved\<rparr> db)
     else
       let parent = last parent_states in
       try_bind (checked_usize (state_len (info_added parent) + state_len (info_removed parent)))
         (\<lambda>parent_diff.
       try_bind (checked_usize (diffsum * diffsum)) (\<lambda>diff_square.
       try_bind (checked_usize (2 * diff_to_sibling)) (\<lambda>double.
       try_bind (checked_usize (double * parent_diff)) (\<lambda>limit.
         if limit \<le> diff_square then
           let (parent_new, parent_removed) =
             merge_new statediffnew (merge_removed statediffremoved (info_added parent, info_removed parent))
           in save_state_from_diff db shortstatehash parent_new parent_removed diffsum (butlast parent_states)
         else
           Ok (save_statediff shortstatehash
                 \<lparr>sd_parent = Some (info_hash parent), sd_added = statediffnew,
                  sd_removed = statediffremoved\<rparr> db))))))"
  by pat_completeness auto
termination
  by (relation "measure (\<lambda>(_, _, _, _, _, ps). length ps)") auto

declare save_state_from_diff.simps [simp del]

section \<open>Sets of bytes\<close>

lemma set_bts [simp]:
  "set (bts_insert x xs) = insert x (set xs)"
  "set (bts_difference xs ys) = set xs - set ys"
  by (auto simp: bts_insert_def bts_difference_def set_insort_insert)

definition sorted_set :: "compressed_state \<Rightarrow> bool" where
  "sorted_set xs \<longleftrightarrow> sorted xs \<and> distinct xs"

lemma sorted_set_simps [simp]:
  "sorted_set []"
  "sorted_set xs \<Longrightarrow> sorted_set (bts_insert x xs)"
  "sorted_set xs \<Longrightarrow> sorted_set (bts_remove x xs)"
  "sorted_set xs \<Longrightarrow> sorted_set (bts_difference xs ys)"
  by (simp_all add: sorted_set_def bts_insert_def bts_remove_def bts_difference_def
      sorted_insort_insert distinct_insort_insert sorted_remove1 sorted_wrt_filter)

lemma set_bts_remove [simp]: "sorted_set xs \<Longrightarrow> set (bts_remove x xs) = set xs - {x}"
  by (simp add: bts_remove_def sorted_set_def)

lemma sorted_set_eq: "sorted_set xs \<Longrightarrow> sorted_set ys \<Longrightarrow> set xs = set ys \<Longrightarrow> xs = ys"
  by (simp add: sorted_set_def sorted_distinct_set_unique)

lemma fold_bts_insert:
  "sorted_set ys \<Longrightarrow> sorted_set (fold bts_insert xs ys) \<and> set (fold bts_insert xs ys) = set xs \<union> set ys"
  by (induction xs arbitrary: ys) auto

lemma fold_bts_remove:
  "sorted_set ys \<Longrightarrow> sorted_set (fold bts_remove xs ys) \<and> set (fold bts_remove xs ys) = set ys - set xs"
  by (induction xs arbitrary: ys) auto


section \<open>Round trip of a difference\<close>

text \<open>An entry has 16 bytes; the state key of an entry that is added is a positive number.\<close>

definition wf_entries :: "compressed_state \<Rightarrow> bool" where
  "wf_entries xs \<longleftrightarrow> sorted_set xs \<and> (\<forall>x \<in> set xs. length x = 16)"

definition keyed :: "compressed_state \<Rightarrow> bool" where
  "keyed xs \<longleftrightarrow> (\<forall>x \<in> set xs. take 8 x \<noteq> to_be_bytes 0)"

lemma parse_statediff_removed:
  "\<forall>x \<in> set xs. length x = 16 \<Longrightarrow>
   parse_statediff (concat xs) False added removed = (added, fold bts_insert xs removed)"
proof (induction xs arbitrary: removed)
  case Nil
  show ?case by (simp add: parse_statediff.simps)
next
  case (Cons x xs)
  then show ?case by (subst parse_statediff.simps) simp
qed

lemma parse_statediff_added:
  "\<forall>x \<in> set xs. length x = 16 \<and> take 8 x \<noteq> to_be_bytes 0 \<Longrightarrow>
   parse_statediff (concat xs @ rest) True added removed
     = parse_statediff rest True (fold bts_insert xs added) removed"
proof (induction xs arbitrary: added)
  case (Cons x xs)
  then show ?case by (subst parse_statediff.simps) simp
qed simp

lemma fold_bts_insert_Nil: "sorted_set xs \<Longrightarrow> fold bts_insert xs [] = xs"
  using fold_bts_insert [of "[]" xs] by (auto intro: sorted_set_eq)

lemma parse_statediff_encoded:
  assumes "wf_entries added" and "keyed added" and "wf_entries removed"
  shows "parse_statediff (concat added @ (if removed \<noteq> [] then to_be_bytes 0 @ concat removed else []))
     True [] [] = (added, removed)"
proof -
  let ?rest = "if removed \<noteq> [] then to_be_bytes 0 @ concat removed else []"
  have "parse_statediff ?rest True added [] = (added, removed)"
  proof (cases removed)
    case Nil
    then show ?thesis by (simp add: parse_statediff.simps)
  next
    case (Cons x xs)
    then have "parse_statediff ?rest True added [] = parse_statediff (concat removed) False added []"
      using assms(3) by (subst parse_statediff.simps) (simp add: wf_entries_def)
    then show ?thesis
      using assms(3) by (simp add: wf_entries_def parse_statediff_removed fold_bts_insert_Nil)
  qed
  then show ?thesis
    using assms(1,2) by (simp add: parse_statediff_added wf_entries_def keyed_def fold_bts_insert_Nil)
qed

definition wf_diff :: "state_diff \<Rightarrow> bool" where
  "wf_diff d \<longleftrightarrow> wf_entries (sd_added d) \<and> keyed (sd_added d) \<and> wf_entries (sd_removed d)
     \<and> sd_parent d \<noteq> Some 0"

lemma get_save_statediff:
  "wf_diff d \<Longrightarrow> get_statediff (save_statediff h d db) h = Ok d"
  "h' \<noteq> h \<Longrightarrow> get_statediff (save_statediff h d db) h' = get_statediff db h'"
  by (auto simp: get_statediff_def save_statediff_def encode_statediff_def AList.update_conv' wf_diff_def
      parse_statediff_encoded split: option.split)

section \<open>What loading returns\<close>

text \<open>
  The layers of a state, without cache and fuel: a difference without parent stands alone; one with
  a parent lies on top of the layers of its parent.
\<close>

definition on_top :: "u64 \<Rightarrow> compressed_state \<Rightarrow> state_diff \<Rightarrow> short_state_info" where
  "on_top h base d = \<lparr>info_hash = h,
     full_state = fold bts_remove (sd_removed d) (fold bts_insert (sd_added d) base),
     info_added = sd_added d, info_removed = sd_removed d\<rparr>"

definition alone :: "u64 \<Rightarrow> state_diff \<Rightarrow> short_state_info" where
  "alone h d = \<lparr>info_hash = h, full_state = sd_added d, info_added = sd_added d, info_removed = sd_removed d\<rparr>"

inductive stack_of :: "(bytes \<times> bytes) list \<Rightarrow> u64 \<Rightarrow> short_state_info list \<Rightarrow> bool" for db where
  bottom: "get_statediff db h = Ok d \<Longrightarrow> sd_parent d = None \<Longrightarrow> stack_of db h [alone h d]"
| layer: "get_statediff db h = Ok d \<Longrightarrow> sd_parent d = Some p \<Longrightarrow> stack_of db p st \<Longrightarrow>
    stack_of db h (st @ [on_top h (full_state (last st)) d])"

lemma stack_of_nonempty: "stack_of db h st \<Longrightarrow> st \<noteq> []"
  by (induction rule: stack_of.induct) auto

lemma stack_of_unique: "stack_of db h st \<Longrightarrow> stack_of db h st' \<Longrightarrow> st = st'"
proof (induction arbitrary: st' rule: stack_of.induct)
  case (bottom h d)
  from bottom.prems show ?case
  proof cases
    case (bottom d')
    then show ?thesis using \<open>get_statediff db h = Ok d\<close> by simp
  next
    case (layer d' p st0)
    then show ?thesis using \<open>get_statediff db h = Ok d\<close> \<open>sd_parent d = None\<close> by simp
  qed
next
  case (layer h d p st)
  from layer.prems show ?case
  proof cases
    case (bottom d')
    then show ?thesis using layer.hyps by simp
  next
    case (layer d' p' st0)
    have "d' = d" using layer(2) \<open>get_statediff db h = Ok d\<close> by simp
    moreover have "p' = p" using layer(3) \<open>sd_parent d = Some p\<close> \<open>d' = d\<close> by simp
    ultimately show ?thesis using layer(1,4) \<open>\<And>st'. stack_of db p st' \<Longrightarrow> st = st'\<close> [of st0] by simp
  qed
qed

text \<open>Every layer of a stack is the top of the stack below it.\<close>

lemma stack_of_prefix:
  "stack_of db h st \<Longrightarrow> i < length st \<Longrightarrow> stack_of db (info_hash (st ! i)) (take (Suc i) st)"
proof (induction rule: stack_of.induct)
  case (bottom h d)
  then show ?case using stack_of.bottom [of db h d] by (simp add: alone_def)
next
  case (layer h d p st)
  then show ?case
    using stack_of.layer [OF layer.hyps]
    by (cases "i = length st") (auto simp: nth_append on_top_def)
qed

text \<open>A new difference under an unused number changes no stack.\<close>

lemma stack_of_save:
  assumes "stack_of db h st" and "map_of db (to_be_bytes h0) = None"
  shows "stack_of (save_statediff h0 d db) h st"
proof -
  have ne: "h \<noteq> h0" if "get_statediff db h = Ok e" for h e
    using that assms(2) by (auto simp: get_statediff_def)
  from assms(1) show ?thesis
    by (induction rule: stack_of.induct)
       (auto intro!: stack_of.intros simp: get_save_statediff(2) ne)
qed

definition cache_sound :: "'c stateinfo_lru \<Rightarrow> 'c compressor \<Rightarrow> bool" where
  "cache_sound L s \<longleftrightarrow> (\<forall>h st. fst (lru_get L (stateinfo_cache s) h) = Some st \<longrightarrow>
     stack_of (shortstatehash_statediff s) h st)"

lemma lru_okD:
  assumes "lru_ok L"
  shows "fst (lru_get L (snd (lru_get L c k)) k') = Some v \<Longrightarrow> fst (lru_get L c k') = Some v"
    and "fst (lru_get L (lru_insert L c k w) k') = Some v \<Longrightarrow>
      k' = k \<and> v = w \<or> fst (lru_get L c k') = Some v"
  using assms unfolding lru_ok_def by blast+

lemma cache_soundI:
  "(\<And>h st. fst (lru_get L (stateinfo_cache s) h) = Some st \<Longrightarrow> stack_of (shortstatehash_statediff s) h st)
   \<Longrightarrow> cache_sound L s"
  unfolding cache_sound_def by blast

lemma cache_soundD:
  "cache_sound L s \<Longrightarrow> fst (lru_get L (stateinfo_cache s) h) = Some st \<Longrightarrow>
   stack_of (shortstatehash_statediff s) h st"
  unfolding cache_sound_def by blast

lemma cache_sound_get:
  assumes "lru_ok L" and "cache_sound L s"
  shows "cache_sound L (s\<lparr>stateinfo_cache := snd (lru_get L (stateinfo_cache s) h)\<rparr>)"
  by (rule cache_soundI, simp) (blast intro: cache_soundD [OF assms(2)] lru_okD(1) [OF assms(1)])

lemma cache_sound_insert:
  assumes "lru_ok L" and "cache_sound L s" and "stack_of (shortstatehash_statediff s) h st"
  shows "cache_sound L (s\<lparr>stateinfo_cache := lru_insert L (stateinfo_cache s) h st\<rparr>)"
  by (rule cache_soundI, simp)
     (use assms(3) in \<open>blast intro: cache_soundD [OF assms(2)] dest: lru_okD(2) [OF assms(1)]\<close>)

lemma load_sound:
  assumes "lru_ok L"
  shows "cache_sound L s \<Longrightarrow> load_shortstatehash_info fuel L s h = Ok (st, s') \<Longrightarrow>
    stack_of (shortstatehash_statediff s) h st \<and> cache_sound L s'
    \<and> shortstatehash_statediff s' = shortstatehash_statediff s"
proof (induction fuel arbitrary: s h st s')
  case (Suc fuel)
  obtain r c where rc: "lru_get L (stateinfo_cache s) h = (r, c)" by fastforce
  let ?s = "s\<lparr>stateinfo_cache := c\<rparr>"
  have ok: "cache_sound L ?s" using cache_sound_get [OF assms Suc.prems(1), of h] rc by simp
  show ?case
  proof (cases r)
    case (Some v)
    then show ?thesis using Suc.prems(2) rc ok cache_soundD [OF Suc.prems(1), of h v] by auto
  next
    case None
    from Suc.prems(2) rc None obtain t where
      new: "new_shortstatehash_info (load_shortstatehash_info fuel L) ?s h = Ok (st, t)"
      and s': "s' = t\<lparr>stateinfo_cache := lru_insert L (stateinfo_cache t) h st\<rparr>"
      by (auto simp: try_bind_eq_Ok)
    have "stack_of (shortstatehash_statediff s) h st \<and> cache_sound L t
      \<and> shortstatehash_statediff t = shortstatehash_statediff s"
    proof -
      from new obtain d where d: "get_statediff (shortstatehash_statediff s) h = Ok d"
        by (auto simp: new_shortstatehash_info_def try_bind_eq_Ok)
      show ?thesis
      proof (cases "sd_parent d")
        case None
        then show ?thesis using new d ok stack_of.bottom [OF d]
          by (auto simp: new_shortstatehash_info_def alone_def)
      next
        case (Some p)
        with new d obtain st0 where p: "load_shortstatehash_info fuel L ?s p = Ok (st0, t)"
          and st: "st = st0 @ [on_top h (full_state (last st0)) d]"
          by (auto simp: new_shortstatehash_info_def try_bind_eq_Ok on_top_def split: if_splits)
        from Suc.IH [OF ok p] stack_of.layer [OF d Some] st show ?thesis by simp
      qed
    qed
    then show ?thesis using cache_sound_insert [OF assms, of t h st] s' by simp
  qed
qed simp

text \<open>Fuel for the number of layers is enough.\<close>

lemma load_total:
  assumes "lru_ok L"
  shows "stack_of (shortstatehash_statediff s) h st \<Longrightarrow> cache_sound L s \<Longrightarrow> length st \<le> fuel \<Longrightarrow>
    \<exists>s'. load_shortstatehash_info fuel L s h = Ok (st, s')"
proof (induction fuel arbitrary: s h st)
  case 0
  then show ?case using stack_of_nonempty by fastforce
next
  case (Suc fuel)
  obtain r c where rc: "lru_get L (stateinfo_cache s) h = (r, c)" by fastforce
  let ?s = "s\<lparr>stateinfo_cache := c\<rparr>"
  have ok: "cache_sound L ?s" using cache_sound_get [OF assms Suc.prems(2), of h] rc by simp
  show ?case
  proof (cases r)
    case (Some v)
    then have "stack_of (shortstatehash_statediff s) h v"
      using cache_soundD [OF Suc.prems(2)] rc by simp
    then have "v = st" using stack_of_unique [OF Suc.prems(1)] by simp
    then show ?thesis using rc Some by simp
  next
    case None
    from Suc.prems(1) have "\<exists>t. new_shortstatehash_info (load_shortstatehash_info fuel L) ?s h = Ok (st, t)"
    proof cases
      case (bottom d)
      then show ?thesis by (simp add: new_shortstatehash_info_def alone_def)
    next
      case (layer d p st0)
      then obtain t where "load_shortstatehash_info fuel L ?s p = Ok (st0, t)"
        using Suc.IH [of ?s p st0] ok Suc.prems(3) by auto
      then show ?thesis
        using layer stack_of_nonempty [OF layer(4)] by (auto simp: new_shortstatehash_info_def on_top_def)
    qed
    then show ?thesis using rc None by auto
  qed
qed

section \<open>Merging differences\<close>

lemma merge_removed_sets:
  "sorted_set xs \<Longrightarrow> sorted_set pn \<Longrightarrow> sorted_set pr \<Longrightarrow> merge_removed xs (pn, pr) = (pn', pr') \<Longrightarrow>
   sorted_set pn' \<and> sorted_set pr' \<and> set pn' = set pn - set xs \<and> set pr' = set pr \<union> (set xs - set pn)"
proof (induction xs arbitrary: pn pr)
  case (Cons x xs)
  have xs: "sorted_set xs" and x: "x \<notin> set xs" using Cons.prems(1) by (simp_all add: sorted_set_def)
  show ?case
  proof (cases "x \<in> set pn")
    case True
    with Cons.prems(4) have "merge_removed xs (bts_remove x pn, pr) = (pn', pr')"
      by (simp add: merge_removed_def)
    from Cons.IH [OF xs _ _ this] Cons.prems x True show ?thesis by auto
  next
    case False
    with Cons.prems(4) have "merge_removed xs (pn, bts_insert x pr) = (pn', pr')"
      by (simp add: merge_removed_def)
    from Cons.IH [OF xs _ _ this] Cons.prems x False show ?thesis by auto
  qed
qed (simp add: merge_removed_def)

lemma merge_new_sets:
  "sorted_set xs \<Longrightarrow> sorted_set pn \<Longrightarrow> sorted_set pr \<Longrightarrow> merge_new xs (pn, pr) = (pn', pr') \<Longrightarrow>
   sorted_set pn' \<and> sorted_set pr' \<and> set pr' = set pr - set xs \<and> set pn' = set pn \<union> (set xs - set pr)"
proof (induction xs arbitrary: pn pr)
  case (Cons x xs)
  have xs: "sorted_set xs" and x: "x \<notin> set xs" using Cons.prems(1) by (simp_all add: sorted_set_def)
  show ?case
  proof (cases "x \<in> set pr")
    case True
    with Cons.prems(4) have "merge_new xs (pn, bts_remove x pr) = (pn', pr')"
      by (simp add: merge_new_def)
    from Cons.IH [OF xs _ _ this] Cons.prems x True show ?thesis by auto
  next
    case False
    with Cons.prems(4) have "merge_new xs (bts_insert x pn, pr) = (pn', pr')"
      by (simp add: merge_new_def)
    from Cons.IH [OF xs _ _ this] Cons.prems x False show ?thesis by auto
  qed
qed (simp add: merge_new_def)

text \<open>
  A difference fits a state if it adds what the state has not and removes what it has. A layer fits
  the state below it, and its full state is that state with the difference applied.
\<close>

definition fits :: "compressed_state \<Rightarrow> compressed_state \<Rightarrow> compressed_state \<Rightarrow> bool" where
  "fits base new removed \<longleftrightarrow> wf_entries new \<and> keyed new \<and> wf_entries removed
     \<and> set new \<inter> set base = {} \<and> set removed \<subseteq> set base"

definition layer_ok :: "compressed_state \<Rightarrow> short_state_info \<Rightarrow> bool" where
  "layer_ok base i \<longleftrightarrow> fits base (info_added i) (info_removed i)
     \<and> wf_entries (full_state i) \<and> keyed (full_state i) \<and> info_hash i \<noteq> 0
     \<and> set (full_state i) = set base \<union> set (info_added i) - set (info_removed i)"

lemma merge_fits:
  assumes "layer_ok base i" and "fits (full_state i) new rem"
    and "merge_new new (merge_removed rem (info_added i, info_removed i)) = (pn, pr)"
  shows "fits base pn pr \<and> set base \<union> set pn - set pr = set (full_state i) \<union> set new - set rem"
proof -
  obtain qn qr where q: "merge_removed rem (info_added i, info_removed i) = (qn, qr)" by fastforce
  note fit = assms(1) [unfolded layer_ok_def fits_def wf_entries_def]
    and new = assms(2) [unfolded fits_def wf_entries_def]
  have r: "sorted_set qn \<and> sorted_set qr \<and> set qn = set (info_added i) - set rem
      \<and> set qr = set (info_removed i) \<union> (set rem - set (info_added i))"
    using merge_removed_sets [OF _ _ _ q] fit new by blast
  have m: "sorted_set pn \<and> sorted_set pr \<and> set pr = set qr - set new \<and> set pn = set qn \<union> (set new - set qr)"
    using merge_new_sets [of new qn qr pn pr] r new assms(3) q by simp
  have full: "set (full_state i) = set base \<union> set (info_added i) - set (info_removed i)" using fit by blast
  have "set pn \<inter> set base = {}" "set pr \<subseteq> set base" using m r full fit new by auto
  moreover have "set base \<union> set pn - set pr = set (full_state i) \<union> set new - set rem"
    using m r full fit new by auto
  moreover have "\<forall>x \<in> set pn. length x = 16 \<and> take 8 x \<noteq> to_be_bytes 0" "\<forall>x \<in> set pr. length x = 16"
    using m r fit new unfolding keyed_def by auto
  ultimately show ?thesis using m by (simp add: fits_def wf_entries_def keyed_def)
qed

section \<open>Stacks of layers\<close>

fun wf_layers :: "compressed_state \<Rightarrow> short_state_info list \<Rightarrow> bool" where
  "wf_layers base [] \<longleftrightarrow> True"
| "wf_layers base (i # is) \<longleftrightarrow> layer_ok base i \<and> wf_layers (full_state i) is"

definition top_state :: "short_state_info list \<Rightarrow> compressed_state" where
  "top_state ps = (if ps = [] then [] else full_state (last ps))"

lemma wf_layers_snoc:
  "wf_layers base (ps @ [i]) \<longleftrightarrow>
   wf_layers base ps \<and> layer_ok (if ps = [] then base else full_state (last ps)) i"
  by (induction ps arbitrary: base) auto

definition wf_stack :: "(bytes \<times> bytes) list \<Rightarrow> short_state_info list \<Rightarrow> bool" where
  "wf_stack db ps \<longleftrightarrow> wf_layers [] ps \<and> (ps \<noteq> [] \<longrightarrow> stack_of db (info_hash (last ps)) ps)"

lemma wf_stack_snocD:
  assumes "wf_stack db (ps @ [i])"
  shows "wf_stack db ps" and "layer_ok (top_state ps) i" and "stack_of db (info_hash i) (ps @ [i])"
proof -
  show st: "stack_of db (info_hash i) (ps @ [i])" using assms by (simp add: wf_stack_def)
  show "layer_ok (top_state ps) i" using assms by (simp add: wf_stack_def wf_layers_snoc top_state_def)
  have "stack_of db (info_hash (last ps)) ps" if "ps \<noteq> []"
    using stack_of_prefix [OF st, of "length ps - 1"] that
    by (cases ps rule: rev_cases) (auto simp: nth_append)
  then show "wf_stack db ps" using assms by (auto simp: wf_stack_def wf_layers_snoc)
qed

lemma on_top_layer_ok:
  assumes "fits base new rem" and "wf_entries base" and "keyed base" and "h \<noteq> 0"
  shows "layer_ok base (on_top h base \<lparr>sd_parent = p, sd_added = new, sd_removed = rem\<rparr>)"
proof -
  let ?add = "fold bts_insert new base" and ?full = "fold bts_remove rem (fold bts_insert new base)"
  have add: "sorted_set ?add" "set ?add = set new \<union> set base"
    using fold_bts_insert [of base new] assms(2) by (simp_all add: wf_entries_def)
  have "sorted_set ?full" "set ?full = set new \<union> set base - set rem"
    using fold_bts_remove [OF add(1), of rem] add(2) by simp_all
  then show ?thesis
    using assms by (auto simp: layer_ok_def on_top_def fits_def wf_entries_def keyed_def)
qed

section \<open>Saving a state\<close>

lemma save_state_from_diff_Nil:
  "save_state_from_diff db h new rem dts [] = Ok db' \<Longrightarrow>
   db' = save_statediff h \<lparr>sd_parent = None, sd_added = new, sd_removed = rem\<rparr> db"
  by (subst (asm) save_state_from_diff.simps) (auto simp: try_bind_eq_Ok)

lemma save_state_from_diff_snoc:
  assumes "save_state_from_diff db h new rem dts (ps @ [i]) = Ok db'"
  obtains (merge) pn pr dts' where
      "merge_new new (merge_removed rem (info_added i, info_removed i)) = (pn, pr)"
      "save_state_from_diff db h pn pr dts' ps = Ok db'"
  | (put) "length ps < 3"
      "db' = save_statediff h \<lparr>sd_parent = Some (info_hash i), sd_added = new, sd_removed = rem\<rparr> db"
proof -
  obtain pn pr where m: "merge_new new (merge_removed rem (info_added i, info_removed i)) = (pn, pr)"
    by fastforce
  from assms merge [OF m] put show thesis
    by (subst (asm) save_state_from_diff.simps)
       (auto simp: try_bind_eq_Ok m Let_def split: if_splits)
qed

text \<open>
  Saving adds one entry to the store. The layers that are loaded afterwards are at most four and well
  formed, and the state on top is the old one with the difference applied.
\<close>

definition saved :: "u64 \<Rightarrow> (bytes \<times> bytes) list \<Rightarrow> (bytes \<times> bytes) list \<Rightarrow> bytes set \<Rightarrow> bool" where
  "saved h db db' target \<longleftrightarrow>
     (\<exists>d. db' = save_statediff h d db)
     \<and> (\<exists>st. stack_of db' h st \<and> wf_layers [] st \<and> length st \<le> 4 \<and> set (top_state st) = target)"

lemma saved_alone:
  assumes "fits [] new rem" and "h \<noteq> 0"
  shows "saved h db (save_statediff h \<lparr>sd_parent = None, sd_added = new, sd_removed = rem\<rparr> db) (set new)"
proof -
  let ?d = "\<lparr>sd_parent = None, sd_added = new, sd_removed = rem\<rparr>"
  have "wf_diff ?d" using assms(1) by (simp add: wf_diff_def fits_def) (simp add: wf_entries_def)
  then have "stack_of (save_statediff h ?d db) h [alone h ?d]"
    by (intro stack_of.bottom) (simp_all add: get_save_statediff)
  moreover have "wf_layers [] [alone h ?d]"
    using assms by (simp add: layer_ok_def alone_def fits_def wf_entries_def keyed_def)
  ultimately show ?thesis unfolding saved_def
    by (intro conjI exI [of _ "[alone h ?d]"]) (auto simp: top_state_def alone_def)
qed

lemma saved_on_top:
  assumes "wf_stack db ps" and "ps \<noteq> []" and "length ps \<le> 3" and "fits (top_state ps) new rem"
    and "map_of db (to_be_bytes h) = None" and "h \<noteq> 0"
  shows "saved h db
    (save_statediff h \<lparr>sd_parent = Some (info_hash (last ps)), sd_added = new, sd_removed = rem\<rparr> db)
    (set (top_state ps) \<union> set new - set rem)"
proof -
  let ?d = "\<lparr>sd_parent = Some (info_hash (last ps)), sd_added = new, sd_removed = rem\<rparr>"
  let ?top = "on_top h (full_state (last ps)) ?d"
  have top: "top_state ps = full_state (last ps)" using assms(2) by (simp add: top_state_def)
  from assms(1,2) have last: "layer_ok (top_state (butlast ps)) (last ps)"
    using wf_stack_snocD(2) [of db "butlast ps" "last ps"] by simp
  have "wf_diff ?d" using assms(4) last by (simp add: wf_diff_def fits_def layer_ok_def)
  moreover have "stack_of db (info_hash (last ps)) ps" using assms(1,2) by (simp add: wf_stack_def)
  ultimately have st: "stack_of (save_statediff h ?d db) h (ps @ [?top])"
    using stack_of_save [OF _ assms(5), of "info_hash (last ps)" ps ?d]
    by (intro stack_of.layer) (simp_all add: get_save_statediff)
  have ok: "layer_ok (top_state ps) ?top"
    using on_top_layer_ok [of "top_state ps" new rem h] assms(4,6) last by (simp add: top layer_ok_def)
  then have "wf_layers [] (ps @ [?top])"
    using assms(1,2) by (simp add: wf_layers_snoc wf_stack_def top)
  moreover have "set (top_state (ps @ [?top])) = set (top_state ps) \<union> set new - set rem"
    using ok by (simp add: top_state_def layer_ok_def on_top_def)
  ultimately show ?thesis unfolding saved_def
    using st assms(3) by (intro conjI exI [of _ "ps @ [?top]"]) auto
qed

lemma save_state_from_diff_saved:
  assumes "map_of db (to_be_bytes h) = None" and "h \<noteq> 0"
  shows "wf_stack db ps \<Longrightarrow> fits (top_state ps) new rem \<Longrightarrow>
    save_state_from_diff db h new rem dts ps = Ok db' \<Longrightarrow>
    saved h db db' (set (top_state ps) \<union> set new - set rem)"
proof (induction ps arbitrary: new rem dts rule: rev_induct)
  case Nil
  then show ?case
    using saved_alone [of new rem h db] assms(2) save_state_from_diff_Nil
    by (auto simp: top_state_def fits_def)
next
  case (snoc i ps)
  note below = wf_stack_snocD [OF snoc.prems(1)]
  have full: "top_state (ps @ [i]) = full_state i" by (simp add: top_state_def)
  from snoc.prems(3) show ?case
  proof (cases rule: save_state_from_diff_snoc)
    case (merge pn pr dts')
    note m = merge_fits [OF below(2) snoc.prems(2) [unfolded full] merge(1)]
    with snoc.IH [OF below(1) _ merge(2)] show ?thesis by (simp add: full)
  next
    case put
    then show ?thesis using saved_on_top [OF snoc.prems(1) _ _ snoc.prems(2) assms] by simp
  qed
qed

end
