(* ===== verification/Room_State.thy ===== *)
theory Room_State
  imports State_Compressor Timeline
begin

text \<open>
  The state of rooms as the services \<open>rooms/state_compressor\<close>, \<open>rooms/state\<close> and
  \<open>rooms/state_accessor\<close> keep it: \<open>save_state\<close>, \<open>set_event_state\<close>, \<open>append_to_state\<close>, the current
  state and the forward extremities of a room, and the look-ups in a stored state. The abstract
  view of a stored state is a partial map from event type and state key to event.
\<close>

section \<open>The tables\<close>

record 'c state_db =
  rs_short :: short_db
  rs_comp :: "'c compressor"
  roomid_shortstatehash :: "(string \<times> u64) list"
  shorteventid_shortstatehash :: "(u64 \<times> u64) list"
  roomid_pduleaves :: "(string \<times> event_id) list"

text \<open>
  What the services are built on: the cache of the compressor, the hash function of the crate
  \<open>ring\<close>, and fuel for the recursion over the layers of a state.
\<close>

record 'c state_env =
  env_lru :: "'c stateinfo_lru"
  env_sha256 :: "bytes \<Rightarrow> bytes"
  env_fuel :: nat

fun delimited_input :: "bytes list \<Rightarrow> bytes" where
  "delimited_input [] = []"
| "delimited_input [x] = x"
| "delimited_input (x # xs) = x @ [0xFF] @ delimited_input xs"

definition calculate_hash :: "'c state_env \<Rightarrow> bytes list \<Rightarrow> bytes" where
  "calculate_hash env inputs = env_sha256 env (delimited_input inputs)"

definition load_info :: "'c state_env \<Rightarrow> 'c state_db \<Rightarrow> u64
    \<Rightarrow> svc_error + (short_state_info list \<times> 'c state_db)" where
  "load_info env s h =
     try_bind (load_shortstatehash_info (env_fuel env) (env_lru env) (rs_comp s) h) (\<lambda>(st, c).
       Ok (st, s\<lparr>rs_comp := c\<rparr>))"

definition put_diffs :: "(bytes \<times> bytes) list \<Rightarrow> 'c state_db \<Rightarrow> 'c state_db" where
  "put_diffs db s = s\<lparr>rs_comp := (rs_comp s)\<lparr>shortstatehash_statediff := db\<rparr>\<rparr>"

abbreviation diffs_of :: "'c state_db \<Rightarrow> (bytes \<times> bytes) list" where
  "diffs_of s \<equiv> shortstatehash_statediff (rs_comp s)"

section \<open>Current state and forward extremities of a room\<close>

definition get_room_shortstatehash :: "'c state_db \<Rightarrow> string \<Rightarrow> u64 option" where
  "get_room_shortstatehash s room_id = map_of (roomid_shortstatehash s) room_id"

definition set_room_state :: "string \<Rightarrow> u64 \<Rightarrow> 'c state_db \<Rightarrow> 'c state_db" where
  "set_room_state room_id shortstatehash s =
     s\<lparr>roomid_shortstatehash := AList.update room_id shortstatehash (roomid_shortstatehash s)\<rparr>"

definition get_forward_extremities :: "'c state_db \<Rightarrow> string \<Rightarrow> event_id list" where
  "get_forward_extremities s room_id = map snd (filter (\<lambda>(r, _). r = room_id) (roomid_pduleaves s))"

definition set_forward_extremities :: "string \<Rightarrow> event_id list \<Rightarrow> 'c state_db \<Rightarrow> 'c state_db" where
  "set_forward_extremities room_id event_ids s =
     s\<lparr>roomid_pduleaves := fold (\<lambda>i. insort_insert (room_id, i)) event_ids
         (filter (\<lambda>(r, _). r \<noteq> room_id) (roomid_pduleaves s))\<rparr>"

section \<open>Saving states\<close>

definition diff_states :: "compressed_state \<Rightarrow> short_state_info list
    \<Rightarrow> compressed_state \<times> compressed_state" where
  "diff_states new_state states_parents =
     (if states_parents = [] then (new_state, [])
      else (bts_difference new_state (full_state (last states_parents)),
            bts_difference (full_state (last states_parents)) new_state))"

record hashset_compress_state_event =
  hs_shortstatehash :: u64
  hs_added :: compressed_state
  hs_removed :: compressed_state

text \<open>\<open>load_shortstatehash_info(p).await.unwrap_or_default()\<close>\<close>

definition load_or_default :: "'c state_env \<Rightarrow> 'c state_db \<Rightarrow> u64 option
    \<Rightarrow> short_state_info list \<times> 'c state_db" where
  "load_or_default env s previous =
     (case previous of
        None \<Rightarrow> ([], s)
      | Some p \<Rightarrow> (case load_info env s p of Ok (st, s') \<Rightarrow> (st, s') | Err _ \<Rightarrow> ([], s)))"

definition save_state :: "'c state_env \<Rightarrow> string \<Rightarrow> compressed_state \<Rightarrow> 'c state_db
    \<Rightarrow> svc_error + (hashset_compress_state_event \<times> 'c state_db)" where
  "save_state env room_id new_state s =
     (let previous = get_room_shortstatehash s room_id;
          state_hash = calculate_hash env new_state in
      try_bind (get_or_create_shortstatehash (rs_short s) state_hash) (\<lambda>((h, already_existed), sh).
        let s = s\<lparr>rs_short := sh\<rparr> in
        if Some h = previous then Ok (\<lparr>hs_shortstatehash = h, hs_added = [], hs_removed = []\<rparr>, s)
        else
          let (states_parents, s) = load_or_default env s previous;
              (diffnew, diffremoved) = diff_states new_state states_parents;
              result = \<lparr>hs_shortstatehash = h, hs_added = diffnew, hs_removed = diffremoved\<rparr> in
          if already_existed then Ok (result, s)
          else
            try_bind (save_state_from_diff (diffs_of s) h diffnew diffremoved 2 states_parents)
              (\<lambda>db. Ok (result, put_diffs db s))))"

definition load_parents :: "'c state_env \<Rightarrow> 'c state_db \<Rightarrow> u64 option
    \<Rightarrow> svc_error + (short_state_info list \<times> 'c state_db)" where
  "load_parents env s previous =
     (case previous of None \<Rightarrow> Ok ([], s) | Some p \<Rightarrow> load_info env s p)"

definition set_event_state :: "'c state_env \<Rightarrow> event_id \<Rightarrow> string \<Rightarrow> compressed_state \<Rightarrow> 'c state_db
    \<Rightarrow> svc_error + (u64 \<times> 'c state_db)" where
  "set_event_state env event_id room_id new_state s =
     try_bind (get_or_create_shorteventid (rs_short s) event_id) (\<lambda>(short_event, sh).
     let previous = get_room_shortstatehash s room_id;
         state_hash = calculate_hash env new_state in
     try_bind (get_or_create_shortstatehash sh state_hash) (\<lambda>((h, already_existed), sh).
     let s = s\<lparr>rs_short := sh\<rparr> in
     try_bind
       (if already_existed then Ok s
        else
          try_bind (load_parents env s previous) (\<lambda>(states_parents, s).
          let (diffnew, diffremoved) = diff_states new_state states_parents in
          try_bind (save_state_from_diff (diffs_of s) h diffnew diffremoved 1000000 states_parents)
            (\<lambda>db. Ok (put_diffs db s))))
       (\<lambda>s. Ok (h, s\<lparr>shorteventid_shortstatehash :=
                      AList.update short_event h (shorteventid_shortstatehash s)\<rparr>))))"

text \<open>The entry of a state for a state key: the first one in the range of the key.\<close>

definition find_entry :: "compressed_state \<Rightarrow> u64 \<Rightarrow> bytes option" where
  "find_entry st shortstatekey = find (\<lambda>x. take 8 x = to_be_bytes shortstatekey) st"

text \<open>The end of \<open>append_to_state\<close>: what the entry replaces, and the new state.\<close>

definition replace_entry :: "u64 option \<Rightarrow> short_state_info list \<Rightarrow> u64 \<Rightarrow> u64 \<Rightarrow> 'c state_db
    \<Rightarrow> svc_error + (u64 \<times> 'c state_db)" where
  "replace_entry previous states_parents shortstatekey short_event s =
     (let new_entry = compress_state_event shortstatekey short_event;
          replaces = (if states_parents = [] then None
                      else find_entry (full_state (last states_parents)) shortstatekey) in
      if Some new_entry = replaces then
        try_bind (ok_or previous (Panicked ''must exist'')) (\<lambda>p. Ok (p, s))
      else
        try_bind (next_count (sh_globals (rs_short s))) (\<lambda>(h, g).
        let s = s\<lparr>rs_short := (rs_short s)\<lparr>sh_globals := g\<rparr>\<rparr>;
            removed = (case replaces of Some r \<Rightarrow> bts_insert r [] | None \<Rightarrow> []) in
        try_bind (save_state_from_diff (diffs_of s) h (bts_insert new_entry []) removed 2 states_parents)
          (\<lambda>db. Ok (h, put_diffs db s))))"

definition append_to_state :: "'c state_env \<Rightarrow> event \<Rightarrow> 'c state_db \<Rightarrow> svc_error + (u64 \<times> 'c state_db)" where
  "append_to_state env new_pdu s =
     try_bind (get_or_create_shorteventid (rs_short s) (ev_id new_pdu)) (\<lambda>(short_event, sh).
     let previous = get_room_shortstatehash s (ev_room new_pdu);
         s = s\<lparr>rs_short := sh,
               shorteventid_shortstatehash :=
                 (case previous of
                    Some p \<Rightarrow> AList.update short_event p (shorteventid_shortstatehash s)
                  | None \<Rightarrow> shorteventid_shortstatehash s)\<rparr> in
     case ev_state_key new_pdu of
       Some state_key \<Rightarrow>
         try_bind (load_parents env s previous) (\<lambda>(states_parents, s).
         try_bind (get_or_create_shortstatekey (rs_short s) (ev_type new_pdu, state_key)) (\<lambda>(shortstatekey, sh).
         try_bind (get_or_create_shorteventid sh (ev_id new_pdu)) (\<lambda>(short_event, sh).
           replace_entry previous states_parents shortstatekey short_event (s\<lparr>rs_short := sh\<rparr>))))
     | None \<Rightarrow>
         try_bind (ok_or previous (Panicked ''first event in room must be a state event'')) (\<lambda>p. Ok (p, s)))"

section \<open>Looking into states\<close>

definition load_full_state :: "'c state_env \<Rightarrow> 'c state_db \<Rightarrow> u64
    \<Rightarrow> svc_error + (compressed_state \<times> 'c state_db)" where
  "load_full_state env s h =
     (case load_info env s h of
        Err _ \<Rightarrow> Err (Database ''Missing state IDs'')
      | Ok (st, s') \<Rightarrow>
          if st = [] then Err (Panicked ''at least one layer'') else Ok (full_state (last st), s'))"

definition in_range :: "compressed_state \<Rightarrow> u64 \<Rightarrow> bytes option" where
  "in_range full shortstatekey =
     find (\<lambda>x. compress_state_event shortstatekey 0 \<le> x \<and> x \<le> compress_state_event shortstatekey (- 1)) full"

definition state_contains_shortstatekey :: "'c state_env \<Rightarrow> 'c state_db \<Rightarrow> u64 \<Rightarrow> u64 \<Rightarrow> bool" where
  "state_contains_shortstatekey env s h shortstatekey =
     (case load_full_state env s h of
        Ok (full, _) \<Rightarrow> in_range full shortstatekey \<noteq> None
      | Err _ \<Rightarrow> False)"

definition state_contains :: "'c state_env \<Rightarrow> 'c state_db \<Rightarrow> u64 \<Rightarrow> type_state_key \<Rightarrow> bool" where
  "state_contains env s h key =
     (case get_shortstatekey (rs_short s) key of
        Some shortstatekey \<Rightarrow> state_contains_shortstatekey env s h shortstatekey
      | None \<Rightarrow> False)"

definition state_get_shortid :: "'c state_env \<Rightarrow> 'c state_db \<Rightarrow> u64 \<Rightarrow> type_state_key \<Rightarrow> svc_error + u64" where
  "state_get_shortid env s h key =
     try_bind (ok_or (get_shortstatekey (rs_short s) key) (MissingItem ''Not found in database'')) (\<lambda>shortstatekey.
     try_bind (load_full_state env s h) (\<lambda>(full, _).
     try_bind (ok_or (in_range full shortstatekey) (MissingItem ''Not found in room state'')) (\<lambda>x.
       Ok (snd (parse_compressed_state_event x)))))"

definition state_get_id :: "'c state_env \<Rightarrow> 'c state_db \<Rightarrow> u64 \<Rightarrow> type_state_key \<Rightarrow> svc_error + event_id" where
  "state_get_id env s h key =
     try_bind (state_get_shortid env s h key) (get_eventid_from_short (rs_short s))"

definition state_get :: "'c state_env \<Rightarrow> (event_id \<Rightarrow> bool) \<Rightarrow> timeline_db \<Rightarrow> 'c state_db \<Rightarrow> u64
    \<Rightarrow> type_state_key \<Rightarrow> svc_error + event" where
  "state_get env outlier_first db s h key =
     try_bind (state_get_id env s h key) (\<lambda>event_id.
       ok_or (get_pdu outlier_first db event_id) (MissingItem ''PDU not found''))"

text \<open>The streams over a state; a state that cannot be loaded is empty, \<open>ignore_err\<close>.\<close>

definition state_full_shortids :: "'c state_env \<Rightarrow> 'c state_db \<Rightarrow> u64 \<Rightarrow> (u64 \<times> u64) list" where
  "state_full_shortids env s h =
     (case load_full_state env s h of
        Ok (full, _) \<Rightarrow> map parse_compressed_state_event full
      | Err _ \<Rightarrow> [])"

definition zip_ok :: "(svc_error + 'a) list \<Rightarrow> 'b list \<Rightarrow> ('a \<times> 'b) list" where
  "zip_ok rs ys = List.map_filter (\<lambda>(r, y). case r of Ok x \<Rightarrow> Some (x, y) | Err _ \<Rightarrow> None) (zip rs ys)"

definition state_full_ids :: "'c state_env \<Rightarrow> 'c state_db \<Rightarrow> u64 \<Rightarrow> (u64 \<times> event_id) list" where
  "state_full_ids env s h =
     (let shortids = state_full_shortids env s h in
      map (\<lambda>(i, k). (k, i))
        (zip_ok (multi_get_eventid_from_short (rs_short s) (map snd shortids)) (map fst shortids)))"

definition state_keys_with_shortids :: "'c state_env \<Rightarrow> 'c state_db \<Rightarrow> u64 \<Rightarrow> event_type
    \<Rightarrow> (string \<times> u64) list" where
  "state_keys_with_shortids env s h event_type =
     (let shortids = state_full_shortids env s h in
      List.map_filter (\<lambda>((ty, state_key), event_id). if ty = event_type then Some (state_key, event_id) else None)
        (zip_ok (multi_get_statekey_from_short (rs_short s) (map fst shortids)) (map snd shortids)))"

definition state_keys_with_ids :: "'c state_env \<Rightarrow> 'c state_db \<Rightarrow> u64 \<Rightarrow> event_type
    \<Rightarrow> (string \<times> event_id) list" where
  "state_keys_with_ids env s h event_type =
     (let ids = state_keys_with_shortids env s h event_type in
      map (\<lambda>(i, k). (k, i))
        (zip_ok (multi_get_eventid_from_short (rs_short s) (map snd ids)) (map fst ids)))"

definition state_keys :: "'c state_env \<Rightarrow> 'c state_db \<Rightarrow> u64 \<Rightarrow> event_type \<Rightarrow> string list" where
  "state_keys env s h event_type =
     List.map_filter (\<lambda>r. case r of Ok (ty, state_key) \<Rightarrow> if ty = event_type then Some state_key else None
                                  | Err _ \<Rightarrow> None)
       (multi_get_statekey_from_short (rs_short s) (map fst (state_full_shortids env s h)))"

definition state_contains_type :: "'c state_env \<Rightarrow> 'c state_db \<Rightarrow> u64 \<Rightarrow> event_type \<Rightarrow> bool" where
  "state_contains_type env s h event_type = (state_keys env s h event_type \<noteq> [])"

definition state_added :: "'c state_env \<Rightarrow> 'c state_db \<Rightarrow> u64 \<times> u64 \<Rightarrow> (u64 \<times> u64) list" where
  "state_added env s hs =
     (case (load_full_state env s (fst hs), load_full_state env s (snd hs)) of
        (Ok (a, _), Ok (b, _)) \<Rightarrow> map parse_compressed_state_event (bts_difference b a)
      | _ \<Rightarrow> [])"

definition state_removed :: "'c state_env \<Rightarrow> 'c state_db \<Rightarrow> u64 \<times> u64 \<Rightarrow> (u64 \<times> u64) list" where
  "state_removed env s hs = state_added env s (snd hs, fst hs)"

definition state_full_pdus :: "'c state_env \<Rightarrow> (event_id \<Rightarrow> bool) \<Rightarrow> timeline_db \<Rightarrow> 'c state_db \<Rightarrow> u64
    \<Rightarrow> event list" where
  "state_full_pdus env outlier_first db s h =
     List.map_filter (\<lambda>r. case r of Ok i \<Rightarrow> get_pdu outlier_first db i | Err _ \<Rightarrow> None)
       (multi_get_eventid_from_short (rs_short s) (map snd (state_full_shortids env s h)))"

definition state_full :: "'c state_env \<Rightarrow> (event_id \<Rightarrow> bool) \<Rightarrow> timeline_db \<Rightarrow> 'c state_db \<Rightarrow> u64
    \<Rightarrow> (type_state_key \<times> event) list" where
  "state_full env outlier_first db s h =
     List.map_filter (\<lambda>pdu. map_option (\<lambda>k. ((ev_type pdu, k), pdu)) (ev_state_key pdu))
       (state_full_pdus env outlier_first db s h)"

definition pdu_shortstatehash :: "'c state_db \<Rightarrow> event_id \<Rightarrow> u64 option" where
  "pdu_shortstatehash s event_id =
     Option.bind (get_shorteventid (rs_short s) event_id) (map_of (shorteventid_shortstatehash s))"

end
