(* ===== verification/Room_State_Props.thy ===== *)
theory Room_State_Props
  imports Room_State
begin

text \<open>
  The invariant of the stored room states, and what the operations of \<open>Room_State\<close> do to the
  abstract view of a state.
\<close>

section \<open>Short identifiers only grow\<close>

definition short_ext :: "short_db \<Rightarrow> short_db \<Rightarrow> bool" where
  "short_ext sh sh' \<longleftrightarrow> wf_short sh' \<and> short_level sh \<le> short_level sh'
     \<and> (\<forall>n i. get_eventid_from_short sh n = Ok i \<longrightarrow> get_eventid_from_short sh' n = Ok i)
     \<and> (\<forall>n k. get_statekey_from_short sh n = Ok k \<longrightarrow> get_statekey_from_short sh' n = Ok k)
     \<and> (\<forall>k n. get_shortstatekey sh k = Some n \<longrightarrow> get_shortstatekey sh' k = Some n)"

lemma short_extD:
  assumes "short_ext sh sh'"
  shows "wf_short sh'" and "short_level sh \<le> short_level sh'"
    and "get_eventid_from_short sh n = Ok i \<Longrightarrow> get_eventid_from_short sh' n = Ok i"
    and "get_statekey_from_short sh n = Ok k \<Longrightarrow> get_statekey_from_short sh' n = Ok k"
    and "get_shortstatekey sh k = Some n \<Longrightarrow> get_shortstatekey sh' k = Some n"
  using assms unfolding short_ext_def by blast+

lemma short_ext_refl: "wf_short sh \<Longrightarrow> short_ext sh sh"
  unfolding short_ext_def by blast

lemma short_ext_trans: "short_ext a b \<Longrightarrow> short_ext b c \<Longrightarrow> short_ext a c"
  unfolding short_ext_def by (meson order.trans)

text \<open>A new entry of a reverse table, under a number that was not drawn before, hides nothing.\<close>

lemma back_lookup_new:
  assumes "back_ok t r lim" and "lim < n" and "map_of r m = Some k"
  shows "map_of (AList.update n j r) m = Some k"
proof -
  have "m \<le> lim" using assms(1,3) unfolding back_ok_def by blast
  then have "m \<noteq> n" using assms(2) by auto
  then show ?thesis using assms(3) by (simp add: AList.update_conv')
qed

lemma short_ext_event:
  assumes "wf_short sh" and "get_or_create_shorteventid sh i = Ok (n, sh')"
  shows "short_ext sh sh' \<and> get_eventid_from_short sh' n = Ok i
    \<and> statehash_shortstatehash sh' = statehash_shortstatehash sh
    \<and> statekey_shortstatekey sh' = statekey_shortstatekey sh"
proof (cases "get_shorteventid sh i")
  case (Some m)
  then have "n = m" "sh' = sh" using assms(2) by (auto simp: get_or_create_shorteventid_def get_or_create_def)
  then show ?thesis using Some found_resolves [OF assms(1)] short_ext_refl [OF assms(1)] by simp
next
  case None
  then have c: "create_shorteventid sh i = Ok (n, sh')"
    using assms(2) by (simp add: get_or_create_shorteventid_def get_or_create_def)
  note new = create_shorteventid_Ok [OF assms(1) c]
  from c have same: "statekey_shortstatekey sh' = statekey_shortstatekey sh"
    "shortstatekey_statekey sh' = shortstatekey_statekey sh"
    "statehash_shortstatehash sh' = statehash_shortstatehash sh"
    by (auto simp: create_shorteventid_def draw_short_def try_bind_eq_Ok)
  have "short_ext sh sh'"
    unfolding short_ext_def
    using new same create_keeps_resolved [OF assms(1) c]
    by (auto simp: get_statekey_from_short_def get_shortstatekey_def less_imp_le)
  then show ?thesis
    using new same by (simp add: get_eventid_from_short_def AList.update_conv')
qed

lemma short_ext_statekey:
  assumes "wf_short sh" and "get_or_create_shortstatekey sh k = Ok (n, sh')"
  shows "short_ext sh sh' \<and> get_shortstatekey sh' = (get_shortstatekey sh)(k \<mapsto> n)
    \<and> get_statekey_from_short sh' n = Ok k
    \<and> statehash_shortstatehash sh' = statehash_shortstatehash sh"
proof (cases "get_shortstatekey sh k")
  case (Some m)
  then have "n = m" "sh' = sh"
    using assms(2) by (auto simp: get_or_create_shortstatekey_def get_or_create_def)
  moreover have "get_statekey_from_short sh m = Ok k"
  proof -
    have "map_of (shortstatekey_statekey sh) m = Some k"
      using Some assms(1) unfolding wf_short_def back_ok_def get_shortstatekey_def by blast
    then show ?thesis by (simp add: get_statekey_from_short_def)
  qed
  ultimately show ?thesis using Some short_ext_refl [OF assms(1)] by auto
next
  case None
  then have c: "create_shortstatekey sh k = Ok (n, sh')"
    using assms(2) by (simp add: get_or_create_shortstatekey_def get_or_create_def)
  note new = create_shortstatekey_Ok [OF assms(1) c]
  from c have same: "eventid_shorteventid sh' = eventid_shorteventid sh"
    "shorteventid_eventid sh' = shorteventid_eventid sh"
    "statehash_shortstatehash sh' = statehash_shortstatehash sh"
    by (auto simp: create_shortstatekey_def draw_short_def try_bind_eq_Ok)
  have keep: "get_statekey_from_short sh' m = Ok j" if "get_statekey_from_short sh m = Ok j" for m j
    using that back_lookup_new [of "statekey_shortstatekey sh" "shortstatekey_statekey sh" "short_level sh"]
      assms(1) new by (simp add: wf_short_def get_statekey_from_short_def ok_or_eq_Ok)
  have fwd: "get_shortstatekey sh' = (get_shortstatekey sh)(k \<mapsto> n)"
    by (simp add: get_shortstatekey_def new fun_eq_iff AList.update_conv')
  have "short_ext sh sh'"
    unfolding short_ext_def using new same keep None
    by (auto simp: get_eventid_from_short_def fwd less_imp_le)
  then show ?thesis
    using new same fwd by (simp add: get_statekey_from_short_def AList.update_conv')
qed

lemma short_ext_draw:
  assumes "wf_short sh" and "next_count (sh_globals sh) = Ok (n, g)"
  shows "short_ext sh (sh\<lparr>sh_globals := g\<rparr>) \<and> short_level sh < n
    \<and> short_level (sh\<lparr>sh_globals := g\<rparr>) = n"
proof -
  have d: "draw_short sh = Ok (n, sh\<lparr>sh_globals := g\<rparr>)" using assms(2) by (simp add: draw_short_def)
  show ?thesis
    using wf_short_create [OF assms(1) d, of "sh\<lparr>sh_globals := g\<rparr>"]
    by (auto simp: short_ext_def get_eventid_from_short_def get_statekey_from_short_def
        get_shortstatekey_def less_imp_le)
qed

section \<open>Entries of a state\<close>

text \<open>
  Every entry stands for a known state key and a known event, and no key occurs twice.
\<close>

definition entries_ok :: "short_db \<Rightarrow> compressed_state \<Rightarrow> bool" where
  "entries_ok sh st \<longleftrightarrow> wf_entries st \<and> keyed st \<and> distinct (map (take 8) st)
     \<and> (\<forall>x \<in> set st. \<exists>k i. get_shortstatekey sh k = Some (fst (parse_compressed_state_event x))
          \<and> get_eventid_from_short sh (snd (parse_compressed_state_event x)) = Ok i)"

lemma entries_ok_ext: "entries_ok sh st \<Longrightarrow> short_ext sh sh' \<Longrightarrow> entries_ok sh' st"
  unfolding entries_ok_def using short_extD(3,5) by blast

lemma in_range_iff:
  assumes "length x = 16"
  shows "compress_state_event k 0 \<le> x \<and> x \<le> compress_state_event k (- 1) \<longleftrightarrow> take 8 x = to_be_bytes k"
proof -
  obtain a b where x: "x = a @ b" "length a = 8" "length b = 8"
    using assms by (metis append_take_drop_id length_drop length_take min.absorb4 add_diff_cancel_left'
        numeral_Bit0 less_add_same_cancel1 zero_less_numeral)
  have b: "b = to_be_bytes (from_be_bytes b)" using x(3) by (simp add: to_from_be_bytes)
  have "to_be_bytes 0 \<le> b" "b \<le> to_be_bytes (- 1)"
    by (subst b, simp add: not_less [symmetric] to_be_bytes_less_iff)+
  then show ?thesis
    using x(2) unfolding x(1) compress_state_event_def
    by (auto simp: le_less list_less_append)
qed

lemma find_unique:
  assumes "distinct (map f xs)" and "x \<in> set xs"
  shows "find (\<lambda>y. f y = f x) xs = Some x"
  using assms by (induction xs) (auto simp: image_iff)

lemma find_entry_unique:
  assumes "entries_ok sh st" and "x \<in> set st" and "take 8 x = to_be_bytes k"
  shows "find_entry st k = Some x"
  using find_unique [of "take 8" st x] assms by (simp add: find_entry_def entries_ok_def)

lemma find_entry_SomeD: "find_entry st k = Some x \<Longrightarrow> x \<in> set st \<and> take 8 x = to_be_bytes k"
  by (auto simp: find_entry_def find_Some_iff)

lemma in_range_find_entry: "wf_entries st \<Longrightarrow> in_range st k = find_entry st k"
  unfolding in_range_def find_entry_def wf_entries_def
  by (rule find_cong) (auto simp: in_range_iff)

text \<open>The event a state has for a key.\<close>

definition state_view :: "short_db \<Rightarrow> compressed_state \<Rightarrow> type_state_key \<Rightarrow> event_id option" where
  "state_view sh st key =
     Option.bind (get_shortstatekey sh key) (\<lambda>k.
     Option.bind (find_entry st k) (\<lambda>x.
       case get_eventid_from_short sh (snd (parse_compressed_state_event x)) of Ok i \<Rightarrow> Some i | Err _ \<Rightarrow> None))"

lemma entry_key:
  "x \<in> set st \<Longrightarrow> entries_ok sh st \<Longrightarrow> take 8 x = to_be_bytes (fst (parse_compressed_state_event x))"
  by (simp add: entries_ok_def wf_entries_def parse_compressed_state_event_def to_from_be_bytes)

text \<open>The view of a state does not change when new identifiers are created.\<close>

lemma state_view_ext:
  assumes "entries_ok sh st" and "short_ext sh sh'"
  shows "state_view sh' st = state_view sh st"
proof
  fix key
  show "state_view sh' st key = state_view sh st key"
  proof (cases "get_shortstatekey sh key")
    case (Some k)
    then have k': "get_shortstatekey sh' key = Some k" by (rule short_extD(5) [OF assms(2)])
    show ?thesis
    proof (cases "find_entry st k")
      case f: (Some x)
      then have "x \<in> set st" using find_entry_SomeD by blast
      then obtain i where "get_eventid_from_short sh (snd (parse_compressed_state_event x)) = Ok i"
        using assms(1) unfolding entries_ok_def by blast
      then show ?thesis using Some k' f short_extD(3) [OF assms(2)] by (simp add: state_view_def)
    qed (simp add: state_view_def Some k')
  next
    case None
    show ?thesis
    proof (cases "get_shortstatekey sh' key")
      case (Some k)
      have "find_entry st k = None"
      proof (rule ccontr)
        assume "find_entry st k \<noteq> None"
        then obtain x where x: "x \<in> set st" "take 8 x = to_be_bytes k" using find_entry_SomeD by blast
        then have k: "k = fst (parse_compressed_state_event x)" using entry_key [OF x(1) assms(1)] by simp
        obtain key0 where "get_shortstatekey sh key0 = Some k"
          using assms(1) x(1) k unfolding entries_ok_def by blast
        then have "get_shortstatekey sh' key0 = Some k" by (rule short_extD(5) [OF assms(2)])
        then have "key0 = key" using state_keys.found_inj [OF short_extD(1) [OF assms(2)]] Some by blast
        then show False using None \<open>get_shortstatekey sh key0 = Some k\<close> by simp
      qed
      then show ?thesis using None Some by (simp add: state_view_def)
    qed (simp add: state_view_def None)
  qed
qed

section \<open>The invariant\<close>

definition good_stack :: "short_db \<Rightarrow> short_state_info list \<Rightarrow> bool" where
  "good_stack sh st \<longleftrightarrow> wf_layers [] st \<and> length st \<le> 4 \<and> entries_ok sh (top_state st)"

text \<open>Every number with a stored difference was drawn, and its layers are complete and good.\<close>

definition db_ok :: "short_db \<Rightarrow> (bytes \<times> bytes) list \<Rightarrow> bool" where
  "db_ok sh db \<longleftrightarrow> (\<forall>h. map_of db (to_be_bytes h) \<noteq> None \<longrightarrow>
     h \<le> short_level sh \<and> (\<exists>st. stack_of db h st \<and> good_stack sh st))"

definition state_ok :: "'c state_env \<Rightarrow> 'c state_db \<Rightarrow> bool" where
  "state_ok env s \<longleftrightarrow> wf_short (rs_short s) \<and> cache_sound (env_lru env) (rs_comp s)
     \<and> db_ok (rs_short s) (diffs_of s)
     \<and> (\<forall>r h. get_room_shortstatehash s r = Some h \<longrightarrow> (\<exists>st. stack_of (diffs_of s) h st))
     \<and> (\<forall>x n. get_shortstatehash (rs_short s) x = Some n \<longrightarrow>
          (\<exists>st. stack_of (diffs_of s) n st \<and> calculate_hash env (top_state st) = x))"

lemma state_okD:
  assumes "state_ok env s"
  shows "wf_short (rs_short s)" and "cache_sound (env_lru env) (rs_comp s)"
    and "db_ok (rs_short s) (diffs_of s)"
    and "get_room_shortstatehash s r = Some h \<Longrightarrow> \<exists>st. stack_of (diffs_of s) h st"
    and "get_shortstatehash (rs_short s) x = Some n \<Longrightarrow>
      \<exists>st. stack_of (diffs_of s) n st \<and> calculate_hash env (top_state st) = x"
  using assms unfolding state_ok_def by blast+

lemma state_okI:
  assumes "wf_short (rs_short s)" and "cache_sound (env_lru env) (rs_comp s)"
    and "db_ok (rs_short s) (diffs_of s)"
    and "\<And>r h. get_room_shortstatehash s r = Some h \<Longrightarrow> \<exists>st. stack_of (diffs_of s) h st"
    and "\<And>x n. get_shortstatehash (rs_short s) x = Some n \<Longrightarrow>
      \<exists>st. stack_of (diffs_of s) n st \<and> calculate_hash env (top_state st) = x"
  shows "state_ok env s"
  using assms unfolding state_ok_def by blast

definition env_ok :: "'c state_env \<Rightarrow> bool" where
  "env_ok env \<longleftrightarrow> lru_ok (env_lru env) \<and> 4 \<le> env_fuel env"

lemma stack_of_stored: "stack_of db h st \<Longrightarrow> map_of db (to_be_bytes h) \<noteq> None"
  by (induction rule: stack_of.induct) (auto simp: get_statediff_def try_bind_eq_Ok ok_or_eq_Ok)

lemma db_okD:
  assumes "db_ok sh db" and "stack_of db h st"
  shows "good_stack sh st" and "h \<le> short_level sh"
proof -
  from assms(1) stack_of_stored [OF assms(2)] obtain st' where
    "stack_of db h st'" "good_stack sh st'" "h \<le> short_level sh"
    unfolding db_ok_def by blast
  then show "good_stack sh st" "h \<le> short_level sh" using stack_of_unique [OF assms(2)] by simp_all
qed

lemma good_stack_ext: "good_stack sh st \<Longrightarrow> short_ext sh sh' \<Longrightarrow> good_stack sh' st"
  using entries_ok_ext [of sh "top_state st" sh'] by (simp add: good_stack_def)

lemma db_ok_ext: "db_ok sh db \<Longrightarrow> short_ext sh sh' \<Longrightarrow> db_ok sh' db"
  unfolding db_ok_def using good_stack_ext short_extD(2) order.trans by metis

lemma db_ok_fresh: "db_ok sh db \<Longrightarrow> short_level sh < h \<Longrightarrow> map_of db (to_be_bytes h) = None"
  unfolding db_ok_def using leD by blast

lemma stack_of_last: "stack_of db h st \<Longrightarrow> info_hash (last st) = h"
  by (induction rule: stack_of.induct) (auto simp: alone_def on_top_def)

lemma wf_stack_stack_of:
  "db_ok sh db \<Longrightarrow> stack_of db h st \<Longrightarrow> wf_stack db st"
  using db_okD(1) [of sh db h st] stack_of_last [of db h st] by (simp add: wf_stack_def good_stack_def)

text \<open>Saving a state under a new number keeps the store good.\<close>

lemma db_ok_saved:
  assumes "db_ok sh db" and "map_of db (to_be_bytes h) = None" and "saved h db db' target"
    and "entries_ok sh cs" and "set cs = target" and "h \<le> short_level sh"
  shows "db_ok sh db' \<and> (\<exists>st. stack_of db' h st \<and> top_state st = cs)
    \<and> (\<forall>h' st. stack_of db h' st \<longrightarrow> stack_of db' h' st)"
proof -
  from assms(3) obtain d st where d: "db' = save_statediff h d db" and st: "stack_of db' h st"
    "wf_layers [] st" "length st \<le> 4" "set (top_state st) = target"
    unfolding saved_def by blast
  have "sorted_set (top_state st)"
    using st(2) stack_of_nonempty [OF st(1)]
    by (cases st rule: rev_cases) (auto simp: top_state_def wf_layers_snoc layer_ok_def wf_entries_def)
  then have top: "top_state st = cs"
    using assms(4,5) st(4) by (auto simp: entries_ok_def wf_entries_def intro: sorted_set_eq)
  have keep: "stack_of db' h' st'" if "stack_of db h' st'" for h' st'
    unfolding d by (rule stack_of_save [OF that assms(2)])
  have "db_ok sh db'"
    unfolding db_ok_def
  proof (intro allI impI)
    fix h'
    assume s: "map_of db' (to_be_bytes h') \<noteq> None"
    show "h' \<le> short_level sh \<and> (\<exists>st. stack_of db' h' st \<and> good_stack sh st)"
    proof (cases "h' = h")
      case True
      then show ?thesis using assms(4,6) st top by (auto simp: good_stack_def)
    next
      case False
      then have "map_of db (to_be_bytes h') \<noteq> None"
        using s by (auto simp: d save_statediff_def AList.update_conv')
      then show ?thesis using assms(1) keep unfolding db_ok_def by blast
    qed
  qed
  then show ?thesis using st(1) top keep by blast
qed

section \<open>Loading\<close>

lemma load_info_ok:
  assumes "env_ok env" and "state_ok env s" and "stack_of (diffs_of s) h st"
  shows "\<exists>c. load_info env s h = Ok (st, s\<lparr>rs_comp := c\<rparr>) \<and> cache_sound (env_lru env) c
    \<and> shortstatehash_statediff c = diffs_of s"
proof -
  have cs: "cache_sound (env_lru env) (rs_comp s)" and l: "lru_ok (env_lru env)"
    using assms(1) state_okD(2) [OF assms(2)] by (simp_all add: env_ok_def)
  have "length st \<le> env_fuel env"
    using assms(1) db_okD(1) [OF state_okD(3) [OF assms(2)] assms(3)]
    by (simp add: good_stack_def env_ok_def)
  from load_total [OF l assms(3) cs this] obtain c where
    c: "load_shortstatehash_info (env_fuel env) (env_lru env) (rs_comp s) h = Ok (st, c)" by blast
  from load_sound [OF l cs c] c show ?thesis by (auto simp: load_info_def)
qed

lemma load_full_state_ok:
  assumes "env_ok env" and "state_ok env s" and "stack_of (diffs_of s) h st"
  shows "\<exists>s'. load_full_state env s h = Ok (top_state st, s')"
  using load_info_ok [OF assms] stack_of_nonempty [OF assms(3)]
  by (auto simp: load_full_state_def top_state_def)

text \<open>\<open>state_get_id\<close> computes the view of a stored state.\<close>

lemma state_get_id_view:
  assumes "env_ok env" and "state_ok env s" and "stack_of (diffs_of s) h st"
  shows "state_get_id env s h key = Ok i \<longleftrightarrow> state_view (rs_short s) (top_state st) key = Some i"
proof -
  obtain s' where l: "load_full_state env s h = Ok (top_state st, s')"
    using load_full_state_ok [OF assms] by blast
  have "wf_entries (top_state st)"
    using db_okD(1) [OF state_okD(3) [OF assms(2)] assms(3)] by (simp add: good_stack_def entries_ok_def)
  then have r: "in_range (top_state st) k = find_entry (top_state st) k" for k by (rule in_range_find_entry)
  note defs = state_get_id_def state_get_shortid_def state_view_def l r
  show ?thesis
  proof (cases "get_shortstatekey (rs_short s) key")
    case (Some k)
    then show ?thesis
      by (cases "find_entry (top_state st) k") (auto simp: defs split: sum.split)
  qed (simp add: defs)
qed

lemma load_parents_ok:
  assumes "env_ok env" and "state_ok env s"
  shows "\<exists>ps c. load_parents env s (get_room_shortstatehash s r) = Ok (ps, s\<lparr>rs_comp := c\<rparr>)
    \<and> cache_sound (env_lru env) c \<and> shortstatehash_statediff c = diffs_of s
    \<and> wf_stack (diffs_of s) ps \<and> (get_room_shortstatehash s r = None \<longleftrightarrow> ps = [])
    \<and> entries_ok (rs_short s) (top_state ps)
    \<and> (\<forall>h. get_room_shortstatehash s r = Some h \<longrightarrow> stack_of (diffs_of s) h ps)"
proof (cases "get_room_shortstatehash s r")
  case None
  have "load_parents env s None = Ok ([], s\<lparr>rs_comp := rs_comp s\<rparr>)" by (simp add: load_parents_def)
  then show ?thesis
    using None state_okD(2) [OF assms(2)]
    by (intro exI [of _ "[]"] exI [of _ "rs_comp s"])
       (simp add: wf_stack_def top_state_def entries_ok_def wf_entries_def keyed_def)
next
  case (Some h)
  then obtain st where st: "stack_of (diffs_of s) h st" using state_okD(4) [OF assms(2)] by blast
  from load_info_ok [OF assms st] obtain c where
    "load_info env s h = Ok (st, s\<lparr>rs_comp := c\<rparr>)" "cache_sound (env_lru env) c"
    "shortstatehash_statediff c = diffs_of s" by blast
  moreover have "wf_stack (diffs_of s) st" "st \<noteq> []" "entries_ok (rs_short s) (top_state st)"
    using wf_stack_stack_of [OF state_okD(3) [OF assms(2)] st] stack_of_nonempty [OF st]
      db_okD(1) [OF state_okD(3) [OF assms(2)] st] by (simp_all add: good_stack_def)
  ultimately show ?thesis using Some st by (auto simp: load_parents_def)
qed

text \<open>A room state whose components only grow stays good.\<close>

lemma state_ok_grow:
  assumes "state_ok env s" and "short_ext (rs_short s) sh" and "db_ok sh db"
    and "\<And>h st. stack_of (diffs_of s) h st \<Longrightarrow> stack_of db h st"
    and "shortstatehash_statediff c = db" and "cache_sound (env_lru env) c"
    and "\<And>r. map_of rooms r = get_room_shortstatehash s r \<or> (\<exists>h st. map_of rooms r = Some h \<and> stack_of db h st)"
    and "\<And>x n. get_shortstatehash sh x = Some n \<Longrightarrow> get_shortstatehash (rs_short s) x = Some n
      \<or> (\<exists>st. stack_of db n st \<and> calculate_hash env (top_state st) = x)"
  shows "state_ok env (s\<lparr>rs_short := sh, rs_comp := c, roomid_shortstatehash := rooms\<rparr>)"
proof (rule state_okI)
  fix r h
  assume "get_room_shortstatehash (s\<lparr>rs_short := sh, rs_comp := c, roomid_shortstatehash := rooms\<rparr>) r = Some h"
  then have "map_of rooms r = Some h" by (simp add: get_room_shortstatehash_def)
  with assms(7) [of r] have "get_room_shortstatehash s r = Some h \<or> (\<exists>st. stack_of db h st)" by auto
  then have "\<exists>st. stack_of db h st" using state_okD(4) [OF assms(1)] assms(4) by blast
  then show "\<exists>st. stack_of (diffs_of (s\<lparr>rs_short := sh, rs_comp := c, roomid_shortstatehash := rooms\<rparr>)) h st"
    using assms(5) by simp
next
  fix x n
  assume "get_shortstatehash (rs_short (s\<lparr>rs_short := sh, rs_comp := c, roomid_shortstatehash := rooms\<rparr>)) x = Some n"
  then have "\<exists>st. stack_of db n st \<and> calculate_hash env (top_state st) = x"
    using assms(8) [of x n] state_okD(5) [OF assms(1), of x n] assms(4) by auto
  then show "\<exists>st. stack_of (diffs_of (s\<lparr>rs_short := sh, rs_comp := c, roomid_shortstatehash := rooms\<rparr>)) n st
      \<and> calculate_hash env (top_state st) = x"
    using assms(5) by simp
qed (use assms short_extD(1) [OF assms(2)] in simp_all)

text \<open>The cache stays sound when a new difference is stored.\<close>

lemma cache_sound_mono:
  "cache_sound L c \<Longrightarrow> (\<And>h st. stack_of (shortstatehash_statediff c) h st \<Longrightarrow> stack_of db h st) \<Longrightarrow>
   cache_sound L (c\<lparr>shortstatehash_statediff := db\<rparr>)"
  unfolding cache_sound_def by simp

section \<open>Replacing the entry of a key\<close>

lemma find_entry_iff:
  "entries_ok sh st \<Longrightarrow> find_entry st k = Some x \<longleftrightarrow> x \<in> set st \<and> take 8 x = to_be_bytes k"
  using find_entry_unique find_entry_SomeD by blast

definition put_entry :: "bytes \<Rightarrow> compressed_state \<Rightarrow> compressed_state" where
  "put_entry x st = bts_insert x (filter (\<lambda>y. take 8 y \<noteq> take 8 x) st)"

lemma set_put_entry: "set (put_entry x st) = insert x {y \<in> set st. take 8 y \<noteq> take 8 x}"
  by (auto simp: put_entry_def)

lemma sorted_set_filter: "sorted_set xs \<Longrightarrow> sorted_set (filter P xs)"
  by (simp add: sorted_set_def sorted_wrt_filter)

lemma entries_ok_put:
  assumes "entries_ok sh st" and "get_shortstatekey sh key = Some k" and "wf_short sh"
    and "get_eventid_from_short sh e = Ok i"
  shows "entries_ok sh (put_entry (compress_state_event k e) st)"
proof -
  let ?x = "compress_state_event k e" and ?st = "put_entry (compress_state_event k e) st"
  have old: "wf_entries st" "keyed st" "inj_on (take 8) (set st)"
    using assms(1) by (simp_all add: entries_ok_def distinct_map)
  have x: "length ?x = 16" "take 8 ?x = to_be_bytes k" by (simp_all add: compress_state_event_def)
  have "0 < k" using state_keys.found_level [OF assms(3,2)] by simp
  then have k0: "to_be_bytes k \<noteq> to_be_bytes 0" by (auto simp: word_gt_0)
  have sorted: "sorted_set ?st"
    using old(1) by (simp add: put_entry_def wf_entries_def sorted_set_filter)
  moreover have "inj_on (take 8) (set ?st)"
    using old(3) unfolding set_put_entry by (auto simp: inj_on_def)
  ultimately have "distinct (map (take 8) ?st)" by (simp add: distinct_map sorted_set_def)
  moreover have "\<exists>k i. get_shortstatekey sh k = Some (fst (parse_compressed_state_event y))
      \<and> get_eventid_from_short sh (snd (parse_compressed_state_event y)) = Ok i" if "y \<in> set ?st" for y
  proof (cases "y = ?x")
    case True
    then show ?thesis using assms(2,4) by (intro exI [of _ key] exI [of _ i]) simp
  next
    case False
    then show ?thesis using that assms(1) unfolding set_put_entry entries_ok_def by blast
  qed
  moreover have "wf_entries ?st" "keyed ?st"
    using old(1,2) x k0 sorted unfolding wf_entries_def keyed_def set_put_entry by auto
  ultimately show ?thesis unfolding entries_ok_def by blast
qed

lemma state_view_put:
  assumes "entries_ok sh st" and "get_shortstatekey sh key = Some k" and "wf_short sh"
    and "get_eventid_from_short sh e = Ok i"
  shows "state_view sh (put_entry (compress_state_event k e) st) = (state_view sh st)(key \<mapsto> i)"
proof
  fix key'
  let ?x = "compress_state_event k e" and ?st = "put_entry (compress_state_event k e) st"
  note ok = entries_ok_put [OF assms]
  have x: "take 8 ?x = to_be_bytes k" by (simp add: compress_state_event_def)
  show "state_view sh ?st key' = ((state_view sh st)(key \<mapsto> i)) key'"
  proof (cases "key' = key")
    case True
    have "find_entry ?st k = Some ?x" using find_entry_iff [OF ok] x by (simp add: set_put_entry)
    then show ?thesis using True assms(2,4) by (simp add: state_view_def)
  next
    case False
    have "find_entry ?st k' = find_entry st k'" if "get_shortstatekey sh key' = Some k'" for k'
    proof -
      have "k' \<noteq> k" using state_keys.found_inj [OF assms(3) that] assms(2) False by blast
      then have "find_entry ?st k' = Some y \<longleftrightarrow> find_entry st k' = Some y" for y
        using find_entry_iff [OF ok] find_entry_iff [OF assms(1)] x by (auto simp: set_put_entry)
      then show ?thesis by (metis option.exhaust)
    qed
    then show ?thesis using False by (cases "get_shortstatekey sh key'") (simp_all add: state_view_def)
  qed
qed

lemma put_entry_same:
  assumes "entries_ok sh st" and "find_entry st k = Some (compress_state_event k e)"
  shows "put_entry (compress_state_event k e) st = st"
proof (rule sorted_set_eq)
  have st: "sorted_set st" "inj_on (take 8) (set st)"
    using assms(1) by (simp_all add: entries_ok_def wf_entries_def distinct_map)
  then show "sorted_set (put_entry (compress_state_event k e) st)" "sorted_set st"
    by (simp_all add: put_entry_def sorted_set_filter)
  show "set (put_entry (compress_state_event k e) st) = set st"
    using find_entry_SomeD [OF assms(2)] st(2) by (auto simp: set_put_entry inj_on_def)
qed

text \<open>The difference that \<open>append_to_state\<close> saves.\<close>

lemma append_diff:
  assumes "entries_ok sh st" and "get_shortstatekey sh key = Some k" and "wf_short sh"
    and "find_entry st k \<noteq> Some (compress_state_event k e)"
  shows "fits st (bts_insert (compress_state_event k e) [])
      (case find_entry st k of Some r \<Rightarrow> bts_insert r [] | None \<Rightarrow> [])"
    and "set (put_entry (compress_state_event k e) st)
      = set st \<union> set (bts_insert (compress_state_event k e) [])
        - set (case find_entry st k of Some r \<Rightarrow> bts_insert r [] | None \<Rightarrow> [])"
proof -
  let ?x = "compress_state_event k e"
  let ?r = "case find_entry st k of Some r \<Rightarrow> bts_insert r [] | None \<Rightarrow> []"
  have x: "length ?x = 16" "take 8 ?x = to_be_bytes k" by (simp_all add: compress_state_event_def)
  have "0 < k" using state_keys.found_level [OF assms(3,2)] by simp
  then have k0: "to_be_bytes k \<noteq> to_be_bytes 0" by (auto simp: word_gt_0)
  have r: "set ?r = {y \<in> set st. take 8 y = to_be_bytes k}"
  proof (cases "find_entry st k")
    case None
    then have "y \<notin> set st \<or> take 8 y \<noteq> to_be_bytes k" for y
      using find_entry_unique [OF assms(1), of y k] by auto
    then show ?thesis using None by auto
  next
    case (Some z)
    then have "y = z" if "y \<in> set st" "take 8 y = to_be_bytes k" for y
      using find_entry_unique [OF assms(1) that] by simp
    then show ?thesis using Some find_entry_SomeD [OF Some] by auto
  qed
  have new: "?x \<notin> set st" using find_entry_unique [OF assms(1) _ x(2)] assms(4) by blast
  moreover have "sorted_set ?r" by (simp split: option.split)
  moreover have "\<forall>y \<in> set st. length y = 16" using assms(1) by (simp add: entries_ok_def wf_entries_def)
  ultimately show "fits st (bts_insert ?x []) ?r"
    using r x k0 by (auto simp: fits_def wf_entries_def keyed_def)
  show "set (put_entry ?x st) = set st \<union> set (bts_insert ?x []) - set ?r"
    using r x new by (auto simp: set_put_entry)
qed

end
