(* ===== verification/Append_State.thy ===== *)
theory Append_State
  imports Room_State_Props
begin

text \<open>
  \<open>append_to_state\<close>, \<open>save_state\<close> and \<open>set_event_state\<close> refine operations on the abstract view of a
  room state.
\<close>

section \<open>Appending an event to the state\<close>

text \<open>
  What \<open>append_to_state\<close> leaves behind: short identifiers that have grown, and a store that has
  grown by at most one state, in which the returned number stands for the state \<open>cs\<close>.
\<close>

definition state_grown :: "'c state_env \<Rightarrow> 'c state_db \<Rightarrow> u64 \<Rightarrow> 'c state_db \<Rightarrow> compressed_state \<Rightarrow> bool" where
  "state_grown env s h s' cs \<longleftrightarrow> state_ok env s' \<and> short_ext (rs_short s) (rs_short s')
     \<and> (\<exists>st. stack_of (diffs_of s') h st \<and> top_state st = cs)
     \<and> (\<forall>h st. stack_of (diffs_of s) h st \<longrightarrow> stack_of (diffs_of s') h st)
     \<and> roomid_shortstatehash s' = roomid_shortstatehash s"

lemma state_ok_irrelevant [simp]:
  "state_ok env (s\<lparr>shorteventid_shortstatehash := x\<rparr>) = state_ok env s"
  "state_ok env (s\<lparr>roomid_pduleaves := y\<rparr>) = state_ok env s"
  by (simp_all add: state_ok_def get_room_shortstatehash_def)

lemma state_ok_short:
  assumes "state_ok env s" and "short_ext (rs_short s) sh"
    and "statehash_shortstatehash sh = statehash_shortstatehash (rs_short s)"
  shows "state_ok env (s\<lparr>rs_short := sh\<rparr>)"
proof -
  have "state_ok env (s\<lparr>rs_short := sh, rs_comp := rs_comp s, roomid_shortstatehash := roomid_shortstatehash s\<rparr>)"
  proof (rule state_ok_grow [OF assms(1,2) db_ok_ext [OF state_okD(3) [OF assms(1)] assms(2)]])
    show "cache_sound (env_lru env) (rs_comp s)" by (rule state_okD(2) [OF assms(1)])
  qed (simp_all add: assms(3) get_shortstatehash_def get_room_shortstatehash_def)
  then show ?thesis by simp
qed

lemma state_ok_comp:
  assumes "state_ok env s" and "cache_sound (env_lru env) c" and "shortstatehash_statediff c = diffs_of s"
  shows "state_ok env (s\<lparr>rs_comp := c\<rparr>)"
proof (rule state_okI)
  fix r h
  assume "get_room_shortstatehash (s\<lparr>rs_comp := c\<rparr>) r = Some h"
  then show "\<exists>st. stack_of (diffs_of (s\<lparr>rs_comp := c\<rparr>)) h st"
    using state_okD(4) [OF assms(1), of r h] assms(3) by (simp add: get_room_shortstatehash_def)
next
  fix x n
  assume "get_shortstatehash (rs_short (s\<lparr>rs_comp := c\<rparr>)) x = Some n"
  then show "\<exists>st. stack_of (diffs_of (s\<lparr>rs_comp := c\<rparr>)) n st \<and> calculate_hash env (top_state st) = x"
    using state_okD(5) [OF assms(1), of x n] assms(3) by simp
qed (use assms(2,3) state_okD(1,3) [OF assms(1)] in simp_all)

lemma save_entry:
  assumes "state_ok env s" and "wf_stack (diffs_of s) ps" and "entries_ok (rs_short s) (top_state ps)"
    and "get_shortstatekey (rs_short s) key = Some k" and "get_eventid_from_short (rs_short s) e = Ok i"
    and "find_entry (top_state ps) k \<noteq> Some (compress_state_event k e)"
    and "next_count (sh_globals (rs_short s)) = Ok (h, g)"
    and "save_state_from_diff (diffs_of s) h (bts_insert (compress_state_event k e) [])
        (case find_entry (top_state ps) k of Some r \<Rightarrow> bts_insert r [] | None \<Rightarrow> []) dts ps = Ok db"
  shows "state_grown env s h (put_diffs db (s\<lparr>rs_short := (rs_short s)\<lparr>sh_globals := g\<rparr>\<rparr>))
    (put_entry (compress_state_event k e) (top_state ps))"
proof -
  let ?sh = "(rs_short s)\<lparr>sh_globals := g\<rparr>" and ?st = "put_entry (compress_state_event k e) (top_state ps)"
  have wf: "wf_short (rs_short s)" by (rule state_okD(1) [OF assms(1)])
  note ext = short_ext_draw [OF wf assms(7)]
  have fresh: "map_of (diffs_of s) (to_be_bytes h) = None"
    by (rule db_ok_fresh [OF state_okD(3) [OF assms(1)]]) (simp add: ext)
  have "short_level (rs_short s) < h" by (simp add: ext)
  then have h: "h \<noteq> 0" by auto
  note diff = append_diff [OF assms(3,4) wf assms(6)]
  have sv: "saved h (diffs_of s) db (set ?st)"
    unfolding diff(2) by (rule save_state_from_diff_saved [OF fresh h assms(2) diff(1) assms(8)])
  have grow: "short_ext (rs_short s) ?sh" by (simp add: ext)
  note dbs = db_ok_ext [OF state_okD(3) [OF assms(1)] grow]
    and ent = entries_ok_ext [OF entries_ok_put [OF assms(3,4) wf assms(5)] grow]
  have le: "h \<le> short_level ?sh" by (simp add: ext)
  note res = db_ok_saved [OF dbs fresh sv ent refl le]
  have cs: "cache_sound (env_lru env) ((rs_comp s)\<lparr>shortstatehash_statediff := db\<rparr>)"
    by (rule cache_sound_mono [OF state_okD(2) [OF assms(1)]]) (use res in blast)
  have "state_ok env (s\<lparr>rs_short := ?sh, rs_comp := (rs_comp s)\<lparr>shortstatehash_statediff := db\<rparr>,
      roomid_shortstatehash := roomid_shortstatehash s\<rparr>)"
  proof (rule state_ok_grow [OF assms(1) _ _ _ _ cs])
    show "short_ext (rs_short s) ?sh" by (rule grow)
    show "db_ok ?sh db" using res by blast
    show "stack_of db h st" if "stack_of (diffs_of s) h st" for h st using res that by blast
  qed (simp_all add: get_shortstatehash_def get_room_shortstatehash_def)
  then have ok: "state_ok env (put_diffs db (s\<lparr>rs_short := ?sh\<rparr>))" by (simp add: put_diffs_def)
  have sel: "rs_short (put_diffs db (s\<lparr>rs_short := ?sh\<rparr>)) = ?sh"
    "diffs_of (put_diffs db (s\<lparr>rs_short := ?sh\<rparr>)) = db"
    "roomid_shortstatehash (put_diffs db (s\<lparr>rs_short := ?sh\<rparr>)) = roomid_shortstatehash s"
    by (simp_all add: put_diffs_def)
  show ?thesis unfolding state_grown_def sel using ok grow res by blast
qed

text \<open>The steps of \<open>append_to_state\<close> for a state event, with the identifiers they create.\<close>

lemma append_to_state_steps:
  assumes "append_to_state env pdu s = Ok (h, s')" and "ev_state_key pdu = Some key"
  obtains n sh1 t ps s2 k sh3 e sh4 where
    "get_or_create_shorteventid (rs_short s) (ev_id pdu) = Ok (n, sh1)"
    "load_parents env (s\<lparr>rs_short := sh1, shorteventid_shortstatehash := t\<rparr>)
       (get_room_shortstatehash s (ev_room pdu)) = Ok (ps, s2)"
    "get_or_create_shortstatekey (rs_short s2) (ev_type pdu, key) = Ok (k, sh3)"
    "get_or_create_shorteventid sh3 (ev_id pdu) = Ok (e, sh4)"
    "replace_entry (get_room_shortstatehash s (ev_room pdu)) ps k e (s2\<lparr>rs_short := sh4\<rparr>) = Ok (h, s')"
  using assms by (auto simp: append_to_state_def try_bind_eq_Ok Let_def)

lemma replace_entry_grown:
  assumes "state_ok env s" and "wf_stack (diffs_of s) ps" and "entries_ok (rs_short s) (top_state ps)"
    and "get_shortstatekey (rs_short s) key = Some k" and "get_eventid_from_short (rs_short s) e = Ok i"
    and "\<And>p. previous = Some p \<Longrightarrow> stack_of (diffs_of s) p ps"
    and "replace_entry previous ps k e s = Ok (h, s')"
  shows "state_grown env s h s' (put_entry (compress_state_event k e) (top_state ps))"
proof -
  let ?x = "compress_state_event k e"
  have find0: "(if ps = [] then None else find_entry (full_state (last ps)) k) = find_entry (top_state ps) k"
    by (simp add: top_state_def find_entry_def)
  show ?thesis
  proof (cases "find_entry (top_state ps) k = Some ?x")
    case True
    then have "previous = Some h" "s' = s"
      using assms(7) by (auto simp: replace_entry_def find0 try_bind_eq_Ok ok_or_eq_Ok)
    then have "stack_of (diffs_of s) h ps" by (simp add: assms(6))
    then show ?thesis
      unfolding state_grown_def \<open>s' = s\<close> put_entry_same [OF assms(3) True]
      using assms(1) short_ext_refl [OF state_okD(1) [OF assms(1)]] by blast
  next
    case False
    then obtain g db where
      "next_count (sh_globals (rs_short s)) = Ok (h, g)"
      "save_state_from_diff (diffs_of s) h (bts_insert ?x [])
        (case find_entry (top_state ps) k of Some r \<Rightarrow> bts_insert r [] | None \<Rightarrow> []) 2 ps = Ok db"
      "s' = put_diffs db (s\<lparr>rs_short := (rs_short s)\<lparr>sh_globals := g\<rparr>\<rparr>)"
      using assms(7) unfolding replace_entry_def find0 Let_def
      by (auto simp: try_bind_eq_Ok split: if_splits)
    then show ?thesis using save_entry [OF assms(1-5) False] by simp
  qed
qed

lemma state_grown_base:
  assumes "state_grown env t h s' cs" and "short_ext (rs_short s) (rs_short t)"
    and "diffs_of t = diffs_of s" and "roomid_shortstatehash t = roomid_shortstatehash s"
  shows "state_grown env s h s' cs"
  using assms short_ext_trans unfolding state_grown_def by metis

lemma append_to_state_grown:
  assumes "env_ok env" and "state_ok env s" and "ev_state_key pdu = Some key"
    and "append_to_state env pdu s = Ok (h, s')"
  obtains ps k e where
    "state_grown env s h s' (put_entry (compress_state_event k e) (top_state ps))"
    "get_shortstatekey (rs_short s') (ev_type pdu, key) = Some k"
    "get_eventid_from_short (rs_short s') e = Ok (ev_id pdu)"
    "entries_ok (rs_short s') (top_state ps)" "entries_ok (rs_short s) (top_state ps)"
    "get_room_shortstatehash s (ev_room pdu) = None \<Longrightarrow> ps = []"
    "\<And>p. get_room_shortstatehash s (ev_room pdu) = Some p \<Longrightarrow> stack_of (diffs_of s) p ps"
proof -
  from append_to_state_steps [OF assms(4,3)] obtain n sh1 t ps s2 k sh3 e sh4 where
    1: "get_or_create_shorteventid (rs_short s) (ev_id pdu) = Ok (n, sh1)" and
    2: "load_parents env (s\<lparr>rs_short := sh1, shorteventid_shortstatehash := t\<rparr>)
       (get_room_shortstatehash s (ev_room pdu)) = Ok (ps, s2)" and
    3: "get_or_create_shortstatekey (rs_short s2) (ev_type pdu, key) = Ok (k, sh3)" and
    4: "get_or_create_shorteventid sh3 (ev_id pdu) = Ok (e, sh4)" and
    5: "replace_entry (get_room_shortstatehash s (ev_room pdu)) ps k e (s2\<lparr>rs_short := sh4\<rparr>) = Ok (h, s')"
    by blast
  let ?s1 = "s\<lparr>rs_short := sh1, shorteventid_shortstatehash := t\<rparr>"
  note e1 = short_ext_event [OF state_okD(1) [OF assms(2)] 1]
  have ok1: "state_ok env ?s1" using state_ok_short [OF assms(2), of sh1] e1 by simp
  have room: "get_room_shortstatehash ?s1 r = get_room_shortstatehash s r" for r
    by (simp add: get_room_shortstatehash_def)
  from load_parents_ok [OF assms(1) ok1, of "ev_room pdu"] 2 obtain c where
    s2: "s2 = ?s1\<lparr>rs_comp := c\<rparr>" "cache_sound (env_lru env) c" "shortstatehash_statediff c = diffs_of s"
    and ps: "wf_stack (diffs_of s) ps" "get_room_shortstatehash s (ev_room pdu) = None \<longleftrightarrow> ps = []"
      "entries_ok sh1 (top_state ps)"
      "\<And>p. get_room_shortstatehash s (ev_room pdu) = Some p \<Longrightarrow> stack_of (diffs_of s) p ps"
    by (auto simp: room)
  have sh1: "rs_short s2 = sh1" by (simp add: s2)
  note e3 = short_ext_statekey [OF short_extD(1) [OF conjunct1 [OF e1]] 3 [unfolded sh1]]
  note e4 = short_ext_event [OF short_extD(1) [OF conjunct1 [OF e3]] 4]
  let ?s3 = "s2\<lparr>rs_short := sh4\<rparr>"
  have ext14: "short_ext sh1 sh4" using short_ext_trans e3 e4 by blast
  have "state_ok env s2" unfolding s2(1) using state_ok_comp [OF ok1 s2(2)] s2(3) by simp
  then have ok3: "state_ok env ?s3" using state_ok_short [of env s2 sh4] ext14 e3 e4 by (simp add: sh1)
  have d3: "diffs_of ?s3 = diffs_of s" by (simp add: s2)
  have k: "get_shortstatekey sh4 (ev_type pdu, key) = Some k"
    using e3 short_extD(5) [OF conjunct1 [OF e4]] by simp
  have ent: "entries_ok sh4 (top_state ps)" by (rule entries_ok_ext [OF ps(3) ext14])
  have grown: "state_grown env ?s3 h s' (put_entry (compress_state_event k e) (top_state ps))"
  proof (rule replace_entry_grown [OF ok3 _ _ _ _ _ 5])
    show "get_shortstatekey (rs_short ?s3) (ev_type pdu, key) = Some k" by (simp add: k)
    show "get_eventid_from_short (rs_short ?s3) e = Ok (ev_id pdu)" by (simp add: e4)
  qed (unfold d3, use ps(1,4) ent in simp_all)
  have "short_ext (rs_short s) sh4" using short_ext_trans e1 ext14 by blast
  then have g: "state_grown env s h s' (put_entry (compress_state_event k e) (top_state ps))"
    using state_grown_base [OF grown] by (simp add: s2)
  have ext': "short_ext sh4 (rs_short s')" using grown by (simp add: state_grown_def)
  have old: "entries_ok (rs_short s) (top_state ps)"
  proof (cases "get_room_shortstatehash s (ev_room pdu)")
    case None
    then show ?thesis using ps(2) by (simp add: top_state_def entries_ok_def wf_entries_def keyed_def)
  next
    case (Some p)
    then show ?thesis
      using db_okD(1) [OF state_okD(3) [OF assms(2)] ps(4) [OF Some]] by (simp add: good_stack_def)
  qed
  show thesis
    by (rule that [OF g])
       (use k e4 ext' ent old ps short_extD(3,5) [OF ext'] entries_ok_ext in blast)+
qed

section \<open>The view of a state\<close>

definition view_of :: "'c state_env \<Rightarrow> 'c state_db \<Rightarrow> u64 \<Rightarrow> type_state_key \<Rightarrow> event_id option" where
  "view_of env s h key = (case state_get_id env s h key of Ok i \<Rightarrow> Some i | Err _ \<Rightarrow> None)"

lemma view_of_stack:
  assumes "env_ok env" and "state_ok env s" and "stack_of (diffs_of s) h st"
  shows "view_of env s h = state_view (rs_short s) (top_state st)"
proof
  fix key
  note v = state_get_id_view [OF assms, of key]
  show "view_of env s h key = state_view (rs_short s) (top_state st) key"
  proof (cases "state_get_id env s h key")
    case (Inl e)
    then have "state_view (rs_short s) (top_state st) key = None" using v by fastforce
    then show ?thesis using Inl by (simp add: view_of_def)
  next
    case (Inr i)
    then show ?thesis using v [of i] by (simp add: view_of_def)
  qed
qed

definition room_view :: "'c state_env \<Rightarrow> 'c state_db \<Rightarrow> string \<Rightarrow> type_state_key \<Rightarrow> event_id option" where
  "room_view env s room_id =
     (case get_room_shortstatehash s room_id of Some h \<Rightarrow> view_of env s h | None \<Rightarrow> Map.empty)"

lemma state_view_Nil: "state_view sh [] = Map.empty"
  by (auto simp: fun_eq_iff state_view_def find_entry_def split: bind_split)

section \<open>Properties\<close>

text \<open>
  C23: appending a state event refines the update of a map. The state under the returned number
  has the event under its type and state key and otherwise the entries of the room's current state,
  as \<open>state_get_id\<close> reads them; no stored state changes, and the invariant of the store is kept.
\<close>

theorem append_to_state_refines:
  assumes "env_ok env" and "state_ok env s" and "ev_state_key pdu = Some key"
    and "append_to_state env pdu s = Ok (h, s')"
  shows "view_of env s' h = (room_view env s (ev_room pdu))((ev_type pdu, key) \<mapsto> ev_id pdu)
    \<and> state_ok env s'
    \<and> (\<forall>h0 st. stack_of (diffs_of s) h0 st \<longrightarrow> view_of env s' h0 = view_of env s h0)"
proof (rule append_to_state_grown [OF assms])
  fix ps k e
  assume
    g: "state_grown env s h s' (put_entry (compress_state_event k e) (top_state ps))" and
    k: "get_shortstatekey (rs_short s') (ev_type pdu, key) = Some k" and
    e: "get_eventid_from_short (rs_short s') e = Ok (ev_id pdu)" and
    ent: "entries_ok (rs_short s') (top_state ps)" "entries_ok (rs_short s) (top_state ps)" and
    ps: "get_room_shortstatehash s (ev_room pdu) = None \<Longrightarrow> ps = []"
      "\<And>p. get_room_shortstatehash s (ev_room pdu) = Some p \<Longrightarrow> stack_of (diffs_of s) p ps"
  from g have ok: "state_ok env s'" and ext: "short_ext (rs_short s) (rs_short s')"
    and keep: "\<And>h st. stack_of (diffs_of s) h st \<Longrightarrow> stack_of (diffs_of s') h st"
    unfolding state_grown_def by blast+
  from g obtain st where st: "stack_of (diffs_of s') h st"
    "top_state st = put_entry (compress_state_event k e) (top_state ps)"
    unfolding state_grown_def by blast
  have "room_view env s (ev_room pdu) = state_view (rs_short s) (top_state ps)"
  proof (cases "get_room_shortstatehash s (ev_room pdu)")
    case None
    then show ?thesis using ps(1) [OF None] by (simp add: room_view_def top_state_def state_view_Nil)
  next
    case (Some p)
    then show ?thesis using view_of_stack [OF assms(1,2) ps(2) [OF Some]] by (simp add: room_view_def)
  qed
  then have "room_view env s (ev_room pdu) = state_view (rs_short s') (top_state ps)"
    using state_view_ext [OF ent(2) ext] by simp
  moreover have "view_of env s' h = (state_view (rs_short s') (top_state ps))((ev_type pdu, key) \<mapsto> ev_id pdu)"
    unfolding view_of_stack [OF assms(1) ok st(1)] st(2)
    by (rule state_view_put [OF ent(1) k short_extD(1) [OF ext] e])
  moreover have "view_of env s' h0 = view_of env s h0" if "stack_of (diffs_of s) h0 st0" for h0 st0
  proof -
    have "entries_ok (rs_short s) (top_state st0)"
      using db_okD(1) [OF state_okD(3) [OF assms(2)] that] by (simp add: good_stack_def)
    then show ?thesis
      unfolding view_of_stack [OF assms(1) ok keep [OF that]] view_of_stack [OF assms(1,2) that]
      by (rule state_view_ext [OF _ ext])
  qed
  ultimately show ?thesis using ok by metis
qed

text \<open>A server without rooms, with an unbounded cache, and the first event of a room.\<close>

definition sample_env :: "(u64 \<times> short_state_info list) list state_env" where
  "sample_env = \<lparr>env_lru = plain_lru, env_sha256 = (\<lambda>x. x), env_fuel = 4\<rparr>"

definition empty_state :: "(u64 \<times> short_state_info list) list state_db" where
  "empty_state = \<lparr>rs_short = empty_short,
     rs_comp = \<lparr>stateinfo_cache = [], shortstatehash_statediff = []\<rparr>,
     roomid_shortstatehash = [], shorteventid_shortstatehash = [], roomid_pduleaves = []\<rparr>"

lemma sample_env_ok: "env_ok sample_env"
  by (simp add: env_ok_def sample_env_def plain_lru_ok)

lemma empty_state_ok: "state_ok sample_env empty_state"
  by (simp add: state_ok_def empty_state_def wf_empty_short cache_sound_def sample_env_def plain_lru_def
      db_ok_def get_room_shortstatehash_def get_shortstatehash_def empty_short_def)
     (simp add: empty_short_def [symmetric] wf_empty_short)

lemma append_sample: "\<exists>h s'. append_to_state sample_env sample_event empty_state = Ok (h, s')"
  by (simp add: append_to_state_def empty_state_def sample_event_def get_or_create_shorteventid_def
      get_or_create_shortstatekey_def get_or_create_def get_shorteventid_def get_shortstatekey_def
      create_shorteventid_def create_shortstatekey_def draw_short_def next_count_def empty_short_def
      get_room_shortstatehash_def load_parents_def replace_entry_def save_state_from_diff.simps
      checked_usize_def state_len_def bts_insert_def insort_insert_key_def)

theorem append_to_state_refines_witness:
  "\<exists>h s'. append_to_state sample_env sample_event empty_state = Ok (h, s')
     \<and> view_of sample_env s' h = [(ev_type sample_event, []) \<mapsto> ev_id sample_event]"
proof -
  from append_sample obtain h s' where a: "append_to_state sample_env sample_event empty_state = Ok (h, s')"
    by blast
  have "ev_state_key sample_event = Some []" by (simp add: sample_event_def)
  from append_to_state_refines [OF sample_env_ok empty_state_ok this a] a show ?thesis
    by (auto simp: room_view_def get_room_shortstatehash_def empty_state_def)
qed

end
