(* ===== verification/Save_State.thy ===== *)
theory Save_State
  imports Append_State
begin

text \<open>
  \<open>save_state\<close> and \<open>set_event_state\<close>: the state under the returned number is the state that was
  given, whether it is new, known, or the current state of the room.
\<close>

section \<open>Numbers for states\<close>

lemma short_ext_statehash:
  assumes "wf_short sh" and "get_or_create_shortstatehash sh x = Ok ((n, existed), sh')"
  shows "short_ext sh sh' \<and> get_shortstatehash sh' = (get_shortstatehash sh)(x \<mapsto> n)
    \<and> eventid_shorteventid sh' = eventid_shorteventid sh
    \<and> (existed \<longrightarrow> sh' = sh \<and> get_shortstatehash sh x = Some n)
    \<and> (\<not> existed \<longrightarrow> short_level sh < n \<and> n \<le> short_level sh')"
proof (cases "get_shortstatehash sh x")
  case (Some m)
  then have "n = m" "sh' = sh" "existed"
    using assms(2) by (auto simp: get_or_create_shortstatehash_def get_or_create_def)
  then show ?thesis using Some short_ext_refl [OF assms(1)] by auto
next
  case None
  then have c: "create_shortstatehash sh x = Ok (n, sh')" and ex: "\<not> existed"
    using assms(2) by (auto simp: get_or_create_shortstatehash_def get_or_create_def try_bind_eq_Ok)
  note new = create_shortstatehash_Ok [OF assms(1) c]
  from c have same: "eventid_shorteventid sh' = eventid_shorteventid sh"
    "shorteventid_eventid sh' = shorteventid_eventid sh"
    "statekey_shortstatekey sh' = statekey_shortstatekey sh"
    "shortstatekey_statekey sh' = shortstatekey_statekey sh"
    by (auto simp: create_shortstatehash_def draw_short_def try_bind_eq_Ok)
  have "short_ext sh sh'"
    unfolding short_ext_def using new same
    by (simp add: get_eventid_from_short_def get_statekey_from_short_def get_shortstatekey_def less_imp_le)
  then show ?thesis
    using new ex same(1) by (simp add: get_shortstatehash_def fun_eq_iff AList.update_conv')
qed

lemma diff_states_fits:
  assumes "entries_ok sh new" and "wf_entries (top_state ps)"
    and "diff_states new ps = (added, removed)"
  shows "fits (top_state ps) added removed"
    and "set (top_state ps) \<union> set added - set removed = set new"
    and "set added = set new - set (top_state ps)" and "set removed = set (top_state ps) - set new"
proof -
  have new: "wf_entries new" "keyed new" using assms(1) by (simp_all add: entries_ok_def)
  show sets: "set added = set new - set (top_state ps)" "set removed = set (top_state ps) - set new"
    using assms(3) by (auto simp: diff_states_def top_state_def split: if_splits)
  then show "set (top_state ps) \<union> set added - set removed = set new" by auto
  have "sorted_set added" "sorted_set removed"
    using assms(2,3) new(1) by (auto simp: diff_states_def top_state_def wf_entries_def split: if_splits)
  then show "fits (top_state ps) added removed"
    using sets new assms(2) by (auto simp: fits_def wf_entries_def keyed_def)
qed

section \<open>Saving under a new number\<close>

lemma save_new_state:
  assumes "state_ok env s" and "wf_stack (diffs_of s) ps" and "entries_ok (rs_short s) (top_state ps)"
    and "entries_ok (rs_short s) new" and "diff_states new ps = (added, removed)"
    and "get_or_create_shortstatehash (rs_short s) (calculate_hash env new) = Ok ((h, False), sh)"
    and "cache_sound (env_lru env) c" and "shortstatehash_statediff c = diffs_of s"
    and "save_state_from_diff (diffs_of s) h added removed dts ps = Ok db"
  shows "state_grown env s h (put_diffs db (s\<lparr>rs_short := sh, rs_comp := c\<rparr>)) new"
proof -
  let ?s' = "put_diffs db (s\<lparr>rs_short := sh, rs_comp := c\<rparr>)"
  note ext = short_ext_statehash [OF state_okD(1) [OF assms(1)] assms(6)]
  have grow: "short_ext (rs_short s) sh" by (simp add: ext)
  have lev: "short_level (rs_short s) < h" "h \<le> short_level sh" using ext by simp_all
  then have h: "h \<noteq> 0" by auto
  note fresh = db_ok_fresh [OF state_okD(3) [OF assms(1)] lev(1)]
  have "wf_entries (top_state ps)" using assms(3) by (simp add: entries_ok_def)
  note diff = diff_states_fits [OF assms(4) this assms(5)]
  have sv: "saved h (diffs_of s) db (set new)"
    unfolding diff(2) [symmetric] by (rule save_state_from_diff_saved [OF fresh h assms(2) diff(1) assms(9)])
  note res = db_ok_saved [OF db_ok_ext [OF state_okD(3) [OF assms(1)] grow] fresh sv
      entries_ok_ext [OF assms(4) grow] refl lev(2)]
  have cs: "cache_sound (env_lru env) (c\<lparr>shortstatehash_statediff := db\<rparr>)"
    by (rule cache_sound_mono [OF assms(7)]) (use res assms(8) in simp)
  have "state_ok env (s\<lparr>rs_short := sh, rs_comp := c\<lparr>shortstatehash_statediff := db\<rparr>,
      roomid_shortstatehash := roomid_shortstatehash s\<rparr>)"
  proof (rule state_ok_grow [OF assms(1) grow _ _ _ cs])
    show "db_ok sh db" using res by blast
    show "stack_of db h st" if "stack_of (diffs_of s) h st" for h st using res that by blast
    show "get_shortstatehash (rs_short s) x = Some n
        \<or> (\<exists>st. stack_of db n st \<and> calculate_hash env (top_state st) = x)"
      if "get_shortstatehash sh x = Some n" for x n
    proof (cases "x = calculate_hash env new")
      case True
      then have "n = h" using that ext by simp
      then show ?thesis using res True by blast
    qed (use that ext in simp)
  qed (simp_all add: get_room_shortstatehash_def)
  then have ok: "state_ok env ?s'" by (simp add: put_diffs_def)
  have sel: "rs_short ?s' = sh" "diffs_of ?s' = db" "roomid_shortstatehash ?s' = roomid_shortstatehash s"
    by (simp_all add: put_diffs_def)
  show ?thesis unfolding state_grown_def sel using ok grow res by blast
qed

text \<open>No stored state that differs from \<open>new\<close> has its hash.\<close>

definition no_collision :: "'c state_env \<Rightarrow> 'c state_db \<Rightarrow> compressed_state \<Rightarrow> bool" where
  "no_collision env s new \<longleftrightarrow> (\<forall>h st. stack_of (diffs_of s) h st \<longrightarrow>
     calculate_hash env (top_state st) = calculate_hash env new \<longrightarrow> top_state st = new)"

lemma known_state:
  assumes "state_ok env s" and "no_collision env s new"
    and "get_or_create_shortstatehash (rs_short s) (calculate_hash env new) = Ok ((h, True), sh)"
  shows "sh = rs_short s \<and> (\<exists>st. stack_of (diffs_of s) h st \<and> top_state st = new)"
proof -
  have sh: "sh = rs_short s" "get_shortstatehash (rs_short s) (calculate_hash env new) = Some h"
    using short_ext_statehash [OF state_okD(1) [OF assms(1)] assms(3)] by simp_all
  from state_okD(5) [OF assms(1) sh(2)] assms(2) sh(1) show ?thesis
    unfolding no_collision_def by blast
qed

lemma state_grown_known:
  assumes "state_ok env s" and "cache_sound (env_lru env) c" and "shortstatehash_statediff c = diffs_of s"
    and "stack_of (diffs_of s) h st" and "top_state st = new"
  shows "state_grown env s h (s\<lparr>rs_comp := c\<rparr>) new"
proof -
  have sel: "rs_short (s\<lparr>rs_comp := c\<rparr>) = rs_short s" "diffs_of (s\<lparr>rs_comp := c\<rparr>) = diffs_of s"
    "roomid_shortstatehash (s\<lparr>rs_comp := c\<rparr>) = roomid_shortstatehash s"
    using assms(3) by simp_all
  show ?thesis unfolding state_grown_def sel
    using assms(4,5) state_ok_comp [OF assms(1-3)] short_ext_refl [OF state_okD(1) [OF assms(1)]] by blast
qed

lemma load_parents_short:
  assumes "load_parents env s p = Ok (ps, s\<lparr>rs_comp := c\<rparr>)"
  shows "load_parents env (s\<lparr>rs_short := sh\<rparr>) p = Ok (ps, s\<lparr>rs_short := sh, rs_comp := c\<rparr>)"
    and "load_or_default env (s\<lparr>rs_short := sh\<rparr>) p = (ps, s\<lparr>rs_short := sh, rs_comp := c\<rparr>)"
proof -
  show l: "load_parents env (s\<lparr>rs_short := sh\<rparr>) p = Ok (ps, s\<lparr>rs_short := sh, rs_comp := c\<rparr>)"
  proof (cases p)
    case None
    with assms have "ps = []" "s = s\<lparr>rs_comp := c\<rparr>" by (simp_all add: load_parents_def)
    then have "s\<lparr>rs_short := sh, rs_comp := c\<rparr> = s\<lparr>rs_short := sh\<rparr>"
      by (metis state_db.select_convs(2) state_db.surjective state_db.update_convs(1) state_db.update_convs(2))
    then show ?thesis using None \<open>ps = []\<close> by (simp add: load_parents_def)
  next
    case (Some h)
    with assms obtain c' where
      "load_shortstatehash_info (env_fuel env) (env_lru env) (rs_comp s) h = Ok (ps, c')"
      "s\<lparr>rs_comp := c'\<rparr> = s\<lparr>rs_comp := c\<rparr>"
      by (auto simp: load_parents_def load_info_def try_bind_eq_Ok)
    moreover from this(2) have "c' = c" by (metis state_db.select_convs(2) state_db.surjective state_db.update_convs(2))
    ultimately show ?thesis using Some by (simp add: load_parents_def load_info_def)
  qed
  then show "load_or_default env (s\<lparr>rs_short := sh\<rparr>) p = (ps, s\<lparr>rs_short := sh, rs_comp := c\<rparr>)"
    by (cases p) (simp_all add: load_or_default_def load_parents_def)
qed

lemma save_state_grown:
  assumes "env_ok env" and "state_ok env s" and "entries_ok (rs_short s) new" and "no_collision env s new"
    and "save_state env r new s = Ok (res, s')"
  shows "state_grown env s (hs_shortstatehash res) s' new"
proof -
  let ?p = "get_room_shortstatehash s r"
  obtain ps c where ld: "load_parents env s ?p = Ok (ps, s\<lparr>rs_comp := c\<rparr>)"
    and c: "cache_sound (env_lru env) c" "shortstatehash_statediff c = diffs_of s"
    and ps: "wf_stack (diffs_of s) ps" "entries_ok (rs_short s) (top_state ps)"
    using load_parents_ok [OF assms(1,2), of r] by blast
  from assms(5) obtain h ex sh where
    sh: "get_or_create_shortstatehash (rs_short s) (calculate_hash env new) = Ok ((h, ex), sh)"
    by (auto simp: save_state_def Let_def try_bind_eq_Ok)
  obtain a d where ad: "diff_states new ps = (a, d)" by fastforce
  note run = assms(5) [unfolded save_state_def Let_def sh, simplified try_bind_Ok prod.case
      load_parents_short(2) [OF ld, of sh] ad]
  show ?thesis
  proof (cases ex)
    case True
    with sh have sh': "get_or_create_shortstatehash (rs_short s) (calculate_hash env new) = Ok ((h, True), sh)"
      by simp
    from known_state [OF assms(2,4) sh'] obtain st where
      st: "sh = rs_short s" "stack_of (diffs_of s) h st" "top_state st = new" by blast
    from run True st(1) have "hs_shortstatehash res = h \<and> (s' = s \<or> s' = s\<lparr>rs_comp := c\<rparr>)"
      by (auto split: if_splits)
    then show ?thesis
      using state_grown_known [OF assms(2) c st(2,3)]
        state_grown_known [OF assms(2) state_okD(2) [OF assms(2)] refl st(2,3)] by auto
  next
    case False
    with sh have sh': "get_or_create_shortstatehash (rs_short s) (calculate_hash env new) = Ok ((h, False), sh)"
      by simp
    have "Some h \<noteq> ?p"
      using short_ext_statehash [OF state_okD(1) [OF assms(2)] sh] False
        state_okD(4) [OF assms(2), of r h] db_okD(2) [OF state_okD(3) [OF assms(2)]] by (metis leD)
    with run False c(2) obtain db where
      "save_state_from_diff (diffs_of s) h a d 2 ps = Ok db" "hs_shortstatehash res = h"
      "s' = put_diffs db (s\<lparr>rs_short := sh, rs_comp := c\<rparr>)"
      by (auto simp: try_bind_eq_Ok)
    then show ?thesis
      using save_new_state [OF assms(2) ps(1,2) assms(3) ad sh' c] by simp
  qed
qed

lemma set_event_state_grown:
  assumes "env_ok env" and "state_ok env s" and "entries_ok (rs_short s) new" and "no_collision env s new"
    and "set_event_state env i r new s = Ok (h, s')"
  shows "state_grown env s h s' new \<and> pdu_shortstatehash s' i = Some h"
proof -
  from assms(5) obtain n sh1 ex sh2 s2 where
    1: "get_or_create_shorteventid (rs_short s) i = Ok (n, sh1)" and
    2: "get_or_create_shortstatehash sh1 (calculate_hash env new) = Ok ((h, ex), sh2)" and
    3: "(if ex then Ok (s\<lparr>rs_short := sh2\<rparr>)
        else
          try_bind (load_parents env (s\<lparr>rs_short := sh2\<rparr>) (get_room_shortstatehash s r)) (\<lambda>(states_parents, s).
          let (diffnew, diffremoved) = diff_states new states_parents in
          try_bind (save_state_from_diff (diffs_of s) h diffnew diffremoved 1000000 states_parents)
            (\<lambda>db. Ok (put_diffs db s)))) = Ok s2" and
    4: "s' = s2\<lparr>shorteventid_shortstatehash := AList.update n h (shorteventid_shortstatehash s2)\<rparr>"
    unfolding set_event_state_def Let_def try_bind_eq_Ok by (auto simp: try_bind_eq_Ok)
  note e1 = short_ext_event [OF state_okD(1) [OF assms(2)] 1]
  let ?s1 = "s\<lparr>rs_short := sh1\<rparr>"
  have ok1: "state_ok env ?s1" using state_ok_short [OF assms(2), of sh1] e1 by simp
  have ent: "entries_ok sh1 new" using entries_ok_ext [OF assms(3)] e1 by blast
  have nc: "no_collision env ?s1 new" using assms(4) by (simp add: no_collision_def)
  note e2 = short_ext_statehash [OF short_extD(1) [OF conjunct1 [OF e1]] 2]
  have g: "state_grown env ?s1 h s2 new \<and> rs_short s2 = sh2"
  proof (cases ex)
    case True
    with 2 have "get_or_create_shortstatehash (rs_short ?s1) (calculate_hash env new) = Ok ((h, True), sh2)"
      by simp
    from known_state [OF ok1 nc this] obtain st where
      st: "sh2 = sh1" "stack_of (diffs_of ?s1) h st" "top_state st = new" by auto
    then show ?thesis
      using 3 True state_grown_known [OF ok1 state_okD(2) [OF ok1] refl st(2,3)] by auto
  next
    case False
    with 2 have 2: "get_or_create_shortstatehash (rs_short ?s1) (calculate_hash env new) = Ok ((h, False), sh2)"
      by simp
    obtain ps c where ld: "load_parents env ?s1 (get_room_shortstatehash ?s1 r) = Ok (ps, ?s1\<lparr>rs_comp := c\<rparr>)"
      and c: "cache_sound (env_lru env) c" "shortstatehash_statediff c = diffs_of ?s1"
      and ps: "wf_stack (diffs_of ?s1) ps" "entries_ok (rs_short ?s1) (top_state ps)"
      using load_parents_ok [OF assms(1) ok1, of r] by blast
    obtain a d where ad: "diff_states new ps = (a, d)" by fastforce
    have "load_parents env (s\<lparr>rs_short := sh2\<rparr>) (get_room_shortstatehash s r) = Ok (ps, s\<lparr>rs_short := sh2, rs_comp := c\<rparr>)"
      using load_parents_short(1) [OF ld, of sh2] by (simp add: get_room_shortstatehash_def)
    with 3 False c(2) obtain db where db: "save_state_from_diff (diffs_of ?s1) h a d 1000000 ps = Ok db"
      "s2 = put_diffs db (s\<lparr>rs_short := sh2, rs_comp := c\<rparr>)"
      by (auto simp: try_bind_eq_Ok ad)
    then show ?thesis
      using save_new_state [OF ok1 ps _ ad 2 c db(1)] ent by (simp add: put_diffs_def)
  qed
  have "state_grown env s h s2 new"
    using state_grown_base [OF conjunct1 [OF g], of s] e1 by simp
  then have "state_grown env s h s' new" unfolding state_grown_def 4 by simp
  moreover have "get_shorteventid sh1 i = Some n"
    using event_ids.get_or_create_finds [OF state_okD(1) [OF assms(2)] 1 [unfolded get_or_create_shorteventid_def]]
    by simp
  then have "get_shorteventid sh2 i = Some n" using e2 by (simp add: get_shorteventid_def)
  ultimately show ?thesis using g by (simp add: 4 pdu_shortstatehash_def AList.update_conv')
qed

section \<open>A state with one entry\<close>

definition sample_short :: short_db where
  "sample_short = one_short\<lparr>sh_globals := \<lparr>global_map = [(COUNTER, to_be_bytes 2)], global_counter = 2\<rparr>,
     statekey_shortstatekey := [((RoomCreate, []), 2)], shortstatekey_statekey := [(2, (RoomCreate, []))]\<rparr>"

definition sample_rooms :: "(u64 \<times> short_state_info list) list state_db" where
  "sample_rooms = empty_state\<lparr>rs_short := sample_short\<rparr>"

definition sample_entries :: compressed_state where
  "sample_entries = [compress_state_event 2 1]"

lemma sample_short_ext: "short_ext empty_short sample_short"
proof -
  have "get_or_create_shorteventid empty_short ''$a'' = Ok (1, one_short)"
  proof -
    have "get_shorteventid empty_short ''$a'' = None" by (simp add: get_shorteventid_def empty_short_def)
    then show ?thesis by (simp add: get_or_create_shorteventid_def get_or_create_def create_one_short)
  qed
  note e1 = conjunct1 [OF short_ext_event [OF wf_empty_short this]]
  have "get_or_create_shortstatekey one_short (RoomCreate, []) = Ok (2, sample_short)"
    by (simp add: get_or_create_shortstatekey_def get_or_create_def create_shortstatekey_def
        get_shortstatekey_def draw_short_def next_count_def one_short_def empty_short_def sample_short_def)
  note e2 = conjunct1 [OF short_ext_statekey [OF short_extD(1) [OF e1] this]]
  show ?thesis by (rule short_ext_trans [OF e1 e2])
qed

lemma sample_rooms_ok: "state_ok sample_env sample_rooms"
  unfolding sample_rooms_def
  by (rule state_ok_short [OF empty_state_ok])
     (simp_all add: empty_state_def sample_short_ext, simp add: sample_short_def one_short_def empty_short_def)

lemma sample_entries_ok: "entries_ok (rs_short sample_rooms) sample_entries"
  by (auto simp: entries_ok_def sample_entries_def sample_rooms_def wf_entries_def sorted_set_def keyed_def
      get_shortstatekey_def get_eventid_from_short_def sample_short_def one_short_def compress_state_event_def
      parse_compressed_state_event_def)

lemma sample_no_collision: "no_collision sample_env sample_rooms sample_entries"
  unfolding no_collision_def
  by (auto dest: stack_of_stored simp: sample_rooms_def empty_state_def)

section \<open>Properties\<close>

text \<open>
  C24: a saved state is found again. Unless two states have the same hash, the number \<open>save_state\<close>
  returns stands for the state that was given, also when the state was stored before or is the
  current one, and the store keeps its invariant: every state has at most four layers.
\<close>

theorem save_state_loads:
  assumes "env_ok env" and "state_ok env s" and "entries_ok (rs_short s) new" and "no_collision env s new"
    and "save_state env room_id new s = Ok (res, s')"
  shows "(\<exists>s''. load_full_state env s' (hs_shortstatehash res) = Ok (new, s'')) \<and> state_ok env s'
    \<and> (\<forall>h st. stack_of (diffs_of s') h st \<longrightarrow> length st \<le> 4)"
proof -
  note g = save_state_grown [OF assms]
  then have ok: "state_ok env s'" by (simp add: state_grown_def)
  from g obtain st where st: "stack_of (diffs_of s') (hs_shortstatehash res) st" "top_state st = new"
    unfolding state_grown_def by blast
  have "length st \<le> 4" if "stack_of (diffs_of s') h st" for h st
    using db_okD(1) [OF state_okD(3) [OF ok] that] by (simp add: good_stack_def)
  then show ?thesis using load_full_state_ok [OF assms(1) ok st(1)] st(2) ok by blast
qed

theorem save_state_loads_witness:
  "\<exists>res s' s''. save_state sample_env ''!r'' sample_entries sample_rooms = Ok (res, s')
     \<and> load_full_state sample_env s' (hs_shortstatehash res) = Ok (sample_entries, s'')"
proof -
  have "\<exists>res s'. save_state sample_env ''!r'' sample_entries sample_rooms = Ok (res, s')"
    by (simp add: save_state_def sample_rooms_def empty_state_def get_room_shortstatehash_def
        get_or_create_shortstatehash_def get_or_create_def create_shortstatehash_def get_shortstatehash_def
        draw_short_def next_count_def sample_short_def one_short_def empty_short_def load_or_default_def
        diff_states_def save_state_from_diff.simps checked_usize_def state_len_def sample_entries_def)
  then obtain res s' where run: "save_state sample_env ''!r'' sample_entries sample_rooms = Ok (res, s')"
    by blast
  from save_state_loads [OF sample_env_ok sample_rooms_ok sample_entries_ok sample_no_collision run] run
  show ?thesis by blast
qed

text \<open>
  C25: the state at an event is recorded. After \<open>set_event_state\<close> the event has the returned number,
  that number stands for the state that was given, and the current state of no room has changed.
\<close>

theorem set_event_state_loads:
  assumes "env_ok env" and "state_ok env s" and "entries_ok (rs_short s) new" and "no_collision env s new"
    and "set_event_state env event_id room_id new s = Ok (h, s')"
  shows "pdu_shortstatehash s' event_id = Some h \<and> (\<exists>s''. load_full_state env s' h = Ok (new, s''))
    \<and> state_ok env s' \<and> get_room_shortstatehash s' r = get_room_shortstatehash s r"
proof -
  note g = set_event_state_grown [OF assms]
  then have ok: "state_ok env s'" and rooms: "roomid_shortstatehash s' = roomid_shortstatehash s"
    by (simp_all add: state_grown_def)
  from g obtain st where st: "stack_of (diffs_of s') h st" "top_state st = new"
    unfolding state_grown_def by blast
  show ?thesis
    using load_full_state_ok [OF assms(1) ok st(1)] st(2) ok g rooms by (simp add: get_room_shortstatehash_def)
qed

theorem set_event_state_loads_witness:
  "\<exists>h s' s''. set_event_state sample_env ''$b'' ''!r'' sample_entries sample_rooms = Ok (h, s')
     \<and> pdu_shortstatehash s' ''$b'' = Some h \<and> load_full_state sample_env s' h = Ok (sample_entries, s'')"
proof -
  have "\<exists>h s'. set_event_state sample_env ''$b'' ''!r'' sample_entries sample_rooms = Ok (h, s')"
    by (simp add: set_event_state_def sample_rooms_def empty_state_def get_room_shortstatehash_def
        get_or_create_shorteventid_def create_shorteventid_def get_shorteventid_def
        get_or_create_shortstatehash_def get_or_create_def create_shortstatehash_def get_shortstatehash_def
        draw_short_def next_count_def sample_short_def one_short_def empty_short_def load_parents_def
        diff_states_def save_state_from_diff.simps checked_usize_def state_len_def sample_entries_def Let_def)
  then obtain h s' where run: "set_event_state sample_env ''$b'' ''!r'' sample_entries sample_rooms = Ok (h, s')"
    by blast
  from set_event_state_loads [OF sample_env_ok sample_rooms_ok sample_entries_ok sample_no_collision run] run
  show ?thesis by blast
qed

end
