(* ===== verification/Auth_Chain.thy ===== *)
theory Auth_Chain
  imports State_Res Room_State_Props
begin

text \<open>
  \<open>service/rooms/auth_chain\<close>: the short identifiers of all events that events depend on through their
  auth events, with the cache in memory, the stored chains of single events, and the division of
  the starting events into buckets. The concurrent streams of the source are evaluated in order.
\<close>

section \<open>The caches\<close>

record 'c chain_db =
  ch_short :: short_db
  ch_cache :: 'c
  shorteventid_authchain :: "(bytes \<times> bytes) list"

type_synonym 'c chain_lru = "('c, u64 list, u64 list) lru"

text \<open>\<open>chunks_exact(8)\<close>: the full chunks of eight bytes.\<close>

fun chunks_exact8 :: "bytes \<Rightarrow> bytes list" where
  "chunks_exact8 (a # b # c # d # e # f # g # h # rest) = [a, b, c, d, e, f, g, h] # chunks_exact8 rest"
| "chunks_exact8 _ = []"

definition get_cached_eventid_authchain :: "'c chain_lru \<Rightarrow> u64 list \<Rightarrow> 'c chain_db
    \<Rightarrow> u64 list option \<times> 'c chain_db" where
  "get_cached_eventid_authchain L key s =
     (case lru_get L (ch_cache s) key of
        (Some chain, c) \<Rightarrow> (Some chain, s\<lparr>ch_cache := c\<rparr>)
      | (None, c) \<Rightarrow>
          let s = s\<lparr>ch_cache := c\<rparr> in
          if length key \<noteq> 1 then (None, s)
          else
            (case map_of (shorteventid_authchain s) (to_be_bytes (hd key)) of
               None \<Rightarrow> (None, s)
             | Some value \<Rightarrow>
                 let chain = map from_be_bytes (chunks_exact8 value)
                 in (Some chain, s\<lparr>ch_cache := lru_insert L (ch_cache s) [hd key] chain\<rparr>)))"

definition cache_auth_chain :: "'c chain_lru \<Rightarrow> u64 list \<Rightarrow> u64 list \<Rightarrow> 'c chain_db \<Rightarrow> 'c chain_db" where
  "cache_auth_chain L key auth_chain s =
     (let s = (if length key = 1
               then s\<lparr>shorteventid_authchain :=
                        AList.update (to_be_bytes (hd key)) (concat (map to_be_bytes auth_chain))
                          (shorteventid_authchain s)\<rparr>
               else s)
      in s\<lparr>ch_cache := lru_insert L (ch_cache s) key auth_chain\<rparr>)"

section \<open>The chain of one event\<close>

text \<open>The loop over the auth events of one event.\<close>

fun push_auth_events :: "event_id list \<Rightarrow> short_db \<Rightarrow> event_id list \<Rightarrow> u64 list
    \<Rightarrow> svc_error + (short_db \<times> event_id list \<times> u64 list)" where
  "push_auth_events [] sh todo found = Ok (sh, todo, found)"
| "push_auth_events (auth_event # rest) sh todo found =
     try_bind (get_or_create_shorteventid sh auth_event) (\<lambda>(sauthevent, sh).
       if sauthevent \<in> set found then push_auth_events rest sh todo found
       else push_auth_events rest sh (todo @ [auth_event]) (found @ [sauthevent]))"

fun get_auth_chain_inner :: "nat \<Rightarrow> fetch \<Rightarrow> string \<Rightarrow> short_db \<Rightarrow> event_id list \<Rightarrow> u64 list
    \<Rightarrow> svc_error + (u64 list \<times> short_db)" where
  "get_auth_chain_inner fuel fetch_pdu room_id sh [] found = Ok (found, sh)"
| "get_auth_chain_inner 0 fetch_pdu room_id sh (event_id # todo) found = Err NoFuel"
| "get_auth_chain_inner (Suc fuel) fetch_pdu room_id sh (event_id # todo) found =
     (case fetch_pdu event_id of
        None \<Rightarrow> get_auth_chain_inner fuel fetch_pdu room_id sh todo found
      | Some pdu \<Rightarrow>
          if ev_room pdu \<noteq> room_id then Err (Forbidden ''auth event for incorrect room'')
          else
            try_bind (push_auth_events (ev_auth_events pdu) sh todo found) (\<lambda>(sh, todo, found).
              get_auth_chain_inner fuel fetch_pdu room_id sh todo found))"

section \<open>Chunks and buckets\<close>

definition sort_dedup :: "u64 list \<Rightarrow> u64 list" where
  "sort_dedup xs = remdups_adj (sort xs)"

text \<open>The chain of one event of a chunk, from the cache or computed and cached.\<close>

definition chain_of_event :: "'c chain_lru \<Rightarrow> nat \<Rightarrow> fetch \<Rightarrow> string \<Rightarrow> u64 \<times> event_id \<Rightarrow> 'c chain_db
    \<Rightarrow> svc_error + (u64 list \<times> 'c chain_db)" where
  "chain_of_event L fuel fetch_pdu room_id item s =
     (case item of (shortid, event_id) \<Rightarrow>
        (case get_cached_eventid_authchain L [shortid] s of
           (Some cached, s) \<Rightarrow> Ok (cached, s)
         | (None, s) \<Rightarrow>
             try_bind (get_auth_chain_inner fuel fetch_pdu room_id (ch_short s) [event_id] []) (\<lambda>(auth_chain, sh).
               Ok (auth_chain, cache_auth_chain L [shortid] auth_chain (s\<lparr>ch_short := sh\<rparr>)))))"

fun chains_of :: "('i \<Rightarrow> 's \<Rightarrow> svc_error + (u64 list \<times> 's)) \<Rightarrow> 'i list \<Rightarrow> 's \<Rightarrow> svc_error + (u64 list \<times> 's)" where
  "chains_of f [] s = Ok ([], s)"
| "chains_of f (i # is) s =
     try_bind (f i s) (\<lambda>(chain, s).
     try_bind (chains_of f is s) (\<lambda>(rest, s). Ok (chain @ rest, s)))"

definition get_auth_chain_outer :: "'c chain_lru \<Rightarrow> nat \<Rightarrow> fetch \<Rightarrow> string \<Rightarrow> (u64 \<times> event_id) list
    \<Rightarrow> 'c chain_db \<Rightarrow> svc_error + (u64 list \<times> 'c chain_db)" where
  "get_auth_chain_outer L fuel fetch_pdu room_id chunk s =
     (let chunk_key = map fst chunk in
      if chunk_key = [] then Ok ([], s)
      else
        (case get_cached_eventid_authchain L chunk_key s of
           (Some cached, s) \<Rightarrow> Ok (cached, s)
         | (None, s) \<Rightarrow>
             try_bind (chains_of (chain_of_event L fuel fetch_pdu room_id) chunk s) (\<lambda>(chains, s).
               let chunk_cache = sort_dedup chains
               in Ok (chunk_cache, cache_auth_chain L chunk_key chunk_cache s))))"

definition NUM_BUCKETS :: nat where
  "NUM_BUCKETS = 50"

definition buckets_of :: "(u64 \<times> event_id) list \<Rightarrow> (u64 \<times> event_id) list list" where
  "buckets_of starting =
     map (\<lambda>b. fold insort_insert (filter (\<lambda>(short, _). unat short mod NUM_BUCKETS = b) starting) [])
       [0..<NUM_BUCKETS]"

definition get_auth_chain :: "(event_id \<Rightarrow> bool) \<Rightarrow> 'c chain_lru \<Rightarrow> nat \<Rightarrow> fetch \<Rightarrow> string
    \<Rightarrow> event_id list \<Rightarrow> 'c chain_db \<Rightarrow> svc_error + (u64 list \<times> 'c chain_db)" where
  "get_auth_chain ahead L fuel fetch_pdu room_id starting_events s =
     try_bind (multi_get_or_create_shorteventid ahead (ch_short s) starting_events) (\<lambda>(shorts, sh).
     try_bind (chains_of (get_auth_chain_outer L fuel fetch_pdu room_id)
                 (buckets_of (zip shorts starting_events)) (s\<lparr>ch_short := sh\<rparr>)) (\<lambda>(chains, s).
       Ok (sort_dedup chains, s)))"

definition event_ids_iter :: "(event_id \<Rightarrow> bool) \<Rightarrow> 'c chain_lru \<Rightarrow> nat \<Rightarrow> fetch \<Rightarrow> string
    \<Rightarrow> event_id list \<Rightarrow> 'c chain_db \<Rightarrow> svc_error + (event_id list \<times> 'c chain_db)" where
  "event_ids_iter ahead L fuel fetch_pdu room_id starting_events s =
     try_bind (get_auth_chain ahead L fuel fetch_pdu room_id starting_events s) (\<lambda>(chain, s).
       Ok (List.map_filter (\<lambda>r. case r of Ok i \<Rightarrow> Some i | Err _ \<Rightarrow> None)
             (multi_get_eventid_from_short (ch_short s) chain), s))"

end
