(* ===== verification/Auth_Chain_Props.thy ===== *)
theory Auth_Chain_Props
  imports Auth_Chain
begin

text \<open>
  The auth chain is the closure under auth events: the loop over the queue, coherence of the caches
  with the stored events, chains of several events, and fuel.
\<close>

section \<open>The closure under auth events\<close>

text \<open>The events an event depends on: its auth events, theirs, and so on.\<close>

inductive depends :: "fetch \<Rightarrow> event_id \<Rightarrow> event_id \<Rightarrow> bool" for fe where
  direct: "a \<in> set (auth_events_of fe e) \<Longrightarrow> depends fe e a"
| further: "depends fe e a \<Longrightarrow> b \<in> set (auth_events_of fe a) \<Longrightarrow> depends fe e b"

text \<open>The numbers of these events.\<close>

definition chain_shorts :: "short_db \<Rightarrow> fetch \<Rightarrow> event_id \<Rightarrow> u64 set" where
  "chain_shorts sh fe e = {n. \<exists>a. depends fe e a \<and> get_shorteventid sh a = Some n}"

text \<open>Numbers of events only grow, and keep their events.\<close>

definition ids_ext :: "short_db \<Rightarrow> short_db \<Rightarrow> bool" where
  "ids_ext sh sh' \<longleftrightarrow> wf_short sh' \<and> (\<forall>i n. get_shorteventid sh i = Some n \<longrightarrow> get_shorteventid sh' i = Some n)"

lemma ids_extD: "ids_ext sh sh' \<Longrightarrow> get_shorteventid sh i = Some n \<Longrightarrow> get_shorteventid sh' i = Some n"
  unfolding ids_ext_def by blast

lemma ids_ext_refl: "wf_short sh \<Longrightarrow> ids_ext sh sh"
  by (simp add: ids_ext_def)

lemma ids_ext_trans: "ids_ext a b \<Longrightarrow> ids_ext b c \<Longrightarrow> ids_ext a c"
  unfolding ids_ext_def by blast

lemma ids_ext_create:
  assumes "wf_short sh" and "get_or_create_shorteventid sh i = Ok (n, sh')"
  shows "ids_ext sh sh' \<and> get_shorteventid sh' i = Some n"
proof -
  note c = assms(2) [unfolded get_or_create_shorteventid_def]
  show ?thesis
    unfolding ids_ext_def
    using event_ids.get_or_create_wf [OF assms(1) c] event_ids.get_or_create_keeps [OF assms(1) c]
      event_ids.get_or_create_finds [OF assms(1) c] by auto
qed

text \<open>
  What the loop over auth events does: every auth event has its number in \<open>found\<close>, and those that
  were new are waiting.
\<close>

definition numbered :: "short_db \<Rightarrow> event_id set \<Rightarrow> u64 list \<Rightarrow> bool" where
  "numbered sh F found \<longleftrightarrow> set (map Some found) = get_shorteventid sh ` F"

lemma numbered_ext:
  assumes "numbered sh F found" and "ids_ext sh sh'"
  shows "numbered sh' F found"
proof -
  have "get_shorteventid sh' i = get_shorteventid sh i" if "i \<in> F" for i
  proof -
    have "get_shorteventid sh i \<in> Some ` set found" using assms(1) that unfolding numbered_def by auto
    then show ?thesis using ids_extD [OF assms(2)] by auto
  qed
  then show ?thesis using assms(1) unfolding numbered_def by (simp cong: image_cong)
qed

lemma numbered_mem:
  assumes "wf_short sh" and "numbered sh F found" and "get_shorteventid sh i = Some n"
  shows "n \<in> set found \<longleftrightarrow> i \<in> F"
proof
  assume "n \<in> set found"
  then have "Some n \<in> get_shorteventid sh ` F"
    using assms(2) unfolding numbered_def by (metis imageI list.set_map)
  then obtain j where "j \<in> F" "get_shorteventid sh j = Some n" by auto
  then show "i \<in> F" using event_ids.found_inj [OF assms(1,3)] by blast
next
  assume "i \<in> F"
  then have "Some n \<in> set (map Some found)"
    using assms(2,3) unfolding numbered_def by (metis imageI)
  then show "n \<in> set found" by auto
qed

lemma push_auth_events_Ok:
  "wf_short sh \<Longrightarrow> numbered sh F found \<Longrightarrow> push_auth_events as sh todo found = Ok (sh', todo', found') \<Longrightarrow>
   ids_ext sh sh' \<and> numbered sh' (F \<union> set as) found'
   \<and> (\<exists>new. todo' = todo @ new \<and> distinct new \<and> set new = set as - F)"
proof (induction as arbitrary: sh F todo found)
  case (Cons a as)
  from Cons.prems(3) obtain n sh1 where
    n: "get_or_create_shorteventid sh a = Ok (n, sh1)" and
    rest: "(if n \<in> set found then push_auth_events as sh1 todo found
       else push_auth_events as sh1 (todo @ [a]) (found @ [n])) = Ok (sh', todo', found')"
    by (auto simp: try_bind_eq_Ok)
  note c = ids_ext_create [OF Cons.prems(1) n]
  have wf: "wf_short sh1" using c by (simp add: ids_ext_def)
  have num: "numbered sh1 F found" using numbered_ext [OF Cons.prems(2)] c by blast
  have mem: "n \<in> set found \<longleftrightarrow> a \<in> F" using numbered_mem [OF wf num] c by blast
  show ?case
  proof (cases "a \<in> F")
    case True
    then have "push_auth_events as sh1 todo found = Ok (sh', todo', found')" using rest mem by simp
    from Cons.IH [OF wf num this] True c show ?thesis
      by (auto simp: insert_absorb intro: ids_ext_trans)
  next
    case False
    then have r: "push_auth_events as sh1 (todo @ [a]) (found @ [n]) = Ok (sh', todo', found')"
      using rest mem by simp
    have "numbered sh1 (insert a F) (found @ [n])"
      using num c by (simp add: numbered_def)
    from Cons.IH [OF wf this r] obtain new where
      ih: "ids_ext sh1 sh'" "numbered sh' (insert a F \<union> set as) found'" "todo' = (todo @ [a]) @ new"
        "distinct new" "set new = set as - insert a F" by blast
    have "insert a F \<union> set as = F \<union> set (a # as)" by auto
    moreover have "todo' = todo @ (a # new)" "distinct (a # new)" "set (a # new) = set (a # as) - F"
      using ih(3-5) False by auto
    ultimately show ?thesis using ih(1,2) c ids_ext_trans by metis
  qed
qed (simp add: ids_ext_refl)

text \<open>
  The invariant of the loop over the queue: what was found is depended on, and everything found has
  its auth events found or is waiting.
\<close>

definition chain_inv :: "fetch \<Rightarrow> event_id \<Rightarrow> event_id set \<Rightarrow> event_id list \<Rightarrow> bool" where
  "chain_inv fe e F todo \<longleftrightarrow> (\<forall>a \<in> F. depends fe e a) \<and> set todo \<subseteq> insert e F
     \<and> (\<forall>x \<in> insert e F. x \<in> set todo \<or> set (auth_events_of fe x) \<subseteq> F)"

lemma chain_inv_done:
  assumes "chain_inv fe e F []"
  shows "F = {a. depends fe e a}"
proof -
  have closed: "set (auth_events_of fe x) \<subseteq> F" if "x = e \<or> x \<in> F" for x
    using assms that unfolding chain_inv_def by auto
  have "depends fe x a \<Longrightarrow> x = e \<Longrightarrow> a \<in> F" for x a
    by (induction rule: depends.induct) (use closed in blast)+
  then show ?thesis using assms by (auto simp: chain_inv_def)
qed

lemma chain_inv_step:
  assumes "chain_inv fe e F (x # todo)" and "set new = set (auth_events_of fe x) - F"
  shows "chain_inv fe e (F \<union> set (auth_events_of fe x)) (todo @ new)"
proof -
  have x: "x = e \<or> depends fe e x" using assms(1) by (auto simp: chain_inv_def)
  then have "depends fe e a" if "a \<in> set (auth_events_of fe x)" for a
    using that depends.direct depends.further by blast
  then show ?thesis using assms unfolding chain_inv_def by auto
qed

lemma inner_sound:
  "wf_short sh \<Longrightarrow> numbered sh F found \<Longrightarrow> chain_inv fe e F todo \<Longrightarrow>
   get_auth_chain_inner fuel fe room sh todo found = Ok (found', sh') \<Longrightarrow>
   ids_ext sh sh' \<and> numbered sh' {a. depends fe e a} found'"
proof (induction fuel fe room sh todo found arbitrary: F rule: get_auth_chain_inner.induct)
  case (1 fuel fe room sh found)
  then show ?case using chain_inv_done [of fe e F] ids_ext_refl by auto
next
  case (3 fuel fe room sh x todo found)
  show ?case
  proof (cases "fe x")
    case None
    have "chain_inv fe e F todo"
      using chain_inv_step [OF 3(5), of "[]"] None by (simp add: auth_events_of_def)
    then show ?thesis using 3(1) [OF None 3(3,4)] 3(6) None by simp
  next
    case (Some pdu)
    with 3(6) obtain sh1 todo1 found1 where room: "ev_room pdu = room"
      and p: "push_auth_events (ev_auth_events pdu) sh todo found = Ok (sh1, todo1, found1)"
      and r: "get_auth_chain_inner fuel fe room sh1 todo1 found1 = Ok (found', sh')"
      by (auto simp: try_bind_eq_Ok split: if_splits)
    have as: "auth_events_of fe x = ev_auth_events pdu" by (simp add: auth_events_of_def Some)
    from push_auth_events_Ok [OF 3(3,4) p] obtain new where
      n: "ids_ext sh sh1" "numbered sh1 (F \<union> set (ev_auth_events pdu)) found1" "todo1 = todo @ new"
        "set new = set (ev_auth_events pdu) - F" by blast
    have "chain_inv fe e (F \<union> set (ev_auth_events pdu)) todo1"
      using chain_inv_step [OF 3(5), of new] n(3,4) by (simp add: as)
    moreover have "wf_short sh1" using n(1) by (simp add: ids_ext_def)
    ultimately have "ids_ext sh1 sh' \<and> numbered sh' {a. depends fe e a} found'"
      using 3(2) [OF Some _ p refl refl _ n(2) _ r] room by simp
    then show ?thesis using n(1) ids_ext_trans by blast
  qed
qed simp

text \<open>Fuel for every event that is depended on, and one more, is enough.\<close>

lemma push_no_fuel: "push_auth_events as sh todo found \<noteq> Err NoFuel"
  by (induction as sh todo found rule: push_auth_events.induct)
     (auto simp: try_bind_eq_Err get_or_create_shorteventid_def get_or_create_def create_shorteventid_def
       draw_short_def next_count_error split: option.splits)

lemma inner_fuel:
  assumes "finite A" and "\<And>a. depends fe e a \<Longrightarrow> a \<in> A"
  shows "wf_short sh \<Longrightarrow> numbered sh F found \<Longrightarrow> chain_inv fe e F todo \<Longrightarrow>
    length todo + card (A - F) \<le> fuel \<Longrightarrow>
    get_auth_chain_inner fuel fe room sh todo found \<noteq> Err NoFuel"
proof (induction fuel arbitrary: F sh todo found)
  case 0
  then show ?case by simp
next
  case (Suc fuel)
  show ?case
  proof (cases todo)
    case (Cons x rest)
    show ?thesis
    proof (cases "fe x")
      case None
      have "chain_inv fe e F rest"
        using chain_inv_step [of fe e F x rest "[]"] Suc.prems(3) None Cons by (simp add: auth_events_of_def)
      then show ?thesis using Suc.IH [of sh F found rest] Suc.prems None Cons by simp
    next
      case (Some pdu)
      show ?thesis
      proof (cases "ev_room pdu = room \<and> (\<exists>r. push_auth_events (ev_auth_events pdu) sh rest found = Ok r)")
        case True
        then obtain sh1 todo1 found1 where
          p: "push_auth_events (ev_auth_events pdu) sh rest found = Ok (sh1, todo1, found1)" by auto
        let ?F = "F \<union> set (ev_auth_events pdu)"
        have as: "auth_events_of fe x = ev_auth_events pdu" by (simp add: auth_events_of_def Some)
        from push_auth_events_Ok [OF Suc.prems(1,2) p] obtain new where
          n: "ids_ext sh sh1" "numbered sh1 ?F found1" "todo1 = rest @ new" "distinct new"
            "set new = set (ev_auth_events pdu) - F" by blast
        have inv: "chain_inv fe e ?F todo1"
          using chain_inv_step [of fe e F x rest new] Suc.prems(3) Cons n(3,5) by (simp add: as)
        have "set new \<subseteq> A - F" using inv n(5) assms(2) by (auto simp: chain_inv_def)
        moreover have "A - ?F = (A - F) - set new" using n(5) by auto
        ultimately have "card (A - ?F) + length new = card (A - F)"
          using assms(1) n(4)
          by (metis List.finite_set card_Diff_subset card_mono distinct_card finite_Diff le_add_diff_inverse2)
        moreover have "wf_short sh1" using n(1) by (simp add: ids_ext_def)
        ultimately show ?thesis
          using Suc.IH [OF _ n(2) inv] Suc.prems(4) Cons Some True p n(3) by simp
      next
        case False
        then show ?thesis
          using Cons Some push_no_fuel [of "ev_auth_events pdu" sh rest found]
          by (cases "push_auth_events (ev_auth_events pdu) sh rest found") auto
      qed
    qed
  qed simp
qed

section \<open>Coherent caches\<close>

text \<open>
  The chain of several events is the union of their chains. A cache is coherent with the stored
  events if every chain it has is the chain of the events whose numbers are its key.
\<close>

definition all_depends :: "fetch \<Rightarrow> event_id list \<Rightarrow> event_id set" where
  "all_depends fe es = {a. \<exists>e \<in> set es. depends fe e a}"

definition chain_for :: "short_db \<Rightarrow> fetch \<Rightarrow> u64 list \<Rightarrow> u64 list \<Rightarrow> bool" where
  "chain_for sh fe key chain \<longleftrightarrow>
     (\<exists>es. map (get_shorteventid sh) es = map Some key \<and> numbered sh (all_depends fe es) chain)"

definition coherent :: "'c chain_lru \<Rightarrow> fetch \<Rightarrow> 'c chain_db \<Rightarrow> bool" where
  "coherent L fe s \<longleftrightarrow> wf_short (ch_short s)
     \<and> (\<forall>key chain. fst (lru_get L (ch_cache s) key) = Some chain \<longrightarrow> chain_for (ch_short s) fe key chain)
     \<and> (\<forall>n value. map_of (shorteventid_authchain s) (to_be_bytes n) = Some value \<longrightarrow>
          chain_for (ch_short s) fe [n] (map from_be_bytes (chunks_exact8 value)))"

lemma coherentD:
  assumes "coherent L fe s"
  shows "wf_short (ch_short s)"
    and "fst (lru_get L (ch_cache s) key) = Some chain \<Longrightarrow> chain_for (ch_short s) fe key chain"
    and "map_of (shorteventid_authchain s) (to_be_bytes n) = Some value \<Longrightarrow>
      chain_for (ch_short s) fe [n] (map from_be_bytes (chunks_exact8 value))"
  using assms unfolding coherent_def by blast+

lemma coherentI:
  assumes "wf_short (ch_short s)"
    and "\<And>key chain. fst (lru_get L (ch_cache s) key) = Some chain \<Longrightarrow> chain_for (ch_short s) fe key chain"
    and "\<And>n value. map_of (shorteventid_authchain s) (to_be_bytes n) = Some value \<Longrightarrow>
      chain_for (ch_short s) fe [n] (map from_be_bytes (chunks_exact8 value))"
  shows "coherent L fe s"
  using assms unfolding coherent_def by blast

lemma map_ids_ext:
  "map (get_shorteventid sh) es = map Some key \<Longrightarrow> ids_ext sh sh' \<Longrightarrow> map (get_shorteventid sh') es = map Some key"
proof (induction es arbitrary: key)
  case (Cons e es)
  then show ?case by (cases key) (auto intro: ids_extD)
qed simp

lemma chain_for_ext: "chain_for sh fe key chain \<Longrightarrow> ids_ext sh sh' \<Longrightarrow> chain_for sh' fe key chain"
  unfolding chain_for_def using map_ids_ext numbered_ext by blast

lemma map_ids_inj:
  assumes "wf_short sh"
  shows "map (get_shorteventid sh) es = map Some key \<Longrightarrow> map (get_shorteventid sh) es' = map Some key \<Longrightarrow> es = es'"
proof (induction key arbitrary: es es')
  case (Cons k key)
  then obtain e f es0 es0' where "es = e # es0" "es' = f # es0'" by (cases es; cases es') auto
  with Cons show ?case using event_ids.found_inj [OF assms, of e k f] by auto
qed simp

lemma chain_for_numbered:
  assumes "wf_short sh" and "chain_for sh fe key chain" and "map (get_shorteventid sh) es = map Some key"
  shows "numbered sh (all_depends fe es) chain"
  using assms(2) map_ids_inj [OF assms(1) _ assms(3)] unfolding chain_for_def by blast

lemma chunks_exact8_append: "length xs = 8 \<Longrightarrow> chunks_exact8 (xs @ ys) = xs # chunks_exact8 ys"
  by (auto simp: numeral_eq_Suc length_Suc_conv)

lemma chunks_to_be_bytes: "map from_be_bytes (chunks_exact8 (concat (map to_be_bytes ns))) = ns"
  by (induction ns) (simp_all add: chunks_exact8_append)

lemma coherent_get:
  assumes "lru_ok L" and "coherent L fe s"
  shows "coherent L fe (s\<lparr>ch_cache := snd (lru_get L (ch_cache s) key)\<rparr>)"
proof (rule coherentI)
  fix k chain
  assume "fst (lru_get L (ch_cache (s\<lparr>ch_cache := snd (lru_get L (ch_cache s) key)\<rparr>)) k) = Some chain"
  then have "fst (lru_get L (ch_cache s) k) = Some chain" using lru_okD(1) [OF assms(1), of "ch_cache s" key k chain] by simp
  from coherentD(2) [OF assms(2) this]
  show "chain_for (ch_short (s\<lparr>ch_cache := snd (lru_get L (ch_cache s) key)\<rparr>)) fe k chain" by simp
next
  show "wf_short (ch_short (s\<lparr>ch_cache := snd (lru_get L (ch_cache s) key)\<rparr>))"
    by (simp add: coherentD(1) [OF assms(2)])
  fix n v
  assume "map_of (shorteventid_authchain (s\<lparr>ch_cache := snd (lru_get L (ch_cache s) key)\<rparr>)) (to_be_bytes n) = Some v"
  then have "map_of (shorteventid_authchain s) (to_be_bytes n) = Some v" by simp
  from coherentD(3) [OF assms(2) this]
  show "chain_for (ch_short (s\<lparr>ch_cache := snd (lru_get L (ch_cache s) key)\<rparr>)) fe [n]
      (map from_be_bytes (chunks_exact8 v))" by simp
qed

lemma coherent_insert:
  assumes "lru_ok L" and "coherent L fe s" and "chain_for (ch_short s) fe key chain"
  shows "coherent L fe (s\<lparr>ch_cache := lru_insert L (ch_cache s) key chain\<rparr>)"
proof (rule coherentI)
  fix k ch
  assume "fst (lru_get L (ch_cache (s\<lparr>ch_cache := lru_insert L (ch_cache s) key chain\<rparr>)) k) = Some ch"
  then have "k = key \<and> ch = chain \<or> fst (lru_get L (ch_cache s) k) = Some ch"
    using lru_okD(2) [OF assms(1), of "ch_cache s" key chain k ch] by simp
  then show "chain_for (ch_short (s\<lparr>ch_cache := lru_insert L (ch_cache s) key chain\<rparr>)) fe k ch"
    using coherentD(2) [OF assms(2), of k ch] assms(3) by auto
next
  show "wf_short (ch_short (s\<lparr>ch_cache := lru_insert L (ch_cache s) key chain\<rparr>))"
    by (simp add: coherentD(1) [OF assms(2)])
  fix n v
  assume "map_of (shorteventid_authchain (s\<lparr>ch_cache := lru_insert L (ch_cache s) key chain\<rparr>)) (to_be_bytes n) = Some v"
  then have "map_of (shorteventid_authchain s) (to_be_bytes n) = Some v" by simp
  from coherentD(3) [OF assms(2) this]
  show "chain_for (ch_short (s\<lparr>ch_cache := lru_insert L (ch_cache s) key chain\<rparr>)) fe [n]
      (map from_be_bytes (chunks_exact8 v))" by simp
qed

lemma get_cached_coherent:
  assumes "lru_ok L" and "coherent L fe s" and "get_cached_eventid_authchain L key s = (r, s')"
  shows "coherent L fe s' \<and> ch_short s' = ch_short s
    \<and> (\<forall>chain. r = Some chain \<longrightarrow> chain_for (ch_short s) fe key chain)"
proof -
  obtain r0 c where get: "lru_get L (ch_cache s) key = (r0, c)" by fastforce
  let ?s = "s\<lparr>ch_cache := c\<rparr>"
  have ok: "coherent L fe ?s" using coherent_get [OF assms(1,2), of key] get by simp
  show ?thesis
  proof (cases r0)
    case (Some chain)
    then have "chain_for (ch_short s) fe key chain" using coherentD(2) [OF assms(2)] get by simp
    then show ?thesis using assms(3) get Some ok by (auto simp: get_cached_eventid_authchain_def)
  next
    case None
    show ?thesis
    proof (cases "length key = 1 \<and> (\<exists>v. map_of (shorteventid_authchain s) (to_be_bytes (hd key)) = Some v)")
      case True
      then obtain n v where key: "key = [n]" and v: "map_of (shorteventid_authchain s) (to_be_bytes n) = Some v"
        by (auto simp: length_Suc_conv)
      have "chain_for (ch_short ?s) fe [n] (map from_be_bytes (chunks_exact8 v))"
        using coherentD(3) [OF assms(2) v] by simp
      from coherent_insert [OF assms(1) ok this] this show ?thesis
        using assms(3) get None key v by (auto simp: get_cached_eventid_authchain_def Let_def)
    next
      case False
      then have "r = None \<and> s' = ?s"
        using assms(3) get None by (auto simp: get_cached_eventid_authchain_def Let_def split: option.splits if_splits)
      then show ?thesis using ok by simp
    qed
  qed
qed

lemma cache_auth_chain_coherent:
  assumes "lru_ok L" and "coherent L fe s" and "chain_for (ch_short s) fe key chain"
  shows "coherent L fe (cache_auth_chain L key chain s) \<and> ch_short (cache_auth_chain L key chain s) = ch_short s"
proof -
  let ?s = "if length key = 1 then s\<lparr>shorteventid_authchain :=
      AList.update (to_be_bytes (hd key)) (concat (map to_be_bytes chain)) (shorteventid_authchain s)\<rparr> else s"
  have sel: "ch_cache ?s = ch_cache s" "ch_short ?s = ch_short s" by simp_all
  have "coherent L fe ?s"
  proof (rule coherentI)
    show "wf_short (ch_short ?s)" unfolding sel by (rule coherentD(1) [OF assms(2)])
    show "chain_for (ch_short ?s) fe k ch" if "fst (lru_get L (ch_cache ?s) k) = Some ch" for k ch
      using that unfolding sel by (rule coherentD(2) [OF assms(2)])
    fix n v
    assume v: "map_of (shorteventid_authchain ?s) (to_be_bytes n) = Some v"
    show "chain_for (ch_short ?s) fe [n] (map from_be_bytes (chunks_exact8 v))"
    proof (cases "length key = 1 \<and> hd key = n")
      case True
      then have "key = [n]" by (auto simp: length_Suc_conv)
      then show ?thesis using v assms(3) by (auto simp: AList.update_conv' chunks_to_be_bytes)
    next
      case False
      then have "map_of (shorteventid_authchain s) (to_be_bytes n) = Some v"
        using v by (auto simp: AList.update_conv' split: if_splits)
      from coherentD(3) [OF assms(2) this] show ?thesis by simp
    qed
  qed
  then have "coherent L fe (?s\<lparr>ch_cache := lru_insert L (ch_cache ?s) key chain\<rparr>)"
    using coherent_insert [OF assms(1), of fe ?s key chain] assms(3) by simp
  then show ?thesis by (simp add: cache_auth_chain_def Let_def)
qed

section \<open>Chains of several events\<close>

lemma numbered_Un: "numbered sh F xs \<Longrightarrow> numbered sh G ys \<Longrightarrow> numbered sh (F \<union> G) (xs @ ys)"
  by (auto simp: numbered_def image_Un)

lemma numbered_set: "set xs = set ys \<Longrightarrow> numbered sh F xs \<longleftrightarrow> numbered sh F ys"
  by (simp add: numbered_def)

lemma set_sort_dedup [simp]: "set (sort_dedup xs) = set xs"
  by (simp add: sort_dedup_def)

text \<open>
  Collecting chains: when every item yields the numbers of the events \<open>D\<close> gives it, the whole list
  yields the union.
\<close>

definition yields :: "'c chain_lru \<Rightarrow> fetch \<Rightarrow> event_id set \<Rightarrow> 'c chain_db \<Rightarrow> svc_error + (u64 list \<times> 'c chain_db) \<Rightarrow> bool"
  where
  "yields L fe F s r \<longleftrightarrow> (\<forall>chain s'. r = Ok (chain, s') \<longrightarrow>
     coherent L fe s' \<and> ids_ext (ch_short s) (ch_short s') \<and> numbered (ch_short s') F chain)"

lemma yieldsD:
  "yields L fe F s r \<Longrightarrow> r = Ok (chain, s') \<Longrightarrow>
   coherent L fe s' \<and> ids_ext (ch_short s) (ch_short s') \<and> numbered (ch_short s') F chain"
  unfolding yields_def by blast

lemma chains_of_yields:
  assumes "\<And>i s. coherent L fe s \<Longrightarrow> valid s i \<Longrightarrow> yields L fe (D i) s (f i s)"
    and "\<And>i s s'. valid s i \<Longrightarrow> ids_ext (ch_short s) (ch_short s') \<Longrightarrow> valid s' i"
  shows "coherent L fe s \<Longrightarrow> \<forall>i \<in> set is. valid s i \<Longrightarrow>
    yields L fe (\<Union>i \<in> set is. D i) s (chains_of f is s)"
proof (induction "is" arbitrary: s)
  case Nil
  then show ?case by (simp add: yields_def numbered_def ids_ext_refl coherentD(1))
next
  case (Cons i "is")
  show ?case
    unfolding yields_def
  proof (intro allI impI)
    fix chain s'
    assume "chains_of f (i # is) s = Ok (chain, s')"
    then obtain c1 s1 c2 where f: "f i s = Ok (c1, s1)" and r: "chains_of f is s1 = Ok (c2, s')"
      and chain: "chain = c1 @ c2" by (auto simp: try_bind_eq_Ok)
    have "valid s i" using Cons.prems(2) by simp
    note y = yieldsD [OF assms(1) [OF Cons.prems(1) this] f]
    have ext: "ids_ext (ch_short s) (ch_short s1)" and coh: "coherent L fe s1" using y by simp_all
    have "\<forall>j \<in> set is. valid s1 j"
    proof
      fix j
      assume "j \<in> set is"
      then have "valid s j" using Cons.prems(2) by simp
      then show "valid s1 j" by (rule assms(2) [OF _ ext])
    qed
    note z = yieldsD [OF Cons.IH [OF coh this] r]
    have "numbered (ch_short s') (D i) c1" using numbered_ext [of "ch_short s1" "D i" c1 "ch_short s'"] y z by simp
    then have "numbered (ch_short s') (D i \<union> (\<Union>i \<in> set is. D i)) chain"
      unfolding chain using numbered_Un z by blast
    then show "coherent L fe s' \<and> ids_ext (ch_short s) (ch_short s')
        \<and> numbered (ch_short s') (\<Union>i \<in> set (i # is). D i) chain"
      using z ids_ext_trans [OF ext, of "ch_short s'"] by simp
  qed
qed

definition valid_item :: "'c chain_db \<Rightarrow> u64 \<times> event_id \<Rightarrow> bool" where
  "valid_item s item \<longleftrightarrow> get_shorteventid (ch_short s) (snd item) = Some (fst item)"

lemma valid_item_ext: "valid_item s i \<Longrightarrow> ids_ext (ch_short s) (ch_short s') \<Longrightarrow> valid_item s' i"
  unfolding valid_item_def by (rule ids_extD)

lemma all_depends_single: "all_depends fe [e] = {a. depends fe e a}"
  by (simp add: all_depends_def)

lemma chain_of_event_yields:
  assumes "lru_ok L" and "coherent L fe s" and "valid_item s item"
  shows "yields L fe {a. depends fe (snd item) a} s (chain_of_event L fuel fe room item s)"
  unfolding yields_def
proof (intro allI impI)
  fix chain s'
  assume run: "chain_of_event L fuel fe room item s = Ok (chain, s')"
  obtain n e where item: "item = (n, e)" by fastforce
  have e: "map (get_shorteventid (ch_short s)) [e] = map Some [n]" using assms(3) by (simp add: item valid_item_def)
  obtain r s1 where get: "get_cached_eventid_authchain L [n] s = (r, s1)" by fastforce
  note g = get_cached_coherent [OF assms(1,2) get]
  have wf: "wf_short (ch_short s)" by (rule coherentD(1) [OF assms(2)])
  show "coherent L fe s' \<and> ids_ext (ch_short s) (ch_short s')
      \<and> numbered (ch_short s') {a. depends fe (snd item) a} chain"
  proof (cases r)
    case (Some c)
    then have "chain = c" "s' = s1" using run get by (auto simp: chain_of_event_def item)
    then show ?thesis
      using g Some chain_for_numbered [OF wf _ e] ids_ext_refl [OF wf] by (simp add: all_depends_single item)
  next
    case None
    with run get obtain sh where
      inner: "get_auth_chain_inner fuel fe room (ch_short s) [e] [] = Ok (chain, sh)"
      and s': "s' = cache_auth_chain L [n] chain (s1\<lparr>ch_short := sh\<rparr>)"
      using g by (auto simp: chain_of_event_def item try_bind_eq_Ok)
    have "ids_ext (ch_short s) sh \<and> numbered sh {a. depends fe e a} chain"
      using inner_sound [OF wf _ _ inner, of "{}" e] by (simp add: numbered_def chain_inv_def)
    then have ext: "ids_ext (ch_short s) sh" and num: "numbered sh (all_depends fe [e]) chain"
      by (simp_all add: all_depends_single)
    have "chain_for sh fe [n] chain" using num map_ids_ext [OF e ext] unfolding chain_for_def by blast
    moreover have "coherent L fe (s1\<lparr>ch_short := sh\<rparr>)"
    proof (rule coherentI)
      show "wf_short (ch_short (s1\<lparr>ch_short := sh\<rparr>))" using ext by (simp add: ids_ext_def)
      show "chain_for (ch_short (s1\<lparr>ch_short := sh\<rparr>)) fe k c"
        if "fst (lru_get L (ch_cache (s1\<lparr>ch_short := sh\<rparr>)) k) = Some c" for k c
        using coherentD(2) [of L fe s1 k c] g that chain_for_ext ext by auto
      show "chain_for (ch_short (s1\<lparr>ch_short := sh\<rparr>)) fe [m] (map from_be_bytes (chunks_exact8 v))"
        if "map_of (shorteventid_authchain (s1\<lparr>ch_short := sh\<rparr>)) (to_be_bytes m) = Some v" for m v
        using coherentD(3) [of L fe s1 m v] g that chain_for_ext ext by auto
    qed
    ultimately have "coherent L fe s' \<and> ch_short s' = sh"
      unfolding s' using cache_auth_chain_coherent [OF assms(1), of fe "s1\<lparr>ch_short := sh\<rparr>" "[n]" chain] by simp
    then show ?thesis using ext num by (simp add: all_depends_single item)
  qed
qed

lemma chains_of_events:
  assumes "lru_ok L" and "coherent L fe s" and "\<forall>i \<in> set chunk. valid_item s i"
  shows "yields L fe (all_depends fe (map snd chunk)) s (chains_of (chain_of_event L fuel fe room) chunk s)"
proof -
  have "yields L fe (\<Union>i \<in> set chunk. {a. depends fe (snd i) a}) s
      (chains_of (chain_of_event L fuel fe room) chunk s)"
    by (rule chains_of_yields [where valid = valid_item, OF _ _ assms(2,3)])
       (rule chain_of_event_yields [OF assms(1)], assumption+, rule valid_item_ext)
  moreover have "(\<Union>i \<in> set chunk. {a. depends fe (snd i) a}) = all_depends fe (map snd chunk)"
    by (auto simp: all_depends_def)
  ultimately show ?thesis by simp
qed

lemma outer_yields:
  assumes "lru_ok L" and "coherent L fe s" and "\<forall>i \<in> set chunk. valid_item s i"
  shows "yields L fe (all_depends fe (map snd chunk)) s (get_auth_chain_outer L fuel fe room chunk s)"
  unfolding yields_def
proof (intro allI impI)
  fix chain s'
  assume run: "get_auth_chain_outer L fuel fe room chunk s = Ok (chain, s')"
  let ?D = "all_depends fe (map snd chunk)" and ?key = "map fst chunk"
  have wf: "wf_short (ch_short s)" by (rule coherentD(1) [OF assms(2)])
  have es: "map (get_shorteventid (ch_short s)) (map snd chunk) = map Some ?key"
    using assms(3) by (simp add: valid_item_def)
  obtain r s1 where get: "get_cached_eventid_authchain L ?key s = (r, s1)" by fastforce
  note g = get_cached_coherent [OF assms(1,2) get]
  show "coherent L fe s' \<and> ids_ext (ch_short s) (ch_short s') \<and> numbered (ch_short s') ?D chain"
  proof (cases "chunk = []")
    case True
    then show ?thesis
      using run assms(2) ids_ext_refl [OF wf] by (simp add: get_auth_chain_outer_def numbered_def all_depends_def)
  next
    case False
    show ?thesis
    proof (cases r)
      case (Some c)
      then have "chain = c" "s' = s1" using run get False by (auto simp: get_auth_chain_outer_def)
      then show ?thesis using g Some chain_for_numbered [OF wf _ es] ids_ext_refl [OF wf] by simp
    next
      case None
      with run get False obtain cs s2 where
        cs: "chains_of (chain_of_event L fuel fe room) chunk s1 = Ok (cs, s2)"
        and res: "chain = sort_dedup cs" "s' = cache_auth_chain L ?key (sort_dedup cs) s2"
        by (auto simp: get_auth_chain_outer_def try_bind_eq_Ok Let_def)
      have "\<forall>i \<in> set chunk. valid_item s1 i" using assms(3) g by (simp add: valid_item_def)
      note y = yieldsD [OF chains_of_events [OF assms(1) conjunct1 [OF g] this] cs]
      have num: "numbered (ch_short s2) ?D chain" using y numbered_set [of cs chain] res(1) by simp
      have ext: "ids_ext (ch_short s) (ch_short s2)" using y g by simp
      have "chain_for (ch_short s2) fe ?key chain"
        unfolding chain_for_def using num map_ids_ext [OF es ext] by blast
      then have "coherent L fe s' \<and> ch_short s' = ch_short s2"
        unfolding res by (intro cache_auth_chain_coherent [OF assms(1)]) (simp_all add: y)
      then show ?thesis using ext num by simp
    qed
  qed
qed

lemma chains_of_outer:
  assumes "lru_ok L" and "coherent L fe s" and "\<forall>b \<in> set B. \<forall>i \<in> set b. valid_item s i"
  shows "yields L fe (\<Union>b \<in> set B. all_depends fe (map snd b)) s
    (chains_of (get_auth_chain_outer L fuel fe room) B s)"
proof (rule chains_of_yields [where valid = "\<lambda>t b. \<forall>i \<in> set b. valid_item t i", OF _ _ assms(2,3)])
  show "\<forall>i \<in> set b. valid_item t' i"
    if "\<forall>i \<in> set b. valid_item t i" "ids_ext (ch_short t) (ch_short t')" for b t t'
    using that valid_item_ext by blast
qed (rule outer_yields [OF assms(1)])

lemma set_fold_insort_insert: "set (fold insort_insert xs ys) = set xs \<union> set ys"
  by (induction xs arbitrary: ys) (auto simp: set_insort_insert)

lemma buckets_cover: "(\<Union>b \<in> set (buckets_of items). set b) = set items"
proof -
  have "unat n mod NUM_BUCKETS < NUM_BUCKETS" for n :: u64 by (simp add: NUM_BUCKETS_def)
  then show ?thesis by (auto simp: buckets_of_def set_fold_insort_insert)
qed

lemma multi_from_ids:
  "wf_short s \<Longrightarrow> ids_ext s0 s \<Longrightarrow> distinct is \<Longrightarrow>
   (\<forall>i \<in> set is. get_shorteventid s i = get_shorteventid s0 i) \<Longrightarrow>
   multi_from ahead s0 s is = Ok (ns, s') \<Longrightarrow>
   ids_ext s s' \<and> map (get_shorteventid s') is = map Some ns"
proof (induction "is" arbitrary: s ns)
  case (Cons i "is")
  let ?look = "case get_shorteventid (if ahead i then s0 else s) i of
      Some n \<Rightarrow> Ok (n, s) | None \<Rightarrow> create_shorteventid s i"
  have "get_shorteventid (if ahead i then s0 else s) i = get_shorteventid s i" using Cons.prems(4) by simp
  then have look: "?look = get_or_create_shorteventid s i"
    by (simp add: get_or_create_shorteventid_def get_or_create_def)
  from Cons.prems(5) obtain n s1 ms where
    n: "get_or_create_shorteventid s i = Ok (n, s1)" and ms: "multi_from ahead s0 s1 is = Ok (ms, s')"
    and ns: "ns = n # ms" by (auto simp: look try_bind_eq_Ok)
  note c = ids_ext_create [OF Cons.prems(1) n]
  have wf: "wf_short s1" and ext: "ids_ext s s1" using c by (simp_all add: ids_ext_def)
  have "get_shorteventid s1 = (get_shorteventid s)(i \<mapsto> n)"
    using event_ids.get_or_create_finds [OF Cons.prems(1) n [unfolded get_or_create_shorteventid_def]] by simp
  then have "\<forall>j \<in> set is. get_shorteventid s1 j = get_shorteventid s0 j" using Cons.prems(3,4) by auto
  from Cons.IH [OF wf ids_ext_trans [OF Cons.prems(2) ext] _ this ms] Cons.prems(3)
  have ih: "ids_ext s1 s'" "map (get_shorteventid s') is = map Some ms" by simp_all
  then show ?case using ids_ext_trans [OF ext] c ids_extD [OF ih(1)] ns by simp
qed (simp add: ids_ext_refl)

section \<open>The whole chain\<close>

lemma distinct_remdups_adj: "sorted xs \<Longrightarrow> distinct (remdups_adj xs)"
  by (induction xs rule: remdups_adj.induct) force+

lemma numbered_list:
  assumes "numbered sh F chain"
  shows "\<exists>es. map (get_shorteventid sh) es = map Some chain \<and> set es \<subseteq> F"
proof -
  have "\<forall>n \<in> set chain. \<exists>e \<in> F. get_shorteventid sh e = Some n"
  proof
    fix n
    assume "n \<in> set chain"
    then have "Some n \<in> get_shorteventid sh ` F" using assms unfolding numbered_def by (metis imageI list.set_map)
    then show "\<exists>e \<in> F. get_shorteventid sh e = Some n" by auto
  qed
  then obtain f where f: "\<forall>n \<in> set chain. f n \<in> F \<and> get_shorteventid sh (f n) = Some n" by metis
  then show ?thesis by (intro exI [of _ "map f chain"]) auto
qed

lemma resolve_list:
  assumes "wf_short sh"
  shows "map (get_shorteventid sh) es = map Some chain \<Longrightarrow>
    List.map_filter (\<lambda>r. case r of Ok i \<Rightarrow> Some i | Err _ \<Rightarrow> None) (multi_get_eventid_from_short sh chain) = es"
proof (induction es arbitrary: chain)
  case Nil
  then show ?case by (simp add: multi_get_eventid_from_short_def List.map_filter_simps)
next
  case (Cons e es)
  then obtain n ns where chain: "chain = n # ns" "get_shorteventid sh e = Some n"
    "map (get_shorteventid sh) es = map Some ns" by (cases chain) auto
  show ?case
    using Cons.IH [OF chain(3)] found_resolves [OF assms chain(2)]
    by (simp add: chain(1) multi_get_eventid_from_short_def List.map_filter_simps)
qed

lemma start_items:
  assumes "coherent L fe s" and "distinct starting"
    and "multi_from ahead (ch_short s) (ch_short s) starting = Ok (shorts, sh)"
  shows "coherent L fe (s\<lparr>ch_short := sh\<rparr>)" and "length shorts = length starting"
    and "\<forall>b \<in> set (buckets_of (zip shorts starting)). \<forall>i \<in> set b. valid_item (s\<lparr>ch_short := sh\<rparr>) i"
proof -
  have wf: "wf_short (ch_short s)" by (rule coherentD(1) [OF assms(1)])
  from multi_from_ids [OF wf ids_ext_refl [OF wf] assms(2) _ assms(3)]
  have ext: "ids_ext (ch_short s) sh" and ids: "map (get_shorteventid sh) starting = map Some shorts" by simp_all
  let ?s = "s\<lparr>ch_short := sh\<rparr>"
  show "coherent L fe ?s"
  proof (rule coherentI)
    show "wf_short (ch_short ?s)" using ext by (simp add: ids_ext_def)
    show "chain_for (ch_short ?s) fe k c" if "fst (lru_get L (ch_cache ?s) k) = Some c" for k c
      using chain_for_ext [OF coherentD(2) [OF assms(1), of k c] ext] that by simp
    show "chain_for (ch_short ?s) fe [m] (map from_be_bytes (chunks_exact8 v))"
      if "map_of (shorteventid_authchain ?s) (to_be_bytes m) = Some v" for m v
      using chain_for_ext [OF coherentD(3) [OF assms(1), of m v] ext] that by simp
  qed
  show len: "length shorts = length starting" using arg_cong [OF ids, of length] by simp
  have "valid_item ?s i" if "i \<in> set (zip shorts starting)" for i
  proof -
    from that obtain k where "k < length shorts" "i = (shorts ! k, starting ! k)"
      using len by (auto simp: in_set_conv_nth)
    then show "valid_item ?s i"
      using arg_cong [OF ids, of "\<lambda>xs. xs ! k"] len by (simp add: valid_item_def)
  qed
  then show "\<forall>b \<in> set (buckets_of (zip shorts starting)). \<forall>i \<in> set b. valid_item ?s i"
    using buckets_cover [of "zip shorts starting"] by blast
qed

lemma get_auth_chain_numbered:
  assumes "lru_ok L" and "coherent L fe s" and "distinct starting"
    and "get_auth_chain ahead L fuel fe room starting s = Ok (chain, s')"
  shows "coherent L fe s' \<and> numbered (ch_short s') (all_depends fe starting) chain
    \<and> sorted chain \<and> distinct chain"
proof -
  from assms(4) obtain shorts sh cs where
    multi: "multi_from ahead (ch_short s) (ch_short s) starting = Ok (shorts, sh)"
    and cs: "chains_of (get_auth_chain_outer L fuel fe room) (buckets_of (zip shorts starting))
        (s\<lparr>ch_short := sh\<rparr>) = Ok (cs, s')"
    and chain: "chain = sort_dedup cs"
    by (auto simp: get_auth_chain_def multi_get_or_create_shorteventid_def try_bind_eq_Ok)
  note start = start_items [OF assms(2,3) multi]
  define B where "B = buckets_of (zip shorts starting)"
  have cover: "(\<Union>b \<in> set B. set b) = set (zip shorts starting)" unfolding B_def by (rule buckets_cover)
  note y = yieldsD [OF chains_of_outer [OF assms(1) start(1,3)] cs]
  have snds: "snd ` set (zip shorts starting) = set starting"
    using start(2) by (metis list.set_map map_snd_zip)
  have "all_depends fe starting = (\<Union>i \<in> (\<Union>b \<in> set B. set b). {a. depends fe (snd i) a})"
    unfolding cover all_depends_def snds [symmetric] by auto
  moreover have "(\<Union>b \<in> set B. all_depends fe (map snd b)) = (\<Union>i \<in> (\<Union>b \<in> set B. set b). {a. depends fe (snd i) a})"
    unfolding all_depends_def by auto
  ultimately show ?thesis
    using y [folded B_def] numbered_set [of cs chain] chain by (simp add: sort_dedup_def sorted_remdups_adj distinct_remdups_adj)
qed

section \<open>Enough fuel\<close>

lemma chains_of_Err:
  assumes "\<And>i s. coherent L fe s \<Longrightarrow> valid s i \<Longrightarrow> yields L fe (D i) s (f i s)"
    and "\<And>i s s'. valid s i \<Longrightarrow> ids_ext (ch_short s) (ch_short s') \<Longrightarrow> valid s' i"
    and "\<And>i s. coherent L fe s \<Longrightarrow> valid s i \<Longrightarrow> f i s \<noteq> Err e"
  shows "coherent L fe s \<Longrightarrow> \<forall>i \<in> set is. valid s i \<Longrightarrow> chains_of f is s \<noteq> Err e"
proof (induction "is" arbitrary: s)
  case (Cons i "is")
  have i: "valid s i" using Cons.prems(2) by simp
  show ?case
  proof (cases "f i s")
    case (Inl e')
    then show ?thesis using assms(3) [OF Cons.prems(1) i] by simp
  next
    case (Inr p)
    then obtain c s1 where f: "f i s = Ok (c, s1)" by (cases p) auto
    note y = yieldsD [OF assms(1) [OF Cons.prems(1) i] f]
    have "\<forall>j \<in> set is. valid s1 j"
    proof
      fix j
      assume "j \<in> set is"
      then have "valid s j" using Cons.prems(2) by simp
      then show "valid s1 j" by (rule assms(2)) (simp add: y)
    qed
    from Cons.IH [OF conjunct1 [OF y] this] f show ?thesis by (auto simp: try_bind_eq_Err)
  qed
qed simp

lemma chain_of_event_fuel:
  assumes "lru_ok L" and "coherent L fe s" and "finite A" and "\<And>e a. depends fe e a \<Longrightarrow> a \<in> A"
    and "card A < fuel"
  shows "chain_of_event L fuel fe room item s \<noteq> Err NoFuel"
proof -
  obtain n e where item: "item = (n, e)" by fastforce
  obtain r s1 where get: "get_cached_eventid_authchain L [n] s = (r, s1)" by fastforce
  have s1: "ch_short s1 = ch_short s" using get_cached_coherent [OF assms(1,2) get] by simp
  have "get_auth_chain_inner fuel fe room (ch_short s) [e] [] \<noteq> Err NoFuel"
    by (rule inner_fuel [where e = e and F = "{}", OF assms(3,4) coherentD(1) [OF assms(2)]])
       (use assms(5) in \<open>simp_all add: numbered_def chain_inv_def\<close>)
  then show ?thesis by (cases r) (auto simp: chain_of_event_def item get s1 try_bind_eq_Err)
qed

lemma outer_fuel:
  assumes "lru_ok L" and "coherent L fe s" and "\<forall>i \<in> set chunk. valid_item s i"
    and "finite A" and "\<And>e a. depends fe e a \<Longrightarrow> a \<in> A" and "card A < fuel"
  shows "get_auth_chain_outer L fuel fe room chunk s \<noteq> Err NoFuel"
proof -
  obtain r s1 where get: "get_cached_eventid_authchain L (map fst chunk) s = (r, s1)" by fastforce
  note g = get_cached_coherent [OF assms(1,2) get]
  have "\<forall>i \<in> set chunk. valid_item s1 i" using assms(3) g by (simp add: valid_item_def)
  then have "chains_of (chain_of_event L fuel fe room) chunk s1 \<noteq> Err NoFuel"
    by (intro chains_of_Err [where valid = valid_item, OF chain_of_event_yields [OF assms(1)] valid_item_ext
          chain_of_event_fuel [OF assms(1) _ assms(4,5,6)]]) (simp_all add: g)
  then show ?thesis by (cases r) (auto simp: get_auth_chain_outer_def get Let_def try_bind_eq_Err)
qed

section \<open>A small room\<close>

text \<open>A room whose topic event depends on the join of its sender and on the create event.\<close>

definition chain_event :: "event_id \<Rightarrow> event_id list \<Rightarrow> event" where
  "chain_event i auth = sample_event\<lparr>ev_id := i, ev_auth_events := auth\<rparr>"

definition half_store :: timeline_db where
  "half_store = add_pdu_outlier ''$t'' (chain_event ''$t'' [''$j'']) empty_db"

definition full_store :: timeline_db where
  "full_store = add_pdu_outlier ''$j'' (chain_event ''$j'' [''$c'']) half_store"

definition no_chains :: "(u64 list \<times> u64 list) list chain_db" where
  "no_chains = \<lparr>ch_short = empty_short, ch_cache = [], shorteventid_authchain = []\<rparr>"

abbreviation iter_topic :: "timeline_db \<Rightarrow> (u64 list \<times> u64 list) list chain_db
    \<Rightarrow> svc_error + (event_id list \<times> (u64 list \<times> u64 list) list chain_db)" where
  "iter_topic db \<equiv> event_ids_iter (\<lambda>_. False) plain_lru 9 (get_pdu (\<lambda>_. False) db) ''!r'' [''$t'']"

lemma no_chains_coherent: "coherent plain_lru fe no_chains"
  by (rule coherentI) (simp_all add: no_chains_def wf_empty_short plain_lru_def)

lemma full_chain: "\<exists>s'. iter_topic full_store no_chains = Ok ([''$j'', ''$c''], s')"
proof -
  have "(case iter_topic full_store no_chains of Ok (ids, _) \<Rightarrow> ids | Err _ \<Rightarrow> []) = [''$j'', ''$c'']"
    by code_simp
  then show ?thesis by (auto split: sum.splits prod.splits)
qed

section \<open>Properties\<close>






end
