(* ===== verification/Db_Serde.thy ===== *)
theory Db_Serde
  imports Globals
begin

text \<open>
  \<open>database/ser.rs\<close>, \<open>database/de.rs\<close> and \<open>database/keyval.rs\<close>: how structured keys become byte
  strings and come back. A tuple is its records joined by the byte 0xFF, which no UTF-8 string
  contains; an integer is its big-endian bytes. The model is the release build: the checks behind
  \<open>debug_assert\<close>, and the fields \<open>depth\<close> and \<open>fin\<close> that only they read, are left out. What a type's
  implementation of serde's traits asks of the (de)serialiser is the datatypes \<open>ser_val\<close> and \<open>de_ty\<close>.
\<close>

section \<open>UTF-8\<close>

definition utf8_cont :: "byte \<Rightarrow> bool" where
  "utf8_cont b \<longleftrightarrow> 0x80 \<le> b \<and> b \<le> 0xBF"

text \<open>\<open>str::from_utf8\<close>: the well-formed byte sequences.\<close>

fun valid_utf8 :: "bytes \<Rightarrow> bool" where
  "valid_utf8 [] = True"
| "valid_utf8 (b # bs) =
     (if b < 0x80 then valid_utf8 bs
      else if 0xC2 \<le> b \<and> b \<le> 0xDF then
        (case bs of c # bs' \<Rightarrow> utf8_cont c \<and> valid_utf8 bs' | _ \<Rightarrow> False)
      else if 0xE0 \<le> b \<and> b \<le> 0xEF then
        (case bs of
           c # d # bs' \<Rightarrow>
             utf8_cont c \<and> utf8_cont d \<and> (b = 0xE0 \<longrightarrow> 0xA0 \<le> c) \<and> (b = 0xED \<longrightarrow> c \<le> 0x9F)
             \<and> valid_utf8 bs'
         | _ \<Rightarrow> False)
      else if 0xF0 \<le> b \<and> b \<le> 0xF4 then
        (case bs of
           c # d # e # bs' \<Rightarrow>
             utf8_cont c \<and> utf8_cont d \<and> utf8_cont e \<and> (b = 0xF0 \<longrightarrow> 0x90 \<le> c)
             \<and> (b = 0xF4 \<longrightarrow> c \<le> 0x8F) \<and> valid_utf8 bs'
         | _ \<Rightarrow> False)
      else False)"

definition str_from_bytes :: "bytes \<Rightarrow> svc_error + bytes" where
  "str_from_bytes bs = (if valid_utf8 bs then Ok bs else Err Utf8)"

definition string_from_bytes :: "bytes \<Rightarrow> svc_error + bytes" where
  "string_from_bytes bs = try_bind (str_from_bytes bs) (\<lambda>s. Ok s)"

section \<open>Serialisation\<close>

definition SEP :: byte where
  "SEP = 0xFF"

text \<open>
  The buffer a key or value is written into: \<open>SmallVec\<close> and \<open>Vec\<close> grow, \<open>ArrayVec\<close> has a capacity and
  refuses what does not fit.
\<close>

record serializer =
  ser_out :: bytes
  ser_cap :: "nat option"
  ser_sep :: bool

text \<open>
  What a value asks of the serialiser. \<open>SNewtype\<close> carries the text that serde_json or minicbor make of
  the wrapped value, absent if they report an error; \<open>SUnhandled\<close> is a method that is not implemented.
\<close>

datatype ser_val =
    SStr bytes
  | SBytes bytes
  | SU8 byte
  | SU32 u32
  | SU64 u64
  | SI32 "32 word"
  | SI64 "64 word"
  | SNone
  | SSome ser_val
  | SSeq "ser_val list"
  | STuple "ser_val list"
  | STupleStruct "ser_val list"
  | SNewtype string "bytes option"
  | SUnitStruct string
  | SUnhandled string

definition ser_write :: "bytes \<Rightarrow> serializer \<Rightarrow> svc_error + serializer" where
  "ser_write bs s =
     (if (case ser_cap s of None \<Rightarrow> True | Some n \<Rightarrow> length (ser_out s) + length bs \<le> n)
      then Ok (s\<lparr>ser_out := ser_out s @ bs\<rparr>)
      else Err (Io ''failed to write whole buffer''))"

definition separator :: "serializer \<Rightarrow> svc_error + serializer" where
  "separator s = ser_write [SEP] s"

text \<open>\<open>exchange(&mut self.sep, true).then(|| self.separator())\<close>.\<close>

definition ser_record_start :: "serializer \<Rightarrow> svc_error + serializer" where
  "ser_record_start s = (if ser_sep s then separator s else Ok (s\<lparr>ser_sep := True\<rparr>))"

definition serialize_newtype_struct ::
    "string \<Rightarrow> bytes option \<Rightarrow> serializer \<Rightarrow> svc_error + serializer" where
  "serialize_newtype_struct name text s =
     (if name = ''Json'' \<or> name = ''Cbor'' then
        (case text of Some bs \<Rightarrow> ser_write bs s | None \<Rightarrow> Err (SerdeSer name))
      else Err (Panicked ''Unrecognized serialization Newtype''))"

definition serialize_unit_struct :: "string \<Rightarrow> serializer \<Rightarrow> svc_error + serializer" where
  "serialize_unit_struct name s =
     (if name = ''Interfix'' then Ok s
      else if name = ''Separator'' then separator s
      else Err (Panicked ''Unrecognized serialization directive''))"

text \<open>Elements of a sequence follow each other; the records of a tuple have separators between them.\<close>

fun ser_value :: "ser_val \<Rightarrow> serializer \<Rightarrow> svc_error + serializer"
  and ser_elements :: "ser_val list \<Rightarrow> serializer \<Rightarrow> svc_error + serializer"
  and ser_records :: "ser_val list \<Rightarrow> serializer \<Rightarrow> svc_error + serializer" where
  "ser_value (SStr v) s = ser_write v s"
| "ser_value (SBytes v) s = ser_write v s"
| "ser_value (SU8 v) s = ser_write [v] s"
| "ser_value (SU32 v) s = ser_write (be_bytes 4 (unat v)) s"
| "ser_value (SU64 v) s = ser_write (to_be_bytes v) s"
| "ser_value (SI32 v) s = ser_write (be_bytes 4 (unat v)) s"
| "ser_value (SI64 v) s = ser_write (to_be_bytes v) s"
| "ser_value SNone s = Ok s"
| "ser_value (SSome v) s = ser_value v s"
| "ser_value (SSeq vs) s = ser_elements vs s"
| "ser_value (STuple vs) s = ser_records vs s"
| "ser_value (STupleStruct vs) s = ser_records vs s"
| "ser_value (SNewtype name text) s = serialize_newtype_struct name text s"
| "ser_value (SUnitStruct name) s = serialize_unit_struct name s"
| "ser_value (SUnhandled msg) s = Err (Panicked msg)"
| "ser_elements [] s = Ok s"
| "ser_elements (v # vs) s = try_bind (ser_value v s) (ser_elements vs)"
| "ser_records [] s = Ok s"
| "ser_records (v # vs) s =
     try_bind (ser_record_start s) (\<lambda>s. try_bind (ser_value v s) (ser_records vs))"

text \<open>
  \<open>serialize\<close> into a buffer that holds \<open>buf\<close> already; \<open>serialize_to\<close> starts with the empty one. Errors
  of the serialiser are wrapped; a panic stays a panic.
\<close>

definition serialize :: "nat option \<Rightarrow> bytes \<Rightarrow> ser_val \<Rightarrow> svc_error + bytes" where
  "serialize cap buf v =
     (case ser_value v \<lparr>ser_out = buf, ser_cap = cap, ser_sep = False\<rparr> of
        Ok s \<Rightarrow> Ok (ser_out s)
      | Err (Panicked msg) \<Rightarrow> Err (Panicked msg)
      | Err e \<Rightarrow> Err (SerdeSer ''serialize''))"

definition serialize_to :: "nat option \<Rightarrow> ser_val \<Rightarrow> svc_error + bytes" where
  "serialize_to cap v = serialize cap [] v"

definition serialize_to_vec :: "ser_val \<Rightarrow> svc_error + bytes" where
  "serialize_to_vec v = serialize_to None v"

definition serialize_key :: "ser_val \<Rightarrow> svc_error + bytes" where
  "serialize_key v = serialize_to None v"

definition serialize_val :: "ser_val \<Rightarrow> svc_error + bytes" where
  "serialize_val v = serialize_to None v"

section \<open>Deserialisation\<close>

record deserializer =
  de_buf :: bytes
  de_pos :: nat
  de_rec :: nat
  de_seq :: bool

text \<open>
  What a type asks of the deserialiser, and the values it gets. The parameter of \<open>DStr\<close> and \<open>DString\<close> is
  the check of the type itself (an identifier of ruma parses the string); that of \<open>DJson\<close> says what
  serde_json reads as the type.
\<close>

datatype de_field =
    DStr "bytes \<Rightarrow> bool"
  | DString "bytes \<Rightarrow> bool"
  | DBytes
  | DU64
  | DI64
  | DIgnore
  | DIgnoreAll
  | DOption de_field
  | DJson "bytes \<Rightarrow> bool"
  | DUnhandled string

datatype de_val =
    VStr bytes
  | VBytes bytes
  | VU64 u64
  | VI64 "64 word"
  | VUnit
  | VNone
  | VSome de_val
  | VJson bytes
  | VTuple "de_val list"

datatype de_ty =
    DField de_field
  | DTuple "de_field list"
  | DSeq de_field

text \<open>\<open>&self.buf[self.pos..]\<close> panics when the position is past the end.\<close>

definition de_rest :: "deserializer \<Rightarrow> svc_error + bytes" where
  "de_rest d =
     (if de_pos d \<le> length (de_buf d) then Ok (drop (de_pos d) (de_buf d))
      else Err (Panicked ''slice index out of range''))"

definition inc_pos :: "nat \<Rightarrow> deserializer \<Rightarrow> deserializer" where
  "inc_pos n d = d\<lparr>de_pos := de_pos d + n\<rparr>"

definition inc_rec :: "nat \<Rightarrow> deserializer \<Rightarrow> deserializer" where
  "inc_rec n d = d\<lparr>de_rec := de_rec d + n\<rparr>"

definition sequence_start :: "deserializer \<Rightarrow> deserializer" where
  "sequence_start d = d\<lparr>de_seq := True\<rparr>"

definition remaining :: "deserializer \<Rightarrow> svc_error + nat" where
  "remaining d =
     (if de_pos d \<le> length (de_buf d) then Ok (length (de_buf d) - de_pos d)
      else Err (Arithmetic ''operation overflowed or result invalid''))"

definition finished :: "deserializer \<Rightarrow> svc_error + unit" where
  "finished d =
     try_bind (de_rest d) (\<lambda>unparsed.
     try_bind (remaining d) (\<lambda>remain.
       if remain = 0 \<or> remain = 1 \<and> unparsed ! 0 = SEP then Ok ()
       else Err (SerdeDe ''trailing bytes not deserialized'')))"

definition record_next :: "deserializer \<Rightarrow> svc_error + (bytes \<times> deserializer)" where
  "record_next d =
     try_bind (de_rest d) (\<lambda>rest.
       let rec = takeWhile (\<lambda>b. b \<noteq> SEP) rest in Ok (rec, inc_pos (length rec) d))"

definition record_trail :: "deserializer \<Rightarrow> svc_error + (bytes \<times> deserializer)" where
  "record_trail d = try_bind (de_rest d) (\<lambda>rest. Ok (rest, inc_pos (length rest) d))"

definition record_ignore_all :: "deserializer \<Rightarrow> svc_error + deserializer" where
  "record_ignore_all d = try_bind (record_trail d) (\<lambda>(_, d). Ok d)"

definition record_ignore :: "deserializer \<Rightarrow> svc_error + deserializer" where
  "record_ignore d =
     (if de_seq d then try_bind (record_next d) (\<lambda>(_, d). Ok d) else record_ignore_all d)"

definition de_record_start :: "deserializer \<Rightarrow> deserializer" where
  "de_record_start d =
     (let started = de_pos d \<noteq> 0 \<or> de_rec d > 0
      in inc_rec 1 (inc_pos (if started then 1 else 0) d))"

text \<open>\<open>self.buf[self.pos..end]\<close> with \<open>end\<close> at most the length: eight bytes or a buffer underflow.\<close>

definition de_eight :: "deserializer \<Rightarrow> svc_error + (bytes \<times> deserializer)" where
  "de_eight d =
     try_bind (de_rest d) (\<lambda>rest.
       if length rest < 8 then Err (SerdeDe ''buffer underflow'')
       else Ok (take 8 rest, inc_pos 8 d))"

definition deserialize_str :: "deserializer \<Rightarrow> svc_error + (bytes \<times> deserializer)" where
  "deserialize_str d =
     try_bind (record_next d) (\<lambda>(input, d).
     try_bind (str_from_bytes input) (\<lambda>out. Ok (out, d)))"

definition deserialize_string :: "deserializer \<Rightarrow> svc_error + (bytes \<times> deserializer)" where
  "deserialize_string d =
     try_bind (record_next d) (\<lambda>(input, d).
     try_bind (string_from_bytes input) (\<lambda>out. Ok (out, d)))"

definition deserialize_struct ::
    "(bytes \<Rightarrow> bool) \<Rightarrow> deserializer \<Rightarrow> svc_error + (bytes \<times> deserializer)" where
  "deserialize_struct json d =
     try_bind (record_next d) (\<lambda>(input, d).
       if json input then Ok (input, d) else Err (SerdeDe ''json''))"

definition visit_str :: "(bytes \<Rightarrow> bool) \<Rightarrow> bytes \<times> deserializer \<Rightarrow> svc_error + (de_val \<times> deserializer)" where
  "visit_str check r =
     (if check (fst r) then Ok (VStr (fst r), snd r) else Err (SerdeDe ''invalid value''))"

text \<open>A value of a field type; \<open>deserialize_option\<close> looks at the byte at the position.\<close>

fun de_value :: "de_field \<Rightarrow> deserializer \<Rightarrow> svc_error + (de_val \<times> deserializer)" where
  "de_value (DStr check) d = try_bind (deserialize_str d) (visit_str check)"
| "de_value (DString check) d = try_bind (deserialize_string d) (visit_str check)"
| "de_value DBytes d = try_bind (record_trail d) (\<lambda>(bs, d). Ok (VBytes bs, d))"
| "de_value DU64 d = try_bind (de_eight d) (\<lambda>(bs, d). Ok (VU64 (from_be_bytes bs), d))"
| "de_value DI64 d = try_bind (de_eight d) (\<lambda>(bs, d). Ok (VI64 (from_be_bytes bs), d))"
| "de_value DIgnore d = try_bind (record_ignore d) (\<lambda>d. Ok (VUnit, d))"
| "de_value DIgnoreAll d = try_bind (record_ignore_all d) (\<lambda>d. Ok (VUnit, d))"
| "de_value (DOption f) d =
     (if length (de_buf d) \<le> de_pos d \<or> de_buf d ! de_pos d = SEP then Ok (VNone, d)
      else try_bind (de_value f d) (\<lambda>(v, d). Ok (VSome v, d)))"
| "de_value (DJson json) d = try_bind (deserialize_struct json d) (\<lambda>(bs, d). Ok (VJson bs, d))"
| "de_value (DUnhandled msg) d = Err (Panicked msg)"

definition next_element_seed ::
    "de_field \<Rightarrow> deserializer \<Rightarrow> svc_error + (de_val option \<times> deserializer)" where
  "next_element_seed f d =
     (if length (de_buf d) \<le> de_pos d then Ok (None, d)
      else try_bind (de_value f (de_record_start d)) (\<lambda>(v, d). Ok (Some v, d)))"

text \<open>serde's visitor of a tuple: a missing element is an error.\<close>

fun de_records :: "de_field list \<Rightarrow> deserializer \<Rightarrow> svc_error + (de_val list \<times> deserializer)" where
  "de_records [] d = Ok ([], d)"
| "de_records (f # fs) d =
     try_bind (next_element_seed f d) (\<lambda>(v, d).
       case v of
         None \<Rightarrow> Err (SerdeDe ''invalid length'')
       | Some v \<Rightarrow> try_bind (de_records fs d) (\<lambda>(vs, d). Ok (v # vs, d)))"

text \<open>serde's visitor of a vector, until no element is left.\<close>

fun de_elements :: "nat \<Rightarrow> de_field \<Rightarrow> deserializer \<Rightarrow> svc_error + (de_val list \<times> deserializer)" where
  "de_elements 0 f d = Err NoFuel"
| "de_elements (Suc n) f d =
     try_bind (next_element_seed f d) (\<lambda>(v, d).
       case v of
         None \<Rightarrow> Ok ([], d)
       | Some v \<Rightarrow> try_bind (de_elements n f d) (\<lambda>(vs, d). Ok (v # vs, d)))"

text \<open>Each element but the first consumes a separator, so the length of the buffer bounds the loop.\<close>

fun de_type :: "de_ty \<Rightarrow> deserializer \<Rightarrow> svc_error + (de_val \<times> deserializer)" where
  "de_type (DField f) d = de_value f d"
| "de_type (DTuple fs) d = try_bind (de_records fs (sequence_start d)) (\<lambda>(vs, d). Ok (VTuple vs, d))"
| "de_type (DSeq f) d =
     try_bind (de_elements (length (de_buf d) + 2) f (sequence_start d)) (\<lambda>(vs, d). Ok (VTuple vs, d))"

definition de_start :: "bytes \<Rightarrow> deserializer" where
  "de_start buf = \<lparr>de_buf = buf, de_pos = 0, de_rec = 0, de_seq = False\<rparr>"

definition from_slice :: "de_ty \<Rightarrow> bytes \<Rightarrow> svc_error + de_val" where
  "from_slice t buf = try_bind (de_type t (de_start buf)) (\<lambda>(v, _). Ok v)"

definition deserialize_key :: "de_ty \<Rightarrow> bytes \<Rightarrow> svc_error + de_val" where
  "deserialize_key t k = from_slice t k"

definition deserialize_val :: "de_ty \<Rightarrow> bytes \<Rightarrow> svc_error + de_val" where
  "deserialize_val t v = from_slice t v"

definition deserialize_kv :: "de_ty \<Rightarrow> de_ty \<Rightarrow> bytes \<times> bytes \<Rightarrow> svc_error + (de_val \<times> de_val)" where
  "deserialize_kv tk tv kv =
     try_bind (deserialize_key tk (fst kv)) (\<lambda>k.
     try_bind (deserialize_val tv (snd kv)) (\<lambda>v. Ok (k, v)))"

end
