(* ===== verification/Db_Serde_Props.thy ===== *)
theory Db_Serde_Props
  imports Db_Serde
begin

text \<open>
  Correctness of the key encoding: tuples of records come back from the bytes they were written to, a
  fixed-size buffer takes exactly what fits, and no byte string makes the deserialiser read out of
  bounds or run forever.
\<close>

section \<open>Strings have no separator\<close>

lemma utf8_cont_no_sep: "utf8_cont b \<Longrightarrow> b \<noteq> SEP"
  by (auto simp: utf8_cont_def SEP_def)

lemma valid_utf8_no_sep: "valid_utf8 bs \<Longrightarrow> SEP \<notin> set bs"
proof (induction bs rule: valid_utf8.induct)
  case (2 b bs)
  have "b \<noteq> SEP" if "b < 0x80 \<or> b \<le> 0xDF \<or> b \<le> 0xEF \<or> b \<le> 0xF4"
    using that by (auto simp: SEP_def)
  with 2 show ?case
    by (auto simp: split: if_splits list.splits dest: utf8_cont_no_sep)
qed simp

section \<open>Writing\<close>

text \<open>The bytes of a record, and of records with separators between them.\<close>

fun raw_bytes :: "de_val \<Rightarrow> bytes" where
  "raw_bytes (VStr s) = s"
| "raw_bytes (VBytes s) = s"
| "raw_bytes (VU64 n) = to_be_bytes n"
| "raw_bytes (VI64 n) = to_be_bytes n"
| "raw_bytes (VSome v) = raw_bytes v"
| "raw_bytes (VJson t) = t"
| "raw_bytes _ = []"

fun encode :: "de_val \<Rightarrow> ser_val" where
  "encode (VStr s) = SStr s"
| "encode (VBytes s) = SBytes s"
| "encode (VU64 n) = SU64 n"
| "encode (VI64 n) = SI64 n"
| "encode (VSome v) = SSome (encode v)"
| "encode (VJson t) = SNewtype ''Json'' (Some t)"
| "encode (VTuple vs) = STuple (map encode vs)"
| "encode _ = SNone"

definition sep_tail :: "bytes list \<Rightarrow> bytes" where
  "sep_tail rs = concat (map (\<lambda>r. SEP # r) rs)"

fun sep_join :: "bytes list \<Rightarrow> bytes" where
  "sep_join [] = []"
| "sep_join (r # rs) = r @ sep_tail rs"

lemma sep_tail_simps [simp]: "sep_tail [] = []" "sep_tail (r # rs) = SEP # r @ sep_tail rs"
  by (simp_all add: sep_tail_def)

fun flat :: "de_val \<Rightarrow> bool" where
  "flat (VTuple vs) = False"
| "flat (VSome v) = flat v"
| "flat _ = True"

lemma ser_value_flat:
  "flat v \<Longrightarrow> ser_cap s = None \<Longrightarrow> ser_value (encode v) s = Ok (s\<lparr>ser_out := ser_out s @ raw_bytes v\<rparr>)"
  by (induction v rule: encode.induct)
    (auto simp: ser_write_def serialize_newtype_struct_def)

lemma ser_records_started:
  "list_all flat vs \<Longrightarrow> ser_cap s = None \<Longrightarrow> ser_sep s \<Longrightarrow>
   ser_records (map encode vs) s = Ok (s\<lparr>ser_out := ser_out s @ sep_tail (map raw_bytes vs)\<rparr>)"
  by (induction vs arbitrary: s)
    (auto simp: ser_record_start_def separator_def ser_write_def ser_value_flat)

lemma serialize_key_flat:
  "list_all flat vs \<Longrightarrow> serialize_key (STuple (map encode vs)) = Ok (sep_join (map raw_bytes vs))"
  by (cases vs)
    (simp_all add: serialize_key_def serialize_to_def serialize_def ser_record_start_def ser_value_flat
      ser_records_started)

section \<open>Reading\<close>

text \<open>The values that a type reads back.\<close>

fun fits :: "de_field \<Rightarrow> de_val \<Rightarrow> bool" where
  "fits (DStr check) (VStr s) = (valid_utf8 s \<and> check s)"
| "fits (DString check) (VStr s) = (valid_utf8 s \<and> check s)"
| "fits DU64 (VU64 n) = True"
| "fits DI64 (VI64 n) = True"
| "fits (DOption f) VNone = True"
| "fits (DOption f) (VSome v) = (fits f v \<and> raw_bytes v \<noteq> [] \<and> hd (raw_bytes v) \<noteq> SEP)"
| "fits (DJson json) (VJson t) = (SEP \<notin> set t \<and> json t)"
| "fits _ _ = False"

lemma fits_flat: "fits f v \<Longrightarrow> flat v"
  by (induction f v rule: fits.induct) auto

definition at_record :: "deserializer \<Rightarrow> bytes \<Rightarrow> bytes \<Rightarrow> bool" where
  "at_record d r rest \<longleftrightarrow>
     de_pos d \<le> length (de_buf d) \<and> drop (de_pos d) (de_buf d) = r @ rest \<and> (rest = [] \<or> hd rest = SEP)"

lemma at_record_inc:
  "at_record d r rest \<Longrightarrow>
     de_pos (inc_pos (length r) d) \<le> length (de_buf d) \<and> drop (de_pos (inc_pos (length r) d)) (de_buf d) = rest"
proof -
  assume a: "at_record d r rest"
  then have "drop (length r) (drop (de_pos d) (de_buf d)) = rest"
    by (simp add: at_record_def)
  moreover have "length (r @ rest) = length (de_buf d) - de_pos d"
    using a by (metis at_record_def length_drop)
  ultimately show ?thesis using a by (auto simp: inc_pos_def at_record_def add.commute)
qed

lemma takeWhile_record:
  "SEP \<notin> set r \<Longrightarrow> rest = [] \<or> hd rest = SEP \<Longrightarrow> takeWhile (\<lambda>b. b \<noteq> SEP) (r @ rest) = r"
  by (cases rest; induction r) auto

lemma record_next_at:
  "at_record d r rest \<Longrightarrow> SEP \<notin> set r \<Longrightarrow> record_next d = Ok (r, inc_pos (length r) d)"
  by (simp add: record_next_def de_rest_def at_record_def takeWhile_record)

lemma de_eight_at:
  "at_record d r rest \<Longrightarrow> length r = 8 \<Longrightarrow> de_eight d = Ok (r, inc_pos 8 d)"
  by (simp add: de_eight_def de_rest_def at_record_def)

text \<open>The value that a type reads from a record of a tuple.\<close>

fun reads :: "de_field \<Rightarrow> bytes \<Rightarrow> de_val \<Rightarrow> bool" where
  "reads (DStr check) r v = (valid_utf8 r \<and> check r \<and> v = VStr r)"
| "reads (DString check) r v = (valid_utf8 r \<and> check r \<and> v = VStr r)"
| "reads DU64 r v = (length r = 8 \<and> v = VU64 (from_be_bytes r))"
| "reads DI64 r v = (length r = 8 \<and> v = VI64 (from_be_bytes r))"
| "reads DIgnore r v = (SEP \<notin> set r \<and> v = VUnit)"
| "reads (DOption f) r v =
     (if r = [] then v = VNone else hd r \<noteq> SEP \<and> (\<exists>v'. v = VSome v' \<and> reads f r v'))"
| "reads (DJson json) r v = (SEP \<notin> set r \<and> json r \<and> v = VJson r)"
| "reads _ r v = False"

lemma fits_reads: "fits f v \<Longrightarrow> reads f (raw_bytes v) v"
  by (induction f v rule: fits.induct) auto

lemma de_value_reads:
  "reads f r v \<Longrightarrow> at_record d r rest \<Longrightarrow> de_seq d \<Longrightarrow> de_value f d = Ok (v, inc_pos (length r) d)"
proof (induction f r v arbitrary: d rule: reads.induct)
  case (6 f r v d)
  show ?case
  proof (cases "r = []")
    case True
    then show ?thesis using 6 by (auto simp: at_record_def inc_pos_def hd_drop_conv_nth not_le)
  next
    case False
    from 6(3) have "drop (de_pos d) (de_buf d) = r @ rest" by (simp add: at_record_def)
    moreover from this have "de_pos d < length (de_buf d)"
      using False by (cases "de_pos d < length (de_buf d)") auto
    ultimately have "de_buf d ! de_pos d \<noteq> SEP" "\<not> length (de_buf d) \<le> de_pos d"
      using 6(2) False hd_drop_conv_nth [of "de_pos d" "de_buf d"] by auto
    with 6 False show ?thesis by auto
  qed
qed (auto simp: deserialize_str_def deserialize_string_def deserialize_struct_def visit_str_def str_from_bytes_def
      string_from_bytes_def record_ignore_def record_next_at de_eight_at valid_utf8_no_sep)

lemma next_element_reads:
  assumes "reads f r v" and "de_pos d < length (de_buf d)" and "de_seq d" and "at_record (de_record_start d) r rest"
  shows "next_element_seed f d = Ok (Some v, inc_pos (length r) (de_record_start d))"
proof -
  have "de_seq (de_record_start d)" using assms(3) by (simp add: de_record_start_def inc_pos_def inc_rec_def)
  then show ?thesis using assms de_value_reads [OF assms(1,4)] by (simp add: next_element_seed_def)
qed

text \<open>After the first record, every record follows a separator.\<close>

lemma sep_tail_start: "sep_tail rs = [] \<or> hd (sep_tail rs) = SEP"
  by (cases rs) auto

definition reads_all :: "de_field list \<Rightarrow> (bytes \<times> de_val) list \<Rightarrow> bool" where
  "reads_all fs ps \<longleftrightarrow> list_all2 (\<lambda>f p. reads f (fst p) (snd p)) fs ps"

lemma de_records_started:
  "list_all2 (\<lambda>f p. reads f (fst p) (snd p)) fs ps \<Longrightarrow> 0 < de_rec d \<Longrightarrow> de_pos d \<le> length (de_buf d) \<Longrightarrow> de_seq d
   \<Longrightarrow> drop (de_pos d) (de_buf d) = sep_tail (map fst ps)
   \<Longrightarrow> \<exists>d'. de_records fs d = Ok (map snd ps, d') \<and> de_pos d' = length (de_buf d') \<and> de_buf d' = de_buf d"
proof (induction fs ps arbitrary: d rule: list_all2_induct)
  case Nil
  then show ?case by simp
next
  case (Cons f fs p ps)
  let ?e = "de_record_start d" and ?r = "fst p"
  have lt: "de_pos d < length (de_buf d)" using Cons.prems by (cases "de_pos d < length (de_buf d)") auto
  have e: "de_pos ?e = Suc (de_pos d)" "de_buf ?e = de_buf d" "0 < de_rec ?e" "de_seq ?e"
    using Cons.prems by (simp_all add: de_record_start_def inc_pos_def inc_rec_def)
  have "drop (Suc (de_pos d)) (de_buf d) = tl (drop (de_pos d) (de_buf d))"
    by (simp add: drop_Suc tl_drop)
  then have "drop (de_pos ?e) (de_buf ?e) = ?r @ sep_tail (map fst ps)"
    using Cons.prems e by simp
  then have at: "at_record ?e ?r (sep_tail (map fst ps))"
    using lt e sep_tail_start by (auto simp: at_record_def)
  let ?d = "inc_pos (length ?r) ?e"
  have "de_buf ?d = de_buf d" "0 < de_rec ?d" "de_seq ?d" using e by (simp_all add: inc_pos_def)
  then obtain d' where "de_records fs ?d = Ok (map snd ps, d')" "de_pos d' = length (de_buf d')" "de_buf d' = de_buf d"
    using Cons.IH [of ?d] at_record_inc [OF at] e by auto
  then show ?case using next_element_reads [OF Cons.hyps(1) lt Cons.prems(3) at] by simp
qed

lemma de_records_join:
  assumes fs: "list_all2 (\<lambda>f p. reads f (fst p) (snd p)) fs ps" and ne: "sep_join (map fst ps) \<noteq> []"
    and d: "d = sequence_start (de_start (sep_join (map fst ps)))"
  shows "\<exists>d'. de_records fs d = Ok (map snd ps, d') \<and> de_pos d' = length (de_buf d')"
  using fs
proof cases
  case Nil
  then show ?thesis using ne by simp
next
  case (Cons f fs' p ps')
  let ?e = "de_record_start d" and ?r = "fst p"
  have lt: "de_pos d < length (de_buf d)" "de_seq d" using ne by (simp_all add: d de_start_def sequence_start_def)
  have e: "de_pos ?e = 0" "de_buf ?e = de_buf d" "0 < de_rec ?e" "de_seq ?e"
    by (simp_all add: d de_start_def sequence_start_def de_record_start_def inc_pos_def inc_rec_def)
  have at: "at_record ?e ?r (sep_tail (map fst ps'))"
    using e sep_tail_start by (auto simp: at_record_def d de_start_def sequence_start_def Cons)
  let ?d = "inc_pos (length ?r) ?e"
  have "de_buf ?d = de_buf d" "0 < de_rec ?d" "de_seq ?d" using e by (simp_all add: inc_pos_def)
  then obtain d' where "de_records fs' ?d = Ok (map snd ps', d')" "de_pos d' = length (de_buf d')"
    using de_records_started [of fs' ps' ?d] at_record_inc [OF at] e Cons by auto
  then show ?thesis using next_element_reads [OF _ lt at] Cons by auto
qed

lemma deserialize_records:
  assumes "reads_all fs ps" and "sep_join (map fst ps) \<noteq> []"
  shows "deserialize_key (DTuple fs) (sep_join (map fst ps)) = Ok (VTuple (map snd ps))"
  using de_records_join [OF assms(1) [unfolded reads_all_def] assms(2) refl]
  by (auto simp: deserialize_key_def from_slice_def)

section \<open>Fixed-size buffers\<close>

text \<open>
  A buffer of a fixed capacity takes the bytes that the growing buffer takes, as long as they fit, and
  refuses with an input/output error otherwise.
\<close>

definition capped :: "nat \<Rightarrow> serializer \<Rightarrow> svc_error + serializer" where
  "capped n s =
     (if length (ser_out s) \<le> n then Ok (s\<lparr>ser_cap := Some n\<rparr>) else Err (Io ''failed to write whole buffer''))"

definition bounded :: "nat \<Rightarrow> (serializer \<Rightarrow> svc_error + serializer) \<Rightarrow> bool" where
  "bounded n f \<longleftrightarrow>
     (\<forall>s s'. ser_cap s = None \<longrightarrow> length (ser_out s) \<le> n \<longrightarrow> f s = Ok s' \<longrightarrow>
        ser_cap s' = None \<and> length (ser_out s) \<le> length (ser_out s') \<and> f (s\<lparr>ser_cap := Some n\<rparr>) = capped n s')"

lemma boundedD:
  "bounded n f \<Longrightarrow> f s = Ok s' \<Longrightarrow> ser_cap s = None \<Longrightarrow> length (ser_out s) \<le> n
   \<Longrightarrow> f (s\<lparr>ser_cap := Some n\<rparr>) = capped n s'"
  unfolding bounded_def by blast

definition grows :: "(serializer \<Rightarrow> svc_error + serializer) \<Rightarrow> bool" where
  "grows f \<longleftrightarrow>
     (\<forall>s s'. ser_cap s = None \<longrightarrow> f s = Ok s' \<longrightarrow>
        ser_cap s' = None \<and> length (ser_out s) \<le> length (ser_out s'))"

lemma grows_bind: "grows f \<Longrightarrow> grows g \<Longrightarrow> grows (\<lambda>s. try_bind (f s) g)"
  unfolding grows_def try_bind_eq_Ok by (meson order_trans)

lemma bounded_bind:
  assumes f: "bounded n f" and g: "bounded n g" "grows g"
  shows "bounded n (\<lambda>s. try_bind (f s) g)"
  unfolding bounded_def
proof (intro allI impI)
  fix s s'
  assume s: "ser_cap s = None" "length (ser_out s) \<le> n" "try_bind (f s) g = Ok s'"
  then obtain t where t: "f s = Ok t" "g t = Ok s'" by (auto simp: try_bind_eq_Ok)
  have ft: "ser_cap t = None" "length (ser_out s) \<le> length (ser_out t)" "f (s\<lparr>ser_cap := Some n\<rparr>) = capped n t"
    using f s t(1) unfolding bounded_def by blast+
  have gt: "ser_cap s' = None" "length (ser_out t) \<le> length (ser_out s')"
    using g(2) ft(1) t(2) unfolding grows_def by blast+
  have "try_bind (capped n t) g = capped n s'"
  proof (cases "length (ser_out t) \<le> n")
    case True
    then have "g (t\<lparr>ser_cap := Some n\<rparr>) = capped n s'"
      using g(1) ft(1) t(2) unfolding bounded_def by blast
    then show ?thesis using True by (simp add: capped_def)
  next
    case False
    then show ?thesis using gt by (simp add: capped_def)
  qed
  then show "ser_cap s' = None \<and> length (ser_out s) \<le> length (ser_out s')
      \<and> try_bind (f (s\<lparr>ser_cap := Some n\<rparr>)) g = capped n s'"
    using ft gt by simp
qed

lemma ser_write_bounded: "bounded n (ser_write bs)" "grows (ser_write bs)"
  by (auto simp: bounded_def grows_def ser_write_def capped_def)

lemma ser_Ok_bounded: "bounded n Ok" "grows Ok"
  by (auto simp: bounded_def grows_def capped_def)

lemma ser_Err_bounded: "bounded n (\<lambda>s. Err e)" "grows (\<lambda>s. Err e)"
  by (auto simp: bounded_def grows_def)

lemma ser_record_start_bounded: "bounded n ser_record_start" "grows ser_record_start"
  by (auto simp: bounded_def grows_def ser_record_start_def separator_def ser_write_def capped_def)

lemma ser_directive_bounded:
  "bounded n (serialize_newtype_struct name txt)" "grows (serialize_newtype_struct name txt)"
  "bounded n (serialize_unit_struct name)" "grows (serialize_unit_struct name)"
  by (auto simp: bounded_def grows_def serialize_newtype_struct_def serialize_unit_struct_def separator_def
      ser_write_def capped_def split: option.splits if_splits)

lemmas ser_bounded = ser_write_bounded ser_Ok_bounded ser_Err_bounded ser_record_start_bounded ser_directive_bounded

lemma ser_value_eta:
  "ser_value (SStr v) = ser_write v"
  "ser_value (SBytes v) = ser_write v"
  "ser_value (SU8 b) = ser_write [b]"
  "ser_value (SU32 w) = ser_write (be_bytes 4 (unat w))"
  "ser_value (SU64 n) = ser_write (to_be_bytes n)"
  "ser_value (SI32 w) = ser_write (be_bytes 4 (unat w))"
  "ser_value (SI64 n) = ser_write (to_be_bytes n)"
  "ser_value SNone = Ok"
  "ser_value (SSome x) = ser_value x"
  "ser_value (SSeq vs) = ser_elements vs"
  "ser_value (STuple vs) = ser_records vs"
  "ser_value (STupleStruct vs) = ser_records vs"
  "ser_value (SNewtype name txt) = serialize_newtype_struct name txt"
  "ser_value (SUnitStruct name) = serialize_unit_struct name"
  "ser_value (SUnhandled msg) = (\<lambda>s. Err (Panicked msg))"
  "ser_elements [] = Ok"
  "ser_elements (x # xs) = (\<lambda>s. try_bind (ser_value x s) (ser_elements xs))"
  "ser_records [] = Ok"
  "ser_records (x # xs) =
     (\<lambda>s. try_bind (ser_record_start s) (\<lambda>s. try_bind (ser_value x s) (ser_records xs)))"
  by (simp_all add: fun_eq_iff)

lemma ser_list_grows:
  "(\<And>v. v \<in> set vs \<Longrightarrow> grows (ser_value v)) \<Longrightarrow> grows (ser_elements vs) \<and> grows (ser_records vs)"
  by (induction vs) (simp_all add: ser_value_eta ser_bounded grows_bind)

lemma ser_value_grows: "grows (ser_value v)"
  by (induction v) (simp_all add: ser_value_eta ser_bounded ser_list_grows)

lemma ser_list_bounded:
  "(\<And>v. v \<in> set vs \<Longrightarrow> bounded n (ser_value v)) \<Longrightarrow> bounded n (ser_elements vs) \<and> bounded n (ser_records vs)"
  by (induction vs)
    (simp_all add: ser_value_eta ser_bounded bounded_bind grows_bind ser_value_grows ser_list_grows)

lemma ser_value_bounded: "bounded n (ser_value v)"
  by (induction v) (simp_all add: ser_value_eta ser_bounded ser_list_bounded)

section \<open>Reading arbitrary bytes\<close>

fun unhandled :: "de_field \<Rightarrow> bool" where
  "unhandled (DUnhandled msg) = True"
| "unhandled (DOption f) = unhandled f"
| "unhandled _ = False"

fun unhandled_ty :: "de_ty \<Rightarrow> bool" where
  "unhandled_ty (DField f) = unhandled f"
| "unhandled_ty (DTuple fs) = list_ex unhandled fs"
| "unhandled_ty (DSeq f) = unhandled f"

fun reported :: "svc_error \<Rightarrow> bool" where
  "reported (Panicked msg) = False"
| "reported NoFuel = False"
| "reported _ = True"

definition in_bounds :: "deserializer \<Rightarrow> bool" where
  "in_bounds d \<longleftrightarrow> de_pos d \<le> length (de_buf d)"

definition advances :: "deserializer \<Rightarrow> deserializer \<Rightarrow> bool" where
  "advances d d' \<longleftrightarrow> de_buf d' = de_buf d \<and> de_pos d \<le> de_pos d' \<and> in_bounds d' \<and> de_rec d' = de_rec d"

lemma de_rest_in_bounds: "in_bounds d \<Longrightarrow> de_rest d = Ok (drop (de_pos d) (de_buf d))"
  by (simp add: de_rest_def in_bounds_def)

lemma advances_inc:
  "in_bounds d \<Longrightarrow> n \<le> length (de_buf d) - de_pos d \<Longrightarrow> advances d (inc_pos n d)"
  by (auto simp: advances_def in_bounds_def inc_pos_def)

lemma record_next_safe:
  assumes "in_bounds d"
  obtains r d' where "record_next d = Ok (r, d')" "advances d d'"
proof -
  have "length (takeWhile P (drop (de_pos d) (de_buf d))) \<le> length (de_buf d) - de_pos d" for P
    using length_takeWhile_le [of P "drop (de_pos d) (de_buf d)"] by simp
  with assms that show ?thesis
    by (auto simp: record_next_def de_rest_in_bounds Let_def advances_inc)
qed

lemma record_trail_safe:
  assumes "in_bounds d"
  obtains r d' where "record_trail d = Ok (r, d')" "advances d d'"
  using assms that by (auto simp: record_trail_def de_rest_in_bounds advances_inc)

definition safe_step :: "deserializer \<Rightarrow> svc_error + ('a \<times> deserializer) \<Rightarrow> bool" where
  "safe_step d r \<longleftrightarrow> (case r of Err e \<Rightarrow> reported e | Ok (_, d') \<Rightarrow> advances d d')"

lemma de_eight_safe: "in_bounds d \<Longrightarrow> safe_step d (de_eight d)"
  by (auto simp: de_eight_def de_rest_in_bounds safe_step_def intro: advances_inc)

lemma safe_step_bind:
  "safe_step d r \<Longrightarrow> (\<And>x d'. r = Ok (x, d') \<Longrightarrow> (\<exists>y. f (x, d') = Ok (y, d')) \<or> (\<exists>e. f (x, d') = Err e \<and> reported e))
   \<Longrightarrow> safe_step d (try_bind r f)"
  by (cases r) (fastforce simp: safe_step_def)+

lemma de_value_safe:
  assumes d: "in_bounds d" and f: "\<not> unhandled f"
  shows "safe_step d (de_value f d)"
proof -
  obtain r d1 where next1: "record_next d = Ok (r, d1)" "advances d d1" by (rule record_next_safe [OF d])
  obtain t d2 where trail: "record_trail d = Ok (t, d2)" "advances d d2" by (rule record_trail_safe [OF d])
  have here: "advances d d" using d by (simp add: advances_def)
  note reads = deserialize_str_def deserialize_string_def deserialize_struct_def str_from_bytes_def
    string_from_bytes_def visit_str_def record_ignore_def record_ignore_all_def
  show ?thesis
    using f
  proof (induction f)
    case (DOption f)
    then show ?case
      using here by (auto simp: safe_step_def [of d "Ok x" for x] intro!: safe_step_bind)
  next
    case DU64
    show ?case using de_eight_safe [OF d] by (auto intro!: safe_step_bind)
  next
    case DI64
    show ?case using de_eight_safe [OF d] by (auto intro!: safe_step_bind)
  qed (auto simp: reads next1 trail safe_step_def)
qed

lemma next_element_safe:
  assumes d: "in_bounds d" and f: "\<not> unhandled f"
  obtains (no_more) "next_element_seed f d = Ok (None, d)"
  | (some) v d' where "next_element_seed f d = Ok (Some v, d')" "in_bounds d'" "de_buf d' = de_buf d"
      "0 < de_rec d'" "de_pos d \<le> de_pos d'" "de_rec d = 0 \<or> de_pos d < de_pos d'"
  | (error) e where "next_element_seed f d = Err e" "reported e"
proof (cases "length (de_buf d) \<le> de_pos d")
  case True
  then show ?thesis using that(1) by (simp add: next_element_seed_def)
next
  case False
  let ?e = "de_record_start d"
  have e: "in_bounds ?e" "de_buf ?e = de_buf d" "0 < de_rec ?e" "de_pos d \<le> de_pos ?e"
      "de_rec d = 0 \<or> de_pos d < de_pos ?e"
    using False by (auto simp: de_record_start_def inc_pos_def inc_rec_def in_bounds_def)
  have safe: "safe_step ?e (de_value f ?e)" using e(1) f by (rule de_value_safe)
  show ?thesis
  proof (cases "de_value f ?e")
    case (Inl x)
    then show ?thesis using that(3) safe False by (auto simp: next_element_seed_def safe_step_def)
  next
    case (Inr r)
    obtain v d' where r: "r = (v, d')" by (cases r)
    have "advances ?e d'" using safe Inr r by (simp add: safe_step_def)
    then show ?thesis
      using that(2) [of v d'] Inr r e False by (auto simp: next_element_seed_def advances_def)
  qed
qed

lemma de_records_safe:
  "in_bounds d \<Longrightarrow> \<not> list_ex unhandled fs \<Longrightarrow> de_records fs d = Err e \<Longrightarrow> reported e"
proof (induction fs arbitrary: d)
  case (Cons f fs)
  from Cons.prems have f: "\<not> unhandled f" "\<not> list_ex unhandled fs" by simp_all
  show ?case
    using Cons.prems(1) f(1)
  proof (cases rule: next_element_safe)
    case (some v d')
    then show ?thesis using Cons.IH [of d'] Cons.prems(3) f(2) by (auto simp: result_iff)
  qed (use Cons.prems in auto)
qed simp

text \<open>The loop over a vector: a bound on the elements that are left.\<close>

lemma de_elements_safe:
  "in_bounds d \<Longrightarrow> \<not> unhandled f \<Longrightarrow>
   (length (de_buf d) - de_pos d) + (if 0 < de_rec d then 0 else 1) < n
   \<Longrightarrow> de_elements n f d = Err e \<Longrightarrow> reported e"
proof (induction n arbitrary: d)
  case (Suc n)
  show ?case
    using Suc.prems(1,2)
  proof (cases rule: next_element_safe)
    case (some v d')
    have "de_pos d' \<le> length (de_buf d')" using some(2) by (simp add: in_bounds_def)
    then have "(length (de_buf d') - de_pos d') + (if 0 < de_rec d' then 0 else 1) < n"
      using Suc.prems(3) some(3-6) by (cases "0 < de_rec d") auto
    then show ?thesis using Suc.IH [of d'] Suc.prems(2,4) some by (auto simp: result_iff)
  qed (use Suc.prems in auto)
qed simp

section \<open>Correctness\<close>

text \<open>
  C32: Round trip of structured keys. A tuple of strings, integers, options and JSON texts, written by
  the serialiser, is read back as the same tuple by the deserialiser asked for the types of its records,
  and nothing is left over. The strings are UTF-8 and pass the check of their type; an option that is
  present has a non-empty record that does not begin with the separator byte; and the key is not empty
  (a single empty record could not be told from no record).
\<close>

theorem key_roundtrip:
  assumes "list_all2 fits fs vs" and "sep_join (map raw_bytes vs) \<noteq> []"
  shows "\<exists>buf d. serialize_key (STuple (map encode vs)) = Ok buf
           \<and> de_type (DTuple fs) (de_start buf) = Ok (VTuple vs, d) \<and> finished d = Ok ()
           \<and> deserialize_key (DTuple fs) buf = Ok (VTuple vs)"
proof -
  have "list_all flat vs"
    using assms(1) by (auto simp: list_all2_conv_all_nth list_all_length intro: fits_flat)
  then have "serialize_key (STuple (map encode vs)) = Ok (sep_join (map raw_bytes vs))"
    by (rule serialize_key_flat)
  moreover have "list_all2 (\<lambda>f p. reads f (fst p) (snd p)) fs (map (\<lambda>v. (raw_bytes v, v)) vs)"
    using assms(1) by (auto simp: list_all2_conv_all_nth intro: fits_reads)
  then obtain d where "de_records fs (sequence_start (de_start (sep_join (map raw_bytes vs)))) = Ok (vs, d)"
      "de_pos d = length (de_buf d)"
    using de_records_join [of fs "map (\<lambda>v. (raw_bytes v, v)) vs"] assms(2) by (auto simp: comp_def)
  ultimately show ?thesis
    by (simp add: finished_def de_rest_def remaining_def deserialize_key_def from_slice_def)
qed

theorem key_roundtrip_witness:
  "\<exists>buf d. serialize_key (STuple [SStr [0x40, 0x61], SNone, SU64 255]) = Ok buf
     \<and> de_type (DTuple [DStr (\<lambda>s. s \<noteq> []), DOption DU64, DU64]) (de_start buf)
         = Ok (VTuple [VStr [0x40, 0x61], VNone, VU64 255], d)
     \<and> finished d = Ok ()
     \<and> deserialize_key (DTuple [DStr (\<lambda>s. s \<noteq> []), DOption DU64, DU64]) buf
         = Ok (VTuple [VStr [0x40, 0x61], VNone, VU64 255])"
  using key_roundtrip [of "[DStr (\<lambda>s. s \<noteq> []), DOption DU64, DU64]" "[VStr [0x40, 0x61], VNone, VU64 255]"]
  by simp

text \<open>
  C36: Bounds of stack buffers. Whatever a value serialises to in a growing buffer, a stack buffer of
  \<open>n\<close> bytes receives exactly those bytes when they are at most \<open>n\<close>, and otherwise serialisation reports
  an error; it never writes a truncated key.
\<close>

theorem stack_buffer_bounds:
  assumes "serialize_to None v = Ok bs"
  shows "serialize_to (Some n) v = (if length bs \<le> n then Ok bs else Err (SerdeSer ''serialize''))"
proof -
  let ?s = "\<lparr>ser_out = [], ser_cap = None, ser_sep = False\<rparr>"
  obtain s where s: "ser_value v ?s = Ok s" "ser_out s = bs"
    using assms by (auto simp: serialize_to_def serialize_def split: sum.splits svc_error.splits)
  have "ser_value v (?s\<lparr>ser_cap := Some n\<rparr>) = capped n s"
    by (rule boundedD [OF ser_value_bounded s(1)]) simp_all
  then show ?thesis using s(2) by (simp add: serialize_to_def serialize_def capped_def)
qed

theorem stack_buffer_bounds_witness:
  "serialize_to (Some 8) (SU64 7) = Ok (to_be_bytes 7)
   \<and> serialize_to (Some 7) (SU64 7) = Err (SerdeSer ''serialize'')"
  using stack_buffer_bounds [of "SU64 7" "to_be_bytes 7" 8] stack_buffer_bounds [of "SU64 7" "to_be_bytes 7" 7]
  by (simp add: serialize_to_def serialize_def ser_write_def)

text \<open>
  C35: Reading arbitrary bytes is safe. For every byte string and every type that the deserialiser
  implements, deserialisation returns a value or reports an error: no slice is taken out of range, and
  the loop over the elements of a vector ends.
\<close>

theorem from_slice_total:
  assumes "\<not> unhandled_ty t" and "from_slice t buf = Err e"
  shows "reported e"
proof -
  have start: "in_bounds (de_start buf)" "in_bounds (sequence_start (de_start buf))"
    by (simp_all add: in_bounds_def de_start_def sequence_start_def)
  have err: "de_type t (de_start buf) = Err e"
    using assms(2) by (auto simp: from_slice_def result_iff)
  show ?thesis
  proof (cases t)
    case (DField f)
    then show ?thesis
      using err assms(1) de_value_safe [OF start(1), of f] by (simp add: safe_step_def)
  next
    case (DTuple fs)
    then show ?thesis using err assms(1) de_records_safe [OF start(2), of fs] by (auto simp: result_iff)
  next
    case (DSeq f)
    then show ?thesis
      using err assms(1) de_elements_safe [OF start(2), of f "length buf + 2"]
      by (auto simp: result_iff de_start_def sequence_start_def)
  qed
qed

theorem from_slice_total_witness:
  "from_slice (DTuple [DStr (\<lambda>_. True), DU64]) [0x61, 0xFF, 0x01] = Err (SerdeDe ''buffer underflow'')
   \<and> reported (SerdeDe ''buffer underflow'')"
proof -
  have "from_slice (DTuple [DStr (\<lambda>_. True), DU64]) [0x61, 0xFF, 0x01] = Err (SerdeDe ''buffer underflow'')"
    by code_simp
  then show ?thesis
    using from_slice_total [of "DTuple [DStr (\<lambda>_. True), DU64]" "[0x61, 0xFF, 0x01]"] by simp
qed

end
