(* ===== verification/Db_Map.thy ===== *)
theory Db_Map
  imports Db_Serde_Props
begin

text \<open>
  \<open>database/map.rs\<close>, \<open>database/map/*.rs\<close> and \<open>database/watchers.rs\<close>: a table of the database. A column
  family of RocksDB is an association list; its iterators go through the entries in the order of the
  key bytes, forwards from the first key that is at least the one sought, backwards from the last key
  that is at most it. The read cache and the thread pool only change when an answer comes, not the
  answer, and errors of the disk are not modelled. Watchers are futures on a key prefix that an
  insertion completes; their locks make three kinds of atomic steps.
\<close>

section \<open>Watchers\<close>

text \<open>
  A watch channel is a number. \<open>watch_changed\<close> are the channels something was sent on, and \<open>watch_pending\<close>
  the wakers between the read lock and the write lock, each with the prefixes it found.
\<close>

record watchers =
  watch_map :: "(bytes \<times> nat) list"
  watch_next :: nat
  watch_changed :: "nat list"
  watch_pending :: "(nat \<times> bytes list) list"

definition watch :: "bytes \<Rightarrow> watchers \<Rightarrow> nat \<times> watchers" where
  "watch pre w =
     (case map_of (watch_map w) pre of
        Some c \<Rightarrow> (c, w)
      | None \<Rightarrow> (watch_next w, w\<lparr>watch_map := AList.update pre (watch_next w) (watch_map w),
                               watch_next := watch_next w + 1\<rparr>))"

definition triggered :: "bytes \<Rightarrow> watchers \<Rightarrow> bytes list" where
  "triggered key w =
     filter (\<lambda>pre. map_of (watch_map w) pre \<noteq> None) (map (\<lambda>n. take n key) [0..<Suc (length key)])"

definition wake_one :: "bytes \<Rightarrow> watchers \<Rightarrow> watchers" where
  "wake_one pre w =
     (case map_of (watch_map w) pre of
        Some c \<Rightarrow> w\<lparr>watch_map := AList.delete pre (watch_map w), watch_changed := c # watch_changed w\<rparr>
      | None \<Rightarrow> w)"

definition wake :: "bytes \<Rightarrow> watchers \<Rightarrow> watchers" where
  "wake key w = fold wake_one (triggered key w) w"

text \<open>The two halves of \<open>wake\<close>, for wakers that run at the same time.\<close>

definition wake_read :: "nat \<Rightarrow> bytes \<Rightarrow> watchers \<Rightarrow> watchers" where
  "wake_read i key w = w\<lparr>watch_pending := AList.update i (triggered key w) (watch_pending w)\<rparr>"

definition wake_write :: "nat \<Rightarrow> watchers \<Rightarrow> watchers" where
  "wake_write i w =
     (case map_of (watch_pending w) i of
        Some ps \<Rightarrow> (fold wake_one ps w)\<lparr>watch_pending := AList.delete i (watch_pending w)\<rparr>
      | None \<Rightarrow> w)"

inductive watch_step :: "watchers \<Rightarrow> watchers \<Rightarrow> bool" where
  step_watch: "watch_step w (snd (watch pre w))"
| step_read: "map_of (watch_pending w) i = None \<Longrightarrow> watch_step w (wake_read i key w)"
| step_write: "map_of (watch_pending w) i = Some ps \<Longrightarrow> watch_step w (wake_write i w)"

inductive_cases watch_stepE: "watch_step w w'"

section \<open>Tables\<close>

record db_map =
  cf :: "(bytes \<times> bytes) list"
  map_watchers :: watchers

definition Map_open :: "(bytes \<times> bytes) list \<Rightarrow> db_map" where
  "Map_open entries =
     \<lparr>cf = entries, map_watchers = \<lparr>watch_map = [], watch_next = 0, watch_changed = [], watch_pending = []\<rparr>\<rparr>"

text \<open>\<open>.expect(\<dots>)\<close>: an error becomes a panic.\<close>

definition expect :: "string \<Rightarrow> svc_error + 'a \<Rightarrow> svc_error + 'a" where
  "expect msg r = (case r of Ok x \<Rightarrow> Ok x | Err _ \<Rightarrow> Err (Panicked msg))"

definition Map_watch_prefix :: "bytes \<Rightarrow> db_map \<Rightarrow> nat \<times> db_map" where
  "Map_watch_prefix pre m = (let (c, w) = watch pre (map_watchers m) in (c, m\<lparr>map_watchers := w\<rparr>))"

subsection \<open>Reading\<close>

definition handle_from :: "bytes option \<Rightarrow> svc_error + bytes" where
  "handle_from r = ok_or r (MissingItem ''Not found in database'')"

definition Map_get :: "db_map \<Rightarrow> bytes \<Rightarrow> svc_error + bytes" where
  "Map_get m key = handle_from (map_of (cf m) key)"

definition Map_bqry :: "nat option \<Rightarrow> db_map \<Rightarrow> ser_val \<Rightarrow> svc_error + bytes" where
  "Map_bqry cap m key =
     try_bind (expect ''failed to serialize query key'' (serialize cap [] key)) (Map_get m)"

definition Map_qry :: "db_map \<Rightarrow> ser_val \<Rightarrow> svc_error + bytes" where
  "Map_qry m key = Map_bqry None m key"

definition Map_aqry :: "nat \<Rightarrow> db_map \<Rightarrow> ser_val \<Rightarrow> svc_error + bytes" where
  "Map_aqry KMAX m key = Map_bqry (Some KMAX) m key"

definition Map_exists :: "db_map \<Rightarrow> bytes \<Rightarrow> svc_error + unit" where
  "Map_exists m key = try_bind (Map_get m key) (\<lambda>_. Ok ())"

definition is_ok :: "svc_error + 'a \<Rightarrow> bool" where
  "is_ok r = (case r of Ok _ \<Rightarrow> True | Err _ \<Rightarrow> False)"

definition Map_bcontains :: "nat option \<Rightarrow> db_map \<Rightarrow> ser_val \<Rightarrow> svc_error + bool" where
  "Map_bcontains cap m key =
     try_bind (expect ''failed to serialize query key'' (serialize cap [] key)) (\<lambda>k. Ok (is_ok (Map_exists m k)))"

definition Map_contains :: "db_map \<Rightarrow> ser_val \<Rightarrow> svc_error + bool" where
  "Map_contains m key = Map_bcontains None m key"

definition Map_acontains :: "nat \<Rightarrow> db_map \<Rightarrow> ser_val \<Rightarrow> svc_error + bool" where
  "Map_acontains KMAX m key = Map_bcontains (Some KMAX) m key"

definition Map_get_batch :: "db_map \<Rightarrow> bytes list \<Rightarrow> (svc_error + bytes) list" where
  "Map_get_batch m ks = map (Map_get m) ks"

fun serialize_keys :: "ser_val list \<Rightarrow> svc_error + bytes list" where
  "serialize_keys [] = Ok []"
| "serialize_keys (k # ks) =
     try_bind (expect ''failed to serialize query key'' (serialize_to None k)) (\<lambda>b.
     try_bind (serialize_keys ks) (\<lambda>bs. Ok (b # bs)))"

definition Map_qry_batch :: "db_map \<Rightarrow> ser_val list \<Rightarrow> svc_error + (svc_error + bytes) list" where
  "Map_qry_batch m ks = try_bind (serialize_keys ks) (\<lambda>bs. Ok (Map_get_batch m bs))"

subsection \<open>Writing\<close>

definition Map_insert :: "bytes \<Rightarrow> bytes \<Rightarrow> db_map \<Rightarrow> db_map" where
  "Map_insert key val m =
     m\<lparr>cf := AList.update key val (cf m), map_watchers := wake key (map_watchers m)\<rparr>"

definition Map_insert_batch :: "(bytes \<times> bytes) list \<Rightarrow> db_map \<Rightarrow> db_map" where
  "Map_insert_batch items m = m\<lparr>cf := fold (\<lambda>(key, val). AList.update key val) items (cf m)\<rparr>"

definition Map_bput_raw :: "nat option \<Rightarrow> ser_val \<Rightarrow> bytes \<Rightarrow> db_map \<Rightarrow> svc_error + db_map" where
  "Map_bput_raw cap key val m =
     try_bind (expect ''failed to serialize insertion key'' (serialize cap [] key)) (\<lambda>key.
       Ok (Map_insert key val m))"

definition Map_raw_bput :: "nat option \<Rightarrow> bytes \<Rightarrow> ser_val \<Rightarrow> db_map \<Rightarrow> svc_error + db_map" where
  "Map_raw_bput cap key val m =
     try_bind (expect ''failed to serialize insertion val'' (serialize cap [] val)) (\<lambda>val.
       Ok (Map_insert key val m))"

definition Map_bput :: "nat option \<Rightarrow> nat option \<Rightarrow> ser_val \<Rightarrow> ser_val \<Rightarrow> db_map \<Rightarrow> svc_error + db_map" where
  "Map_bput kcap vcap key val m =
     try_bind (expect ''failed to serialize insertion val'' (serialize vcap [] val)) (\<lambda>val.
       Map_bput_raw kcap key val m)"

definition Map_put :: "ser_val \<Rightarrow> ser_val \<Rightarrow> db_map \<Rightarrow> svc_error + db_map" where
  "Map_put key val m = Map_bput None None key val m"

definition Map_put_raw :: "ser_val \<Rightarrow> bytes \<Rightarrow> db_map \<Rightarrow> svc_error + db_map" where
  "Map_put_raw key val m = Map_bput_raw None key val m"

definition Map_raw_put :: "bytes \<Rightarrow> ser_val \<Rightarrow> db_map \<Rightarrow> svc_error + db_map" where
  "Map_raw_put key val m = Map_raw_bput None key val m"

definition Map_put_aput :: "nat \<Rightarrow> ser_val \<Rightarrow> ser_val \<Rightarrow> db_map \<Rightarrow> svc_error + db_map" where
  "Map_put_aput VMAX key val m = Map_bput None (Some VMAX) key val m"

definition Map_aput_put :: "nat \<Rightarrow> ser_val \<Rightarrow> ser_val \<Rightarrow> db_map \<Rightarrow> svc_error + db_map" where
  "Map_aput_put KMAX key val m = Map_bput (Some KMAX) None key val m"

definition Map_aput :: "nat \<Rightarrow> nat \<Rightarrow> ser_val \<Rightarrow> ser_val \<Rightarrow> db_map \<Rightarrow> svc_error + db_map" where
  "Map_aput KMAX VMAX key val m = Map_bput (Some KMAX) (Some VMAX) key val m"

definition Map_aput_raw :: "nat \<Rightarrow> ser_val \<Rightarrow> bytes \<Rightarrow> db_map \<Rightarrow> svc_error + db_map" where
  "Map_aput_raw KMAX key val m = Map_bput_raw (Some KMAX) key val m"

definition Map_raw_aput :: "nat \<Rightarrow> bytes \<Rightarrow> ser_val \<Rightarrow> db_map \<Rightarrow> svc_error + db_map" where
  "Map_raw_aput VMAX key val m = Map_raw_bput (Some VMAX) key val m"

definition Map_remove :: "bytes \<Rightarrow> db_map \<Rightarrow> db_map" where
  "Map_remove key m = m\<lparr>cf := AList.delete key (cf m)\<rparr>"

definition Map_bdel :: "nat option \<Rightarrow> ser_val \<Rightarrow> db_map \<Rightarrow> svc_error + db_map" where
  "Map_bdel cap key m =
     try_bind (expect ''failed to serialize deletion key'' (serialize cap [] key)) (\<lambda>key. Ok (Map_remove key m))"

definition Map_del :: "ser_val \<Rightarrow> db_map \<Rightarrow> svc_error + db_map" where
  "Map_del key m = Map_bdel None key m"

definition Map_adel :: "nat \<Rightarrow> ser_val \<Rightarrow> db_map \<Rightarrow> svc_error + db_map" where
  "Map_adel KMAX key m = Map_bdel (Some KMAX) key m"

subsection \<open>Iterating\<close>

definition Map_raw_stream :: "db_map \<Rightarrow> (bytes \<times> bytes) list" where
  "Map_raw_stream m = sort_key fst (cf m)"

definition Map_raw_stream_from :: "bytes \<Rightarrow> db_map \<Rightarrow> (bytes \<times> bytes) list" where
  "Map_raw_stream_from from m = filter (\<lambda>kv. from \<le> fst kv) (Map_raw_stream m)"

definition Map_rev_raw_stream :: "db_map \<Rightarrow> (bytes \<times> bytes) list" where
  "Map_rev_raw_stream m = rev (Map_raw_stream m)"

definition Map_rev_raw_stream_from :: "bytes \<Rightarrow> db_map \<Rightarrow> (bytes \<times> bytes) list" where
  "Map_rev_raw_stream_from from m = filter (\<lambda>kv. fst kv \<le> from) (Map_rev_raw_stream m)"

definition Map_raw_stream_prefix :: "bytes \<Rightarrow> db_map \<Rightarrow> (bytes \<times> bytes) list" where
  "Map_raw_stream_prefix pre m = takeWhile (\<lambda>kv. starts_with (fst kv) pre) (Map_raw_stream_from pre m)"

definition Map_rev_raw_stream_prefix :: "bytes \<Rightarrow> db_map \<Rightarrow> (bytes \<times> bytes) list" where
  "Map_rev_raw_stream_prefix pre m =
     takeWhile (\<lambda>kv. starts_with (fst kv) pre) (Map_rev_raw_stream_from pre m)"

definition Map_stream_prefix_raw :: "ser_val \<Rightarrow> db_map \<Rightarrow> svc_error + (bytes \<times> bytes) list" where
  "Map_stream_prefix_raw pre m =
     try_bind (expect ''failed to serialize query key'' (serialize_key pre)) (\<lambda>key.
       Ok (takeWhile (\<lambda>kv. starts_with (fst kv) key) (Map_raw_stream_from key m)))"

definition Map_stream_prefix ::
    "de_ty \<Rightarrow> de_ty \<Rightarrow> ser_val \<Rightarrow> db_map \<Rightarrow> svc_error + (svc_error + (de_val \<times> de_val)) list" where
  "Map_stream_prefix tk tv pre m =
     try_bind (Map_stream_prefix_raw pre m) (\<lambda>kvs. Ok (map (deserialize_kv tk tv) kvs))"

definition Map_stream_raw_prefix ::
    "de_ty \<Rightarrow> de_ty \<Rightarrow> bytes \<Rightarrow> db_map \<Rightarrow> (svc_error + (de_val \<times> de_val)) list" where
  "Map_stream_raw_prefix tk tv pre m = map (deserialize_kv tk tv) (Map_raw_stream_prefix pre m)"

definition Map_stream_from_raw :: "ser_val \<Rightarrow> db_map \<Rightarrow> svc_error + (bytes \<times> bytes) list" where
  "Map_stream_from_raw from m =
     try_bind (expect ''failed to serialize query key'' (serialize_key from)) (\<lambda>key. Ok (Map_raw_stream_from key m))"

definition Map_stream_from ::
    "de_ty \<Rightarrow> de_ty \<Rightarrow> ser_val \<Rightarrow> db_map \<Rightarrow> svc_error + (svc_error + (de_val \<times> de_val)) list" where
  "Map_stream_from tk tv from m =
     try_bind (Map_stream_from_raw from m) (\<lambda>kvs. Ok (map (deserialize_kv tk tv) kvs))"

text \<open>The streams of keys follow the same cursor.\<close>

definition Map_raw_keys :: "db_map \<Rightarrow> bytes list" where
  "Map_raw_keys m = map fst (Map_raw_stream m)"

definition Map_raw_keys_from :: "bytes \<Rightarrow> db_map \<Rightarrow> bytes list" where
  "Map_raw_keys_from from m = map fst (Map_raw_stream_from from m)"

definition Map_raw_keys_prefix :: "bytes \<Rightarrow> db_map \<Rightarrow> bytes list" where
  "Map_raw_keys_prefix pre m = takeWhile (\<lambda>k. starts_with k pre) (Map_raw_keys_from pre m)"

definition Map_keys_raw_prefix :: "de_ty \<Rightarrow> bytes \<Rightarrow> db_map \<Rightarrow> (svc_error + de_val) list" where
  "Map_keys_raw_prefix t pre m = map (deserialize_key t) (Map_raw_keys_prefix pre m)"

definition Map_keys_prefix_raw :: "ser_val \<Rightarrow> db_map \<Rightarrow> svc_error + bytes list" where
  "Map_keys_prefix_raw pre m =
     try_bind (expect ''failed to serialize query key'' (serialize_key pre)) (\<lambda>key.
       Ok (takeWhile (\<lambda>k. starts_with k key) (Map_raw_keys_from key m)))"

definition Map_keys_prefix :: "de_ty \<Rightarrow> ser_val \<Rightarrow> db_map \<Rightarrow> svc_error + (svc_error + de_val) list" where
  "Map_keys_prefix t pre m = try_bind (Map_keys_prefix_raw pre m) (\<lambda>ks. Ok (map (deserialize_key t) ks))"

definition Map_count :: "db_map \<Rightarrow> nat" where
  "Map_count m = length (Map_raw_keys m)"

definition Map_raw_count_from :: "bytes \<Rightarrow> db_map \<Rightarrow> nat" where
  "Map_raw_count_from from m = length (Map_raw_keys_from from m)"

definition Map_raw_count_prefix :: "bytes \<Rightarrow> db_map \<Rightarrow> nat" where
  "Map_raw_count_prefix pre m = length (Map_raw_keys_prefix pre m)"

definition Map_count_prefix :: "ser_val \<Rightarrow> db_map \<Rightarrow> svc_error + nat" where
  "Map_count_prefix pre m = try_bind (Map_keys_prefix_raw pre m) (\<lambda>ks. Ok (length ks))"

text \<open>\<open>ignore_err\<close>, and \<open>clear\<close>, which removes the keys of a snapshot.\<close>

definition ignore_err :: "(svc_error + 'a) list \<Rightarrow> 'a list" where
  "ignore_err rs = List.map_filter (\<lambda>r. case r of Ok x \<Rightarrow> Some x | Err _ \<Rightarrow> None) rs"

definition Map_clear :: "db_map \<Rightarrow> db_map" where
  "Map_clear m = fold Map_remove (Map_raw_keys m) m"

end
