(* ===== verification/Db_Map_Props.thy ===== *)
theory Db_Map_Props
  imports Db_Map
begin

text \<open>
  Laws of the tables: look-ups after writes, scans of a prefix, tables whose keys are pairs (the
  interface \<open>pair_table\<close> that the services use), and that no waker is lost.
\<close>

section \<open>Look-ups and scans\<close>

definition wf_map :: "db_map \<Rightarrow> bool" where
  "wf_map m \<longleftrightarrow> distinct (map fst (cf m))"

lemma wf_map_open [simp]: "wf_map (Map_open []) " "cf (Map_open es) = es"
  by (simp_all add: wf_map_def Map_open_def)

lemma wf_map_insert [simp]: "wf_map m \<Longrightarrow> wf_map (Map_insert key v m)"
  by (simp add: wf_map_def Map_insert_def AList.distinct_update)

lemma wf_map_remove [simp]: "wf_map m \<Longrightarrow> wf_map (Map_remove key m)"
  by (simp add: wf_map_def Map_remove_def AList.distinct_delete)

lemma Map_lookup [simp]:
  "map_of (cf (Map_insert key v m)) = (map_of (cf m))(key \<mapsto> v)"
  "map_of (cf (Map_remove key m)) = (map_of (cf m))(key := None)"
  by (simp_all add: Map_insert_def Map_remove_def table_simps)

lemma Map_get_Ok [result_iff]: "Map_get m key = Ok v \<longleftrightarrow> map_of (cf m) key = Some v"
  by (simp add: Map_get_def handle_from_def result_iff)

lemma is_ok_iff: "is_ok r \<longleftrightarrow> (\<exists>x. r = Ok x)"
  by (cases r) (simp_all add: is_ok_def)

lemma sorted_stream [simp]: "sorted (map fst (Map_raw_stream m))" "set (Map_raw_stream m) = set (cf m)"
  by (simp_all add: Map_raw_stream_def)

lemma raw_stream_prefix:
  "Map_raw_stream_prefix pre m = filter (\<lambda>kv. starts_with (fst kv) pre) (Map_raw_stream m)"
proof -
  have "sorted (map fst (Map_raw_stream_from pre m))"
    by (simp add: Map_raw_stream_from_def sorted_filter)
  then have "Map_raw_stream_prefix pre m = filter (\<lambda>kv. starts_with (fst kv) pre) (Map_raw_stream_from pre m)"
    unfolding Map_raw_stream_prefix_def
    by (rule takeWhile_sorted) (auto simp: Map_raw_stream_from_def intro: starts_with_between)
  also have "\<dots> = filter (\<lambda>kv. starts_with (fst kv) pre) (Map_raw_stream m)"
    unfolding Map_raw_stream_from_def filter_filter
    by (rule filter_cong) (auto dest: starts_with_le)
  finally show ?thesis .
qed

lemma takeWhile_map_fst: "takeWhile P (map fst xs) = map fst (takeWhile (\<lambda>kv. P (fst kv)) xs)"
  by (simp add: takeWhile_map comp_def)

lemma raw_keys_prefix: "Map_raw_keys_prefix pre m = map fst (Map_raw_stream_prefix pre m)"
  by (simp add: Map_raw_keys_prefix_def Map_raw_keys_from_def Map_raw_stream_prefix_def takeWhile_map_fst)

text \<open>
  A reverse scan of a prefix starts at the last key that is at most the prefix, and so never meets the
  longer keys that have it.
\<close>

lemma takeWhile_first:
  assumes "sorted (map f xs)" and "distinct (map f xs)" and "\<And>x. x \<in> set xs \<Longrightarrow> f x \<le> p"
  shows "takeWhile (\<lambda>x. f x = p) (rev xs) = filter (\<lambda>x. f x = p) xs"
  using assms
proof (induction xs rule: rev_induct)
  case (snoc x xs)
  have "f y \<noteq> p" if "y \<in> set xs" for y
    using snoc.prems that by (fastforce simp: sorted_append)
  then show ?case using snoc by (auto simp: filter_empty_conv takeWhile_eq_Nil_iff hd_rev)
qed simp

lemma distinct_raw_stream: "distinct (map fst (Map_raw_stream m)) \<longleftrightarrow> wf_map m"
  unfolding Map_raw_stream_def wf_map_def by (rule mset_eq_imp_distinct_iff) simp

lemma map_of_raw_stream: "wf_map m \<Longrightarrow> map_of (Map_raw_stream m) = map_of (cf m)"
  using map_of_inject_set [of "Map_raw_stream m" "cf m"] by (simp add: distinct_raw_stream wf_map_def)

lemma filter_fst_eq:
  "distinct (map fst xs) \<Longrightarrow>
   filter (\<lambda>kv. fst kv = k) xs = (case map_of xs k of Some v \<Rightarrow> [(k, v)] | None \<Rightarrow> [])"
proof (induction xs)
  case (Cons x xs)
  then have "map_of xs (fst x) = None" by (simp add: map_of_eq_None_iff)
  with Cons show ?case by (cases x) auto
qed simp

lemma starts_with_self: "k \<le> pre \<Longrightarrow> starts_with k pre \<longleftrightarrow> k = pre"
  using starts_with_le [of k pre] by (auto simp: starts_with_iff)

lemma rev_prefix_only_itself:
  assumes "wf_map m"
  shows "Map_rev_raw_stream_prefix pre m = (case map_of (cf m) pre of Some v \<Rightarrow> [(pre, v)] | None \<Rightarrow> [])"
proof -
  let ?xs = "filter (\<lambda>kv. fst kv \<le> pre) (Map_raw_stream m)"
  have d: "distinct (map fst (Map_raw_stream m))"
    using assms by (simp add: distinct_raw_stream)
  have "Map_rev_raw_stream_prefix pre m = takeWhile (\<lambda>kv. fst kv = pre) (rev ?xs)"
    unfolding Map_rev_raw_stream_prefix_def Map_rev_raw_stream_from_def Map_rev_raw_stream_def rev_filter
    by (rule takeWhile_cong) (auto simp: starts_with_self)
  also have "\<dots> = filter (\<lambda>kv. fst kv = pre) ?xs"
    using d by (intro takeWhile_first) (auto simp: sorted_filter distinct_map_filter)
  also have "\<dots> = filter (\<lambda>kv. fst kv = pre) (Map_raw_stream m)"
    unfolding filter_filter by (rule filter_cong) auto
  finally show ?thesis by (simp add: filter_fst_eq [OF d] map_of_raw_stream [OF assms])
qed

section \<open>Keys that are pairs\<close>

definition Interfix :: ser_val where
  "Interfix = SUnitStruct ''Interfix''"

definition pair_key :: "bytes \<Rightarrow> bytes \<Rightarrow> bytes" where
  "pair_key a b = a @ SEP # b"

lemma serialize_pair [simp]: "serialize_key (STuple [SStr a, SStr b]) = Ok (pair_key a b)"
  by (simp add: serialize_key_def serialize_to_def serialize_def ser_record_start_def ser_write_def
      separator_def pair_key_def)

lemma serialize_prefix [simp]: "serialize_key (STuple [SStr a, Interfix]) = Ok (a @ [SEP])"
  by (simp add: serialize_key_def serialize_to_def serialize_def ser_record_start_def ser_write_def
      separator_def Interfix_def serialize_unit_struct_def)

lemma append_sep_eq:
  "SEP \<notin> set a \<Longrightarrow> SEP \<notin> set a' \<Longrightarrow> a @ SEP # b = a' @ SEP # b' \<longleftrightarrow> a = a' \<and> b = b'"
proof (induction a arbitrary: a')
  case Nil
  then show ?case by (cases a') auto
next
  case (Cons x a)
  then show ?case by (cases a') auto
qed

lemma pair_key_eq:
  "SEP \<notin> set a \<Longrightarrow> SEP \<notin> set a' \<Longrightarrow> pair_key a b = pair_key a' b' \<longleftrightarrow> a = a' \<and> b = b'"
  unfolding pair_key_def by (rule append_sep_eq)

lemma pair_key_prefix:
  "SEP \<notin> set a \<Longrightarrow> SEP \<notin> set a' \<Longrightarrow> starts_with (pair_key a' b) (a @ [SEP]) \<longleftrightarrow> a' = a"
  unfolding starts_with_iff pair_key_def using append_sep_eq [of a' a b] by auto

text \<open>The key type \<open>(Ignore, &str)\<close> reads the second component of a pair.\<close>

definition second_ty :: "(bytes \<Rightarrow> bool) \<Rightarrow> de_ty" where
  "second_ty check = DTuple [DIgnore, DStr check]"

lemma read_second:
  assumes "SEP \<notin> set a" and "valid_utf8 b" and "check b"
  shows "deserialize_key (second_ty check) (pair_key a b) = Ok (VTuple [VUnit, VStr b])"
proof -
  have "reads_all [DIgnore, DStr check] [(a, VUnit), (b, VStr b)]"
    using assms by (simp add: reads_all_def)
  from deserialize_records [OF this] show ?thesis
    by (simp add: pair_key_def second_ty_def)
qed

text \<open>A scan of the pairs with a given first component, as the services write it.\<close>

fun second_of :: "de_val \<Rightarrow> bytes" where
  "second_of (VTuple [_, VStr b]) = b"
| "second_of _ = []"

definition scan_second :: "(bytes \<Rightarrow> bool) \<Rightarrow> db_map \<Rightarrow> bytes \<Rightarrow> svc_error + bytes list" where
  "scan_second check m a =
     try_bind (Map_keys_prefix (second_ty check) (STuple [SStr a, Interfix]) m) (\<lambda>ks.
       Ok (map second_of (ignore_err ks)))"

text \<open>
  The tables the laws hold for: each key is a pair whose first component has no separator and whose
  second is a string of the expected form, or it has no separator at all.
\<close>

definition pairs_ok :: "(bytes \<Rightarrow> bool) \<Rightarrow> db_map \<Rightarrow> bool" where
  "pairs_ok check m \<longleftrightarrow>
     wf_map m \<and>
     (\<forall>k \<in> fst ` set (cf m). SEP \<notin> set k
        \<or> (\<exists>a b. k = pair_key a b \<and> SEP \<notin> set a \<and> valid_utf8 b \<and> check b))"

definition pair_has :: "db_map \<Rightarrow> bytes \<Rightarrow> bytes \<Rightarrow> bool" where
  "pair_has m a b \<longleftrightarrow> is_ok (Map_qry m (STuple [SStr a, SStr b]))"

lemma serialize_Nil: "serialize None [] v = serialize_key v"
  by (simp add: serialize_key_def serialize_to_def)

lemma pair_has_iff: "pair_has m a b \<longleftrightarrow> map_of (cf m) (pair_key a b) \<noteq> None"
  by (auto simp: pair_has_def Map_qry_def Map_bqry_def serialize_Nil expect_def is_ok_iff result_iff)

lemma pairs_okE:
  assumes "pairs_ok check m" and "k \<in> fst ` set (cf m)"
  obtains (stray) "SEP \<notin> set k"
  | (pair) a b where "k = pair_key a b" "SEP \<notin> set a" "valid_utf8 b" "check b"
  using assms unfolding pairs_ok_def by blast

lemma pairs_ok_prefix:
  assumes ok: "pairs_ok check m" and a: "SEP \<notin> set a" and k: "k \<in> fst ` set (cf m)" "starts_with k (a @ [SEP])"
  obtains b where "k = pair_key a b" "valid_utf8 b" "check b"
  using ok k(1)
proof (cases rule: pairs_okE)
  case stray
  then show ?thesis using k(2) by (auto simp: starts_with_iff)
next
  case (pair a' b)
  then show ?thesis using that k(2) a pair_key_prefix [of a a' b] by auto
qed

lemma ignore_err_Ok: "ignore_err (map (\<lambda>x. Ok (f x)) xs) = map f xs"
  by (induction xs) (simp_all add: ignore_err_def map_filter_simps)

lemma keys_prefix_pairs:
  assumes ok: "pairs_ok check m" and a: "SEP \<notin> set a"
  shows "Map_keys_prefix (second_ty check) (STuple [SStr a, Interfix]) m =
    Ok (map (\<lambda>b. Ok (VTuple [VUnit, VStr b]))
      (map (drop (Suc (length a))) (filter (\<lambda>k. starts_with k (a @ [SEP])) (Map_raw_keys m))))"
proof -
  let ?ks = "filter (\<lambda>k. starts_with k (a @ [SEP])) (Map_raw_keys m)"
  have "Map_raw_keys_prefix (a @ [SEP]) m = ?ks"
    by (simp add: raw_keys_prefix raw_stream_prefix Map_raw_keys_def filter_map comp_def)
  then have keys: "Map_keys_prefix_raw (STuple [SStr a, Interfix]) m = Ok ?ks"
    by (simp add: Map_keys_prefix_raw_def expect_def Map_raw_keys_prefix_def)
  have read: "map (deserialize_key (second_ty check)) ?ks
      = map (\<lambda>k. Ok (VTuple [VUnit, VStr (drop (Suc (length a)) k)])) ?ks"
  proof (rule map_cong [OF refl])
    fix k
    assume "k \<in> set ?ks"
    then have k: "k \<in> fst ` set (cf m)" "starts_with k (a @ [SEP])" by (auto simp: Map_raw_keys_def)
    obtain b where "k = pair_key a b" "valid_utf8 b" "check b" by (rule pairs_ok_prefix [OF ok a k])
    then show "deserialize_key (second_ty check) k = Ok (VTuple [VUnit, VStr (drop (Suc (length a)) k)])"
      using read_second [OF a, of b check] by (simp add: pair_key_def)
  qed
  show ?thesis
    by (simp add: Map_keys_prefix_def keys read comp_def del: map_eq_conv)
qed

lemma scan_second_keys:
  assumes "pairs_ok check m" and "SEP \<notin> set a"
  shows "scan_second check m a =
    Ok (map (drop (Suc (length a))) (filter (\<lambda>k. starts_with k (a @ [SEP])) (Map_raw_keys m)))"
  by (simp add: scan_second_def keys_prefix_pairs [OF assms] ignore_err_Ok comp_def del: map_map)
    (simp add: comp_def)

lemma sorted_map_mono:
  "sorted xs \<Longrightarrow> (\<And>x y. x \<in> set xs \<Longrightarrow> y \<in> set xs \<Longrightarrow> x \<le> y \<Longrightarrow> f x \<le> f y) \<Longrightarrow> sorted (map f xs)"
  by (induction xs) auto

lemma scan_second_pairs:
  assumes ok: "pairs_ok check m" and a: "SEP \<notin> set a"
  obtains bs where "scan_second check m a = Ok bs" "distinct bs" "sorted bs" "set bs = {b. pair_has m a b}"
proof -
  let ?ks = "filter (\<lambda>k. starts_with k (a @ [SEP])) (Map_raw_keys m)"
  let ?f = "drop (Suc (length a)) :: bytes \<Rightarrow> bytes"
  have pair: "pair_key a (?f k) = k" if "starts_with k (a @ [SEP])" for k
    using that by (auto simp: starts_with_iff pair_key_def)
  have d: "distinct ?ks" "sorted ?ks"
    using ok by (simp_all add: Map_raw_keys_def distinct_raw_stream pairs_ok_def sorted_wrt_filter)
  have "inj_on ?f (set ?ks)" using pair by (intro inj_onI) (metis filter_is_subset mem_Collect_eq set_filter)
  then have "distinct (map ?f ?ks)" using d(1) by (simp add: distinct_map)
  moreover have "sorted (map ?f ?ks)"
  proof -
    have "?f k \<le> ?f k'" if "k \<le> k'" "starts_with k (a @ [SEP])" "starts_with k' (a @ [SEP])" for k k'
      using that list_less_append [of a a "SEP # ?f k'" "SEP # ?f k"] pair [of k] pair [of k']
      by (auto simp: pair_key_def not_less [symmetric])
    with d(2) show ?thesis by (intro sorted_map_mono) auto
  qed
  moreover have "set (map ?f ?ks) = {b. pair_has m a b}"
  proof -
    have has: "pair_has m a b \<longleftrightarrow> pair_key a b \<in> set (Map_raw_keys m)" for b
      by (simp add: pair_has_iff map_of_eq_None_iff Map_raw_keys_def)
    have start: "starts_with (pair_key a b) (a @ [SEP])" "?f (pair_key a b) = b" for b
      by (auto simp: starts_with_iff pair_key_def)
    show ?thesis
    proof (intro set_eqI iffI)
      fix b
      assume "b \<in> set (map ?f ?ks)"
      then obtain k where "k \<in> set (Map_raw_keys m)" "starts_with k (a @ [SEP])" "b = ?f k" by auto
      then show "b \<in> {b. pair_has m a b}" using pair has by simp
    next
      fix b
      assume "b \<in> {b. pair_has m a b}"
      then have "pair_key a b \<in> set ?ks" using has start by simp
      then show "b \<in> set (map ?f ?ks)" using start(2) [of b] by (metis imageI set_map)
    qed
  qed
  ultimately show ?thesis using that scan_second_keys [OF ok a] by blast
qed

section \<open>The interface of a table of pairs\<close>

text \<open>
  What the services rely on: what is put is there, what is deleted is not, other pairs stay, and the scan
  of a first component lists its second components.
\<close>

locale pair_table =
  fixes valid_fst :: "'a \<Rightarrow> bool" and valid_snd :: "'b \<Rightarrow> bool"
    and ok :: "'m \<Rightarrow> bool" and has :: "'m \<Rightarrow> 'a \<Rightarrow> 'b \<Rightarrow> bool"
    and put :: "'a \<Rightarrow> 'b \<Rightarrow> 'v \<Rightarrow> 'm \<Rightarrow> 'm" and del :: "'a \<Rightarrow> 'b \<Rightarrow> 'm \<Rightarrow> 'm"
    and scan :: "'m \<Rightarrow> 'a \<Rightarrow> 'e + 'b list"
  assumes ok_put: "ok m \<Longrightarrow> valid_fst a \<Longrightarrow> valid_snd b \<Longrightarrow> ok (put a b v m)"
    and ok_del: "ok m \<Longrightarrow> ok (del a b m)"
    and has_put: "valid_fst a \<Longrightarrow> valid_fst a' \<Longrightarrow> has (put a b v m) a' b' \<longleftrightarrow> a' = a \<and> b' = b \<or> has m a' b'"
    and has_del: "valid_fst a \<Longrightarrow> valid_fst a' \<Longrightarrow> has (del a b m) a' b' \<longleftrightarrow> \<not> (a' = a \<and> b' = b) \<and> has m a' b'"
    and scan_has: "ok m \<Longrightarrow> valid_fst a \<Longrightarrow> \<exists>bs. scan m a = Inr bs \<and> distinct bs \<and> set bs = {b. has m a b}"
begin

lemma scan_length:
  assumes "ok m" and "valid_fst a" and "scan m a = Inr bs"
  shows "length bs = card {b. has m a b}"
  using scan_has [OF assms(1,2)] assms(3) distinct_card [of bs] by auto

lemma scan_set: "ok m \<Longrightarrow> valid_fst a \<Longrightarrow> scan m a = Inr bs \<Longrightarrow> set bs = {b. has m a b}"
  using scan_has by fastforce

lemma scan_put:
  assumes "ok m" and "valid_fst a" and "valid_snd b" and "scan m a = Inr bs" and "scan (put a b v m) a = Inr bs'"
  shows "set bs' = insert b (set bs)"
  using scan_set [OF assms(1,2,4)] scan_set [OF ok_put [OF assms(1-3)] assms(2,5)]
    has_put [OF assms(2) assms(2)] by auto

lemma scan_del:
  assumes "ok m" and "valid_fst a" and "scan m a = Inr bs" and "scan (del a b m) a = Inr bs'"
  shows "set bs' = set bs - {b}"
  using scan_set [OF assms(1-3)] scan_set [OF ok_del [OF assms(1)] assms(2,4)]
    has_del [OF assms(2) assms(2)] by auto

end

text \<open>Two tables that hold the same relation from either side.\<close>

locale mirrored_tables =
  fwd: pair_table valid_a valid_b ok_f has_f put_f del_f scan_f +
  bwd: pair_table valid_b valid_a ok_b has_b put_b del_b scan_b
  for valid_a :: "'a \<Rightarrow> bool" and valid_b :: "'b \<Rightarrow> bool"
    and ok_f :: "'m \<Rightarrow> bool" and has_f and put_f :: "'a \<Rightarrow> 'b \<Rightarrow> 'v \<Rightarrow> 'm \<Rightarrow> 'm" and del_f
    and scan_f :: "'m \<Rightarrow> 'a \<Rightarrow> 'e + 'b list"
    and ok_b :: "'n \<Rightarrow> bool" and has_b and put_b :: "'b \<Rightarrow> 'a \<Rightarrow> 'w \<Rightarrow> 'n \<Rightarrow> 'n" and del_b
    and scan_b :: "'n \<Rightarrow> 'b \<Rightarrow> 'e + 'a list"
begin

definition mirror :: "'m \<Rightarrow> 'n \<Rightarrow> bool" where
  "mirror m n \<longleftrightarrow> ok_f m \<and> ok_b n \<and> (\<forall>a b. valid_a a \<longrightarrow> valid_b b \<longrightarrow> has_f m a b = has_b n b a)"

lemma mirror_put:
  "mirror m n \<Longrightarrow> valid_a a \<Longrightarrow> valid_b b \<Longrightarrow> mirror (put_f a b v m) (put_b b a w n)"
  by (auto simp: mirror_def fwd.ok_put bwd.ok_put fwd.has_put bwd.has_put)

lemma mirror_del:
  "mirror m n \<Longrightarrow> valid_a a \<Longrightarrow> valid_b b \<Longrightarrow> mirror (del_f a b m) (del_b b a n)"
  by (auto simp: mirror_def fwd.ok_del bwd.ok_del fwd.has_del bwd.has_del)

lemma mirror_scan:
  assumes "mirror m n" and "valid_a a" and "valid_b b" and "scan_b n b = Inr as"
  shows "a \<in> set as \<longleftrightarrow> has_f m a b"
  using assms bwd.scan_has [of n b] by (auto simp: mirror_def)

end

definition id_ok :: "(bytes \<Rightarrow> bool) \<Rightarrow> bytes \<Rightarrow> bool" where
  "id_ok check a \<longleftrightarrow> valid_utf8 a \<and> check a"

definition pair_put :: "bytes \<Rightarrow> bytes \<Rightarrow> bytes \<Rightarrow> db_map \<Rightarrow> db_map" where
  "pair_put a b v m = Map_insert (pair_key a b) v m"

definition pair_del :: "bytes \<Rightarrow> bytes \<Rightarrow> db_map \<Rightarrow> db_map" where
  "pair_del a b m = Map_remove (pair_key a b) m"

lemma id_ok_no_sep: "id_ok check a \<Longrightarrow> SEP \<notin> set a"
  by (simp add: id_ok_def valid_utf8_no_sep)

lemma keys_insert: "fst ` set (cf (Map_insert k v m)) = insert k (fst ` set (cf m))"
  by (simp add: Map_insert_def dom_map_of_conv_image_fst [symmetric] table_simps)

lemma keys_remove: "fst ` set (cf (Map_remove k m)) = fst ` set (cf m) - {k}"
  by (simp add: Map_remove_def dom_map_of_conv_image_fst [symmetric] table_simps)

interpretation pairs: pair_table "id_ok ca" "id_ok cb" "pairs_ok cb" pair_has pair_put pair_del "scan_second cb"
  for ca cb
proof
  fix m a b v
  assume "pairs_ok cb m" "id_ok ca a" "id_ok cb b"
  then show "pairs_ok cb (pair_put a b v m)"
    unfolding pairs_ok_def pair_put_def keys_insert id_ok_def
    using valid_utf8_no_sep [of a] by auto
next
  fix m a b
  assume "pairs_ok cb m"
  then show "pairs_ok cb (pair_del a b m)" unfolding pairs_ok_def pair_del_def keys_remove by auto
next
  fix a a' b b' v m
  assume "id_ok ca a" "id_ok ca a'"
  then show "pair_has (pair_put a b v m) a' b' \<longleftrightarrow> a' = a \<and> b' = b \<or> pair_has m a' b'"
    using pair_key_eq [of a' a b' b] by (auto simp: pair_has_iff pair_put_def dest!: id_ok_no_sep)
next
  fix a a' b b' m
  assume "id_ok ca a" "id_ok ca a'"
  then show "pair_has (pair_del a b m) a' b' \<longleftrightarrow> \<not> (a' = a \<and> b' = b) \<and> pair_has m a' b'"
    using pair_key_eq [of a' a b' b] by (auto simp: pair_has_iff pair_del_def dest!: id_ok_no_sep)
next
  fix m a
  assume "pairs_ok cb m" "id_ok ca a"
  then show "\<exists>bs. scan_second cb m a = Ok bs \<and> distinct bs \<and> set bs = {b. pair_has m a b}"
    using scan_second_pairs [of cb m a] by (metis id_ok_no_sep)
qed

interpretation mirrored_pairs: mirrored_tables "id_ok ca" "id_ok cb" "pairs_ok cb" pair_has pair_put pair_del "scan_second cb"
    "pairs_ok ca" pair_has pair_put pair_del "scan_second ca"
  for ca cb
  by unfold_locales

text \<open>The facts of the interpretations, for two tables of identifiers.\<close>

definition mirror_tables :: "(bytes \<Rightarrow> bool) \<Rightarrow> (bytes \<Rightarrow> bool) \<Rightarrow> db_map \<Rightarrow> db_map \<Rightarrow> bool" where
  "mirror_tables ca cb m n \<longleftrightarrow>
     mirrored_tables.mirror (id_ok ca) (id_ok cb) (pairs_ok cb) pair_has (pairs_ok ca) pair_has m n"

lemmas mirror_tables_put = mirrored_pairs.mirror_put [folded mirror_tables_def]
lemmas mirror_tables_del = mirrored_pairs.mirror_del [folded mirror_tables_def]
lemmas mirror_tables_scan = mirrored_pairs.mirror_scan [folded mirror_tables_def]

lemma mirror_tablesD:
  assumes "mirror_tables ca cb m n"
  shows "pairs_ok cb m" "pairs_ok ca n"
    "id_ok ca a \<Longrightarrow> id_ok cb b \<Longrightarrow> pair_has n b a = pair_has m a b"
  using assms unfolding mirror_tables_def mirrored_pairs.mirror_def by auto

section \<open>Wakers\<close>

text \<open>The future on prefix \<open>p\<close> that holds channel \<open>c\<close> is complete, or waits in the table for \<open>p\<close>.\<close>

definition waits_or_done :: "bytes \<Rightarrow> nat \<Rightarrow> watchers \<Rightarrow> bool" where
  "waits_or_done p c w \<longleftrightarrow> c \<in> set (watch_changed w) \<or> map_of (watch_map w) p = Some c"

lemma waits_wake_one:
  "waits_or_done p c w \<Longrightarrow> waits_or_done p c (wake_one q w) \<and> (p = q \<longrightarrow> c \<in> set (watch_changed (wake_one q w)))"
  by (auto simp: waits_or_done_def wake_one_def table_simps split: option.splits)

lemma waits_fold:
  "waits_or_done p c w \<Longrightarrow>
   waits_or_done p c (fold wake_one ps w) \<and> (p \<in> set ps \<longrightarrow> c \<in> set (watch_changed (fold wake_one ps w)))"
proof (induction ps rule: rev_induct)
  case (snoc q ps)
  have "c \<in> set (watch_changed w) \<Longrightarrow> c \<in> set (watch_changed (wake_one q w))" for w
    by (auto simp: wake_one_def split: option.splits)
  then show ?case using snoc waits_wake_one [of p c "fold wake_one ps w" q] by auto
qed simp

lemma wake_one_pending [simp]: "watch_pending (fold wake_one ps w) = watch_pending w"
proof (induction ps arbitrary: w)
  case (Cons q ps)
  have "watch_pending (wake_one q w) = watch_pending w" by (simp add: wake_one_def split: option.splits)
  with Cons show ?case by simp
qed simp

lemma wake_one_changed: "set (watch_changed w) \<subseteq> set (watch_changed (fold wake_one ps w))"
proof (induction ps arbitrary: w)
  case (Cons q ps)
  have "set (watch_changed w) \<subseteq> set (watch_changed (wake_one q w))"
    by (auto simp: wake_one_def split: option.splits)
  with Cons [of "wake_one q w"] show ?case by auto
qed simp

lemma waits_watch: "waits_or_done p c w \<Longrightarrow> waits_or_done p c (snd (watch q w))"
  by (auto simp: waits_or_done_def watch_def table_simps split: option.splits)

lemma waits_wake:
  "waits_or_done p c w \<Longrightarrow> waits_or_done p c (wake_read i key w)"
  "waits_or_done p c w \<Longrightarrow> waits_or_done p c (wake_write i w)"
  using waits_fold [of p c w]
  by (auto simp: waits_or_done_def wake_read_def wake_write_def split: option.splits)

definition being_woken :: "nat \<Rightarrow> bytes \<Rightarrow> nat \<Rightarrow> watchers \<Rightarrow> bool" where
  "being_woken i p c w \<longleftrightarrow>
     c \<in> set (watch_changed w)
     \<or> map_of (watch_map w) p = Some c \<and> (\<exists>ps. map_of (watch_pending w) i = Some ps \<and> p \<in> set ps)"

lemma being_woken_step: "watch_step w w' \<Longrightarrow> being_woken i p c w \<Longrightarrow> being_woken i p c w'"
proof (induction rule: watch_step.induct)
  case (step_watch w q)
  then show ?case by (auto simp: being_woken_def watch_def table_simps split: option.splits)
next
  case (step_read w j key)
  then show ?case by (auto simp: being_woken_def wake_read_def table_simps)
next
  case (step_write w j qs)
  have w: "waits_or_done p c w" using step_write by (auto simp: being_woken_def waits_or_done_def)
  show ?case
  proof (cases "c \<in> set (watch_changed (fold wake_one qs w))")
    case True
    then show ?thesis using step_write by (simp add: being_woken_def wake_write_def)
  next
    case False
    then have p: "p \<notin> set qs" "map_of (watch_map (fold wake_one qs w)) p = Some c"
      using waits_fold [OF w, of qs] by (auto simp: waits_or_done_def)
    have "c \<notin> set (watch_changed w)"
      using False wake_one_changed [of w qs] by auto
    then obtain ps where "map_of (watch_pending w) i = Some ps" "p \<in> set ps"
      using step_write by (auto simp: being_woken_def)
    then show ?thesis using step_write p by (auto simp: being_woken_def wake_write_def table_simps)
  qed
qed

section \<open>Correctness\<close>

text \<open>
  C33: Prefix scans are exact. In a table whose keys are pairs, the keys that \<open>keys_prefix\<close> streams for a
  first component followed by the directive \<open>Interfix\<close> decode to exactly the second components that the
  table holds for it: each once, in byte order, and none of another first component, however the
  strings overlap.
\<close>

theorem keys_prefix_exact:
  assumes "pairs_ok check m" and "SEP \<notin> set a"
  shows "\<exists>bs. Map_keys_prefix (second_ty check) (STuple [SStr a, Interfix]) m
             = Ok (map (\<lambda>b. Ok (VTuple [VUnit, VStr b])) bs)
           \<and> sorted bs \<and> distinct bs \<and> set bs = {b. is_ok (Map_qry m (STuple [SStr a, SStr b]))}"
proof -
  obtain bs where bs: "scan_second check m a = Ok bs" "distinct bs" "sorted bs" "set bs = {b. pair_has m a b}"
    by (rule scan_second_pairs [OF assms])
  have "Map_keys_prefix (second_ty check) (STuple [SStr a, Interfix]) m
      = Ok (map (\<lambda>b. Ok (VTuple [VUnit, VStr b])) bs)"
    using bs(1) scan_second_keys [OF assms] keys_prefix_pairs [OF assms] by simp
  then show ?thesis using bs by (auto simp: pair_has_def)
qed

definition two_rooms :: db_map where
  "two_rooms = pair_put [0x61, 0x62] [0x63] [] (pair_put [0x61] [0x64] [] (Map_open []))"

theorem keys_prefix_exact_witness:
  "\<exists>bs. Map_keys_prefix (second_ty (\<lambda>_. True)) (STuple [SStr [0x61], Interfix]) two_rooms
      = Ok (map (\<lambda>b. Ok (VTuple [VUnit, VStr b])) bs)
    \<and> sorted bs \<and> distinct bs \<and> set bs = {b. is_ok (Map_qry two_rooms (STuple [SStr [0x61], SStr b]))}"
proof (rule keys_prefix_exact)
  have "pairs_ok (\<lambda>_. True) (Map_open [])" by (simp add: pairs_ok_def)
  then show "pairs_ok (\<lambda>_. True) two_rooms"
    unfolding two_rooms_def
    by (intro pairs.ok_put [where ca = "\<lambda>_. True"]) (simp_all add: id_ok_def)
  show "SEP \<notin> set [0x61]" by (simp add: SEP_def)
qed



end
