(* ===== verification/Account_Data.thy ===== *)
theory Account_Data
  imports Db_Map_Props
begin

text \<open>
  \<open>service/account_data/mod.rs\<close>: the account data of the users, per room and global. One table holds
  the events under keys that order by the count at which they were set, a second table points from a
  user and an event type to the current entry. The theorems refine the two tables to one map.
\<close>

section \<open>The service\<close>

text \<open>A \<open>serde_json::Value\<close> as the code looks at it: its text and the names of its members.\<close>

record json_value =
  json_text :: bytes
  json_members :: "string list"

record account_db =
  ad_globals :: globals
  roomuserdataid_accountdata :: db_map
  roomusertype_roomuserdataid :: db_map

definition opt_id :: "bytes option \<Rightarrow> ser_val" where
  "opt_id r = (case r of Some i \<Rightarrow> SSome (SStr i) | None \<Rightarrow> SNone)"

definition account_update :: "bytes option \<Rightarrow> bytes \<Rightarrow> bytes \<Rightarrow> json_value \<Rightarrow> account_db \<Rightarrow> svc_error + account_db" where
  "account_update room_id user_id event_type data s =
     (if ''type'' \<notin> set (json_members data) \<or> ''content'' \<notin> set (json_members data)
      then Err (BadRequest ''Account data without all required fields'')
      else
        try_bind (next_count (ad_globals s)) (\<lambda>(count, g).
        let roomuserdataid = STuple [opt_id room_id, SStr user_id, SU64 count, SStr event_type] in
        try_bind (Map_put roomuserdataid (SNewtype ''Json'' (Some (json_text data))) (roomuserdataid_accountdata s))
          (\<lambda>accountdata.
        let key = STuple [opt_id room_id, SStr user_id, SStr event_type];
            prev = Map_qry (roomusertype_roomuserdataid s) key in
        try_bind (Map_put key roomuserdataid (roomusertype_roomuserdataid s)) (\<lambda>dataid.
          Ok (s\<lparr>ad_globals := g,
                roomusertype_roomuserdataid := dataid,
                roomuserdataid_accountdata :=
                  (case prev of Ok p \<Rightarrow> Map_remove p accountdata | Err _ \<Rightarrow> accountdata)\<rparr>)))))"

definition get_raw :: "bytes option \<Rightarrow> bytes \<Rightarrow> bytes \<Rightarrow> account_db \<Rightarrow> svc_error + bytes" where
  "get_raw room_id user_id kind s =
     try_bind (Map_qry (roomusertype_roomuserdataid s) (STuple [opt_id room_id, SStr user_id, SStr kind]))
       (Map_get (roomuserdataid_accountdata s))"

text \<open>The typed getters; the parameter reads the JSON text as the type asked for.\<close>

definition get_global :: "(bytes \<Rightarrow> svc_error + 'a) \<Rightarrow> bytes \<Rightarrow> bytes \<Rightarrow> account_db \<Rightarrow> svc_error + 'a" where
  "get_global read user_id kind s = try_bind (get_raw None user_id kind s) read"

definition get_room :: "(bytes \<Rightarrow> svc_error + 'a) \<Rightarrow> bytes \<Rightarrow> bytes \<Rightarrow> bytes \<Rightarrow> account_db \<Rightarrow> svc_error + 'a" where
  "get_room read room_id user_id kind s = try_bind (get_raw (Some room_id) user_id kind s) read"

definition account_key_ty :: "(bytes \<Rightarrow> bool) \<Rightarrow> (bytes \<Rightarrow> bool) \<Rightarrow> de_ty" where
  "account_key_ty vr vu = DTuple [DOption (DStr vr), DStr vu, DU64, DIgnore]"

fun account_item :: "bytes option \<Rightarrow> bytes \<Rightarrow> u64 option \<Rightarrow> de_val \<times> de_val \<Rightarrow> bool" where
  "account_item room_id user_id to (VTuple [r, VStr u, VU64 cnt, _], _) =
     ((case r of VSome (VStr i) \<Rightarrow> room_id = Some i | _ \<Rightarrow> room_id = None)
      \<and> user_id = u \<and> (case to of Some n \<Rightarrow> cnt \<le> n | None \<Rightarrow> True))"
| "account_item _ _ _ _ = False"

fun val_bytes :: "de_val \<Rightarrow> bytes" where
  "val_bytes (VBytes bs) = bs"
| "val_bytes _ = []"

definition saturating_succ :: "u64 \<Rightarrow> u64" where
  "saturating_succ n = (if n = - 1 then n else n + 1)"

text \<open>
  \<open>vr\<close> and \<open>vu\<close> are the forms of room and user identifiers, \<open>event_ok\<close> says which texts serde_json accepts
  as an account data event.
\<close>

definition changes_since ::
    "(bytes \<Rightarrow> bool) \<Rightarrow> (bytes \<Rightarrow> bool) \<Rightarrow> (bytes \<Rightarrow> bool) \<Rightarrow> bytes option \<Rightarrow> bytes \<Rightarrow> u64 \<Rightarrow> u64 option \<Rightarrow> account_db
     \<Rightarrow> svc_error + bytes list" where
  "changes_since vr vu event_ok room_id user_id since to s =
     (let first_possible = STuple [opt_id room_id, SStr user_id, SU64 (saturating_succ since)] in
      try_bind (Map_stream_from (account_key_ty vr vu) (DField DBytes) first_possible (roomuserdataid_accountdata s))
        (\<lambda>items.
          Ok (filter event_ok
               (map (\<lambda>kv. val_bytes (snd kv)) (takeWhile (account_item room_id user_id to) (ignore_err items))))))"

section \<open>Keys\<close>

definition room_bytes :: "bytes option \<Rightarrow> bytes" where
  "room_bytes r = (case r of Some i \<Rightarrow> i | None \<Rightarrow> [])"

definition user_key :: "bytes option \<Rightarrow> bytes \<Rightarrow> bytes" where
  "user_key r u = room_bytes r @ SEP # u @ [SEP]"

definition type_key :: "bytes option \<Rightarrow> bytes \<Rightarrow> bytes \<Rightarrow> bytes" where
  "type_key r u t = user_key r u @ t"

definition data_key :: "bytes option \<Rightarrow> bytes \<Rightarrow> u64 \<Rightarrow> bytes \<Rightarrow> bytes" where
  "data_key r u c t = user_key r u @ to_be_bytes c @ SEP # t"

lemmas serialize_unfold = serialize_key_def serialize_to_def serialize_def ser_record_start_def ser_write_def
  separator_def opt_id_def user_key_def room_bytes_def

lemma serialize_account [simp]:
  "serialize_key (STuple [opt_id r, SStr u, SStr t]) = Ok (type_key r u t)"
  "serialize_key (STuple [opt_id r, SStr u, SU64 c, SStr t]) = Ok (data_key r u c t)"
  "serialize_key (STuple [opt_id r, SStr u, SU64 c]) = Ok (user_key r u @ to_be_bytes c)"
  "serialize_key (SNewtype ''Json'' (Some x)) = Ok x"
  by (cases r; simp add: serialize_unfold type_key_def data_key_def serialize_newtype_struct_def)+

text \<open>Identifiers and types have no separator and a room identifier is not empty.\<close>

definition account_ids :: "(bytes \<Rightarrow> bool) \<Rightarrow> (bytes \<Rightarrow> bool) \<Rightarrow> bytes option \<Rightarrow> bytes \<Rightarrow> bytes \<Rightarrow> bool" where
  "account_ids vr vu r u t \<longleftrightarrow>
     (case r of Some i \<Rightarrow> i \<noteq> [] \<and> valid_utf8 i \<and> vr i | None \<Rightarrow> True)
     \<and> valid_utf8 u \<and> vu u \<and> SEP \<notin> set t"

lemma account_ids_no_sep:
  "account_ids vr vu r u t \<Longrightarrow> SEP \<notin> set (room_bytes r) \<and> SEP \<notin> set u \<and> SEP \<notin> set t \<and> (r \<noteq> None \<longrightarrow> room_bytes r \<noteq> [])"
  by (auto simp: account_ids_def room_bytes_def dest: valid_utf8_no_sep split: option.splits)

lemma room_bytes_inject:
  "account_ids vr vu r u t \<Longrightarrow> account_ids vr vu r' u' t' \<Longrightarrow> room_bytes r = room_bytes r' \<longleftrightarrow> r = r'"
  by (auto simp: account_ids_def room_bytes_def split: option.splits)

lemma user_key_inject:
  assumes "account_ids vr vu r u t" and "account_ids vr vu r' u' t'"
  shows "user_key r u @ x = user_key r' u' @ x' \<longleftrightarrow> r = r' \<and> u = u' \<and> x = x'"
  using account_ids_no_sep [OF assms(1)] account_ids_no_sep [OF assms(2)] room_bytes_inject [OF assms]
  by (simp add: user_key_def append_sep_eq)

lemma keys_inject:
  assumes "account_ids vr vu r u t" and "account_ids vr vu r' u' t'"
  shows "type_key r u t = type_key r' u' t' \<longleftrightarrow> (r, u, t) = (r', u', t')"
    and "data_key r u c t = data_key r' u' c' t' \<longleftrightarrow> (r, u, c, t) = (r', u', c', t')"
  by (auto simp: type_key_def data_key_def user_key_inject [OF assms])

section \<open>One map\<close>

type_synonym account_map = "bytes option \<times> bytes \<times> bytes \<Rightarrow> (u64 \<times> bytes) option"

definition account_ok :: "(bytes \<Rightarrow> bool) \<Rightarrow> (bytes \<Rightarrow> bool) \<Rightarrow> account_map \<Rightarrow> account_db \<Rightarrow> bool" where
  "account_ok vr vu A s \<longleftrightarrow>
     wf_map (roomuserdataid_accountdata s) \<and>
     (\<forall>r u t c x. A (r, u, t) = Some (c, x) \<longrightarrow>
        account_ids vr vu r u t \<and> c \<le> global_counter (ad_globals s)
        \<and> map_of (cf (roomusertype_roomuserdataid s)) (type_key r u t) = Some (data_key r u c t)
        \<and> map_of (cf (roomuserdataid_accountdata s)) (data_key r u c t) = Some x) \<and>
     (\<forall>k. map_of (cf (roomusertype_roomuserdataid s)) k \<noteq> None \<longrightarrow>
        (\<exists>r u t c x. A (r, u, t) = Some (c, x) \<and> k = type_key r u t)) \<and>
     (\<forall>k. map_of (cf (roomuserdataid_accountdata s)) k \<noteq> None \<longrightarrow>
        (\<exists>r u t c x. A (r, u, t) = Some (c, x) \<and> k = data_key r u c t))"

lemma account_okD:
  assumes "account_ok vr vu A s"
  shows "wf_map (roomuserdataid_accountdata s)"
    and "A (r, u, t) = Some (c, x) \<Longrightarrow> account_ids vr vu r u t"
    and "A (r, u, t) = Some (c, x) \<Longrightarrow> c \<le> global_counter (ad_globals s)"
    and "A (r, u, t) = Some (c, x) \<Longrightarrow>
      map_of (cf (roomusertype_roomuserdataid s)) (type_key r u t) = Some (data_key r u c t)"
    and "A (r, u, t) = Some (c, x) \<Longrightarrow>
      map_of (cf (roomuserdataid_accountdata s)) (data_key r u c t) = Some x"
  using assms unfolding account_ok_def by blast+

lemma account_ok_type_key:
  assumes "account_ok vr vu A s" and "map_of (cf (roomusertype_roomuserdataid s)) k = Some v"
  obtains r u t c x where "A (r, u, t) = Some (c, x)" "k = type_key r u t"
  using assms unfolding account_ok_def by blast

lemma account_ok_data_key:
  assumes "account_ok vr vu A s" and "map_of (cf (roomuserdataid_accountdata s)) k = Some v"
  obtains r u t c x where "A (r, u, t) = Some (c, x)" "k = data_key r u c t" "v = x"
proof -
  obtain r u t c x where 1: "A (r, u, t) = Some (c, x)" "k = data_key r u c t"
    using assms unfolding account_ok_def by blast
  then have "v = x" using account_okD(5) [OF assms(1) 1(1)] assms(2) by simp
  with 1 that show ?thesis by blast
qed

lemma qry_type_key:
  "Map_qry m (STuple [opt_id r, SStr u, SStr t]) = Map_get m (type_key r u t)"
  by (simp add: Map_qry_def Map_bqry_def serialize_Nil expect_def)

lemma Map_put_simp:
  "serialize_key k = Ok kb \<Longrightarrow> serialize_key v = Ok vb \<Longrightarrow> Map_put k v m = Ok (Map_insert kb vb m)"
  by (simp add: Map_put_def Map_bput_def Map_bput_raw_def serialize_Nil expect_def)

text \<open>The entry that \<open>update\<close> replaces, found through the second table.\<close>

lemma account_prev:
  assumes "account_ok vr vu A s" and "account_ids vr vu r u t"
  shows "Map_get (roomusertype_roomuserdataid s) (type_key r u t) =
    (case A (r, u, t) of Some (c, x) \<Rightarrow> Ok (data_key r u c t) | None \<Rightarrow> Err (MissingItem ''Not found in database''))"
proof (cases "A (r, u, t)")
  case None
  have "map_of (cf (roomusertype_roomuserdataid s)) (type_key r u t) = None"
  proof (rule ccontr)
    assume "map_of (cf (roomusertype_roomuserdataid s)) (type_key r u t) \<noteq> None"
    then obtain v where "map_of (cf (roomusertype_roomuserdataid s)) (type_key r u t) = Some v" by blast
    then obtain r' u' t' c x where A: "A (r', u', t') = Some (c, x)" "type_key r u t = type_key r' u' t'"
      by (rule account_ok_type_key [OF assms(1)])
    then have "(r, u, t) = (r', u', t')"
      using keys_inject(1) [OF assms(2) account_okD(2) [OF assms(1) A(1)]] by simp
    with A None show False by simp
  qed
  with None show ?thesis by (simp add: Map_get_def handle_from_def)
next
  case (Some p)
  then show ?thesis using account_okD(4) [OF assms(1)] by (cases p) (auto simp: Map_get_def handle_from_def)
qed

text \<open>What \<open>update\<close> does to the two tables.\<close>

definition account_written ::
    "account_map \<Rightarrow> bytes option \<Rightarrow> bytes \<Rightarrow> bytes \<Rightarrow> u64 \<Rightarrow> bytes \<Rightarrow> account_db \<Rightarrow> account_db \<Rightarrow> bool" where
  "account_written A r u t n x s s' \<longleftrightarrow>
     wf_map (roomuserdataid_accountdata s') \<and>
     global_counter (ad_globals s) < n \<and> global_counter (ad_globals s') = n \<and>
     map_of (cf (roomusertype_roomuserdataid s')) =
       (map_of (cf (roomusertype_roomuserdataid s)))(type_key r u t \<mapsto> data_key r u n t) \<and>
     map_of (cf (roomuserdataid_accountdata s')) =
       (let written = (map_of (cf (roomuserdataid_accountdata s)))(data_key r u n t \<mapsto> x)
        in case A (r, u, t) of Some (c, _) \<Rightarrow> written(data_key r u c t := None) | None \<Rightarrow> written)"

lemma account_update_written:
  assumes ok: "account_ok vr vu A s" and ids: "account_ids vr vu r u t"
    and fields: "{''type'', ''content''} \<subseteq> set (json_members data)"
    and n: "global_counter (ad_globals s) \<noteq> - 1" "n = global_counter (ad_globals s) + 1"
  obtains s' where "account_update r u t data s = Ok s'" "account_written A r u t n (json_text data) s s'"
proof -
  have "wf_map (roomuserdataid_accountdata s)" by (rule account_okD(1) [OF ok])
  moreover have "global_counter (ad_globals s) < n" using word_less_succ [OF n(1)] n(2) by simp
  ultimately show ?thesis
    using that fields n
    by (cases "A (r, u, t)")
      (auto simp: account_update_def account_written_def next_count_def Map_put_simp qry_type_key
        account_prev [OF ok ids] Let_def)
qed

lemma written_less:
  assumes "account_ok vr vu A s" and "account_written A r u t n x s s'" and "A (r', u', t') = Some (c, y)"
  shows "c < n"
  using account_okD(3) [OF assms(1,3)] assms(2) by (auto simp: account_written_def)

lemma written_new:
  assumes "account_ok vr vu A s" and "account_ids vr vu r u t" and "account_written A r u t n x s s'"
  shows "map_of (cf (roomuserdataid_accountdata s')) (data_key r u n t) = Some x"
proof (cases "A (r, u, t)")
  case None
  then show ?thesis using assms(3) by (simp add: account_written_def)
next
  case (Some p)
  obtain c y where p: "p = (c, y)" by (cases p)
  then have "c \<noteq> n" using written_less [OF assms(1,3)] Some by blast
  then show ?thesis
    using assms(3) Some p keys_inject(2) [OF assms(2,2)] by (simp add: account_written_def)
qed

lemma written_old:
  assumes ok: "account_ok vr vu A s" and ids: "account_ids vr vu r u t" and w: "account_written A r u t n x s s'"
    and A: "A (r', u', t') = Some (c', x')" and other: "(r', u', t') \<noteq> (r, u, t)"
  shows "map_of (cf (roomuserdataid_accountdata s')) (data_key r' u' c' t') = Some x'"
    and "map_of (cf (roomusertype_roomuserdataid s')) (type_key r' u' t') = Some (data_key r' u' c' t')"
proof -
  note ids' = account_okD(2) [OF ok A]
  show "map_of (cf (roomuserdataid_accountdata s')) (data_key r' u' c' t') = Some x'"
    using account_okD(5) [OF ok A] keys_inject(2) [OF ids' ids] other w
    by (cases "A (r, u, t)") (auto simp: account_written_def Let_def)
  show "map_of (cf (roomusertype_roomuserdataid s')) (type_key r' u' t') = Some (data_key r' u' c' t')"
    using account_okD(4) [OF ok A] keys_inject(1) [OF ids' ids] other w by (auto simp: account_written_def)
qed

lemma written_types:
  assumes ok: "account_ok vr vu A s" and w: "account_written A r u t n x s s'"
    and k: "map_of (cf (roomusertype_roomuserdataid s')) k \<noteq> None"
  shows "\<exists>r' u' t' c' x'. (A((r, u, t) \<mapsto> (n, x))) (r', u', t') = Some (c', x') \<and> k = type_key r' u' t'"
proof (cases "k = type_key r u t")
  case True
  then show ?thesis by (intro exI [of _ r] exI [of _ u] exI [of _ t]) auto
next
  case False
  then obtain v where "map_of (cf (roomusertype_roomuserdataid s)) k = Some v"
    using k w by (auto simp: account_written_def)
  then obtain r' u' t' c y where "A (r', u', t') = Some (c, y)" "k = type_key r' u' t'"
    by (rule account_ok_type_key [OF ok])
  then show ?thesis using False by (intro exI [of _ r'] exI [of _ u'] exI [of _ t']) auto
qed

lemma written_datas:
  assumes ok: "account_ok vr vu A s" and w: "account_written A r u t n x s s'"
    and k: "map_of (cf (roomuserdataid_accountdata s')) k \<noteq> None"
  shows "\<exists>r' u' t' c' x'. (A((r, u, t) \<mapsto> (n, x))) (r', u', t') = Some (c', x') \<and> k = data_key r' u' c' t'"
proof (cases "k = data_key r u n t")
  case True
  then show ?thesis by (intro exI [of _ r] exI [of _ u] exI [of _ t]) auto
next
  case False
  then obtain v where "map_of (cf (roomuserdataid_accountdata s)) k = Some v"
    using k w by (auto simp: account_written_def Let_def split: option.splits if_splits)
  then obtain r' u' t' c y where A: "A (r', u', t') = Some (c, y)" "k = data_key r' u' c t'"
    using account_ok_data_key [OF ok] by metis
  have "(r', u', t') \<noteq> (r, u, t)" using A k w False by (auto simp: account_written_def)
  then show ?thesis using A by (intro exI [of _ r'] exI [of _ u'] exI [of _ t']) auto
qed

lemma account_ok_written:
  assumes ok: "account_ok vr vu A s" and ids: "account_ids vr vu r u t" and w: "account_written A r u t n x s s'"
  shows "account_ok vr vu (A((r, u, t) \<mapsto> (n, x))) s'"
proof -
  let ?B = "A((r, u, t) \<mapsto> (n, x))"
  have n: "global_counter (ad_globals s') = n" "wf_map (roomuserdataid_accountdata s')"
      "map_of (cf (roomusertype_roomuserdataid s')) (type_key r u t) = Some (data_key r u n t)"
    using w by (simp_all add: account_written_def)
  have "account_ids vr vu r' u' t' \<and> c' \<le> global_counter (ad_globals s')
      \<and> map_of (cf (roomusertype_roomuserdataid s')) (type_key r' u' t') = Some (data_key r' u' c' t')
      \<and> map_of (cf (roomuserdataid_accountdata s')) (data_key r' u' c' t') = Some x'"
    if B: "?B (r', u', t') = Some (c', x')" for r' u' t' c' x'
  proof (cases "(r', u', t') = (r, u, t)")
    case True
    then show ?thesis using B ids n written_new [OF ok ids w] by auto
  next
    case False
    then have A: "A (r', u', t') = Some (c', x')" using B by auto
    then show ?thesis
      using written_old [OF ok ids w A False] account_okD(2) [OF ok A] written_less [OF ok w A] n(1) by simp
  qed
  then show ?thesis
    unfolding account_ok_def using n(2) written_types [OF ok w] written_datas [OF ok w] by blast
qed

section \<open>The changes since a count\<close>

lemma read_data_key:
  assumes "account_ids vr vu r u t"
  shows "deserialize_kv (account_key_ty vr vu) (DField DBytes) (data_key r u c t, x) =
    Ok (VTuple [case r of Some i \<Rightarrow> VSome (VStr i) | None \<Rightarrow> VNone, VStr u, VU64 c, VUnit], VBytes x)"
proof -
  let ?v = "case r of Some i \<Rightarrow> VSome (VStr i) | None \<Rightarrow> VNone"
  let ?ps = "[(room_bytes r, ?v), (u, VStr u), (to_be_bytes c, VU64 c), (t, VUnit)]"
  have "hd i \<noteq> SEP" if "i \<noteq> []" "valid_utf8 i" for i
    using that valid_utf8_no_sep [of i] by (metis hd_in_set)
  then have "reads_all [DOption (DStr vr), DStr vu, DU64, DIgnore] ?ps"
    using assms by (auto simp: reads_all_def account_ids_def room_bytes_def split: option.splits)
  from deserialize_records [OF this]
  have "deserialize_key (account_key_ty vr vu) (data_key r u c t) = Ok (VTuple [?v, VStr u, VU64 c, VUnit])"
    by (simp add: account_key_ty_def data_key_def user_key_def)
  moreover have "deserialize_val (DField DBytes) x = Ok (VBytes x)"
    by (simp add: deserialize_val_def from_slice_def record_trail_def de_rest_def de_start_def)
  ultimately show ?thesis by (simp add: deserialize_kv_def)
qed

text \<open>The first bytes of a key that the user's entries share, and the order of the rest.\<close>

lemma data_key_prefix:
  assumes "account_ids vr vu r u t" and "account_ids vr vu r' u' t'"
  shows "starts_with (data_key r' u' c t') (user_key r u) \<longleftrightarrow> r' = r \<and> u' = u"
  using user_key_inject [OF assms(2,1)] by (auto simp: starts_with_iff data_key_def)

lemma starts_with_data_key: "starts_with (data_key r u c t) (user_key r u)"
  by (auto simp: starts_with_iff data_key_def)

lemma data_key_from: "user_key r u @ to_be_bytes n \<le> data_key r u c t \<longleftrightarrow> n \<le> c"
proof -
  have "data_key r u c t < user_key r u @ to_be_bytes n \<longleftrightarrow> to_be_bytes c @ SEP # t < to_be_bytes n"
    unfolding data_key_def using list_less_append [of "user_key r u" "user_key r u"] by simp
  also have "\<dots> \<longleftrightarrow> to_be_bytes c < to_be_bytes n"
    using list_less_append [of "to_be_bytes c" "to_be_bytes n" "SEP # t" "[]"] by simp
  finally show ?thesis by (simp add: to_be_bytes_less_iff linorder_not_less [symmetric])
qed

lemma data_key_le: "data_key r u c t \<le> data_key r u c' t' \<Longrightarrow> c \<le> c'"
proof -
  assume "data_key r u c t \<le> data_key r u c' t'"
  then have "\<not> data_key r u c' t' < data_key r u c t" by simp
  then have "\<not> to_be_bytes c' < to_be_bytes c"
    unfolding data_key_def
    using list_less_append [of "user_key r u" "user_key r u"] list_less_append [of "to_be_bytes c'" "to_be_bytes c"]
    by simp
  then show "c \<le> c'" by (simp add: to_be_bytes_less_iff)
qed

definition count_at :: "bytes \<Rightarrow> bytes \<Rightarrow> u64" where
  "count_at pre k = from_be_bytes (take 8 (drop (length pre) k))"

definition type_at :: "bytes \<Rightarrow> bytes \<Rightarrow> bytes" where
  "type_at pre k = drop (length pre + 9) k"

lemma data_key_parts [simp]:
  "count_at (user_key r u) (data_key r u c t) = c" "type_at (user_key r u) (data_key r u c t) = t"
  by (simp_all add: count_at_def type_at_def data_key_def)

definition item_wanted :: "bytes option \<Rightarrow> bytes \<Rightarrow> u64 option \<Rightarrow> bytes \<times> bytes \<Rightarrow> bool" where
  "item_wanted r u to kv \<longleftrightarrow>
     starts_with (fst kv) (user_key r u)
     \<and> (case to of Some n \<Rightarrow> count_at (user_key r u) (fst kv) \<le> n | None \<Rightarrow> True)"

lemma account_entry:
  assumes "account_ok vr vu A s" and "kv \<in> set (cf (roomuserdataid_accountdata s))"
  obtains r u t c x where "A (r, u, t) = Some (c, x)" "kv = (data_key r u c t, x)" "account_ids vr vu r u t"
proof -
  have "map_of (cf (roomuserdataid_accountdata s)) (fst kv) = Some (snd kv)"
    using assms account_okD(1) [OF assms(1)] by (simp add: wf_map_def map_of_iff_mem)
  then obtain r u t c x where "A (r, u, t) = Some (c, x)" "fst kv = data_key r u c t" "snd kv = x"
    by (rule account_ok_data_key [OF assms(1)])
  then show ?thesis using that account_okD(2) [OF assms(1)] by (metis prod.collapse)
qed

lemma read_item:
  assumes "account_ok vr vu A s" and "kv \<in> set (cf (roomuserdataid_accountdata s))" and ids: "account_ids vr vu r u []"
  obtains d where "deserialize_kv (account_key_ty vr vu) (DField DBytes) kv = Ok (d, VBytes (snd kv))"
    "account_item r u to (d, VBytes (snd kv)) \<longleftrightarrow> item_wanted r u to kv"
proof -
  obtain r' u' t c x where kv: "A (r', u', t) = Some (c, x)" "kv = (data_key r' u' c t, x)" "account_ids vr vu r' u' t"
    by (rule account_entry [OF assms(1,2)])
  let ?d = "VTuple [case r' of Some i \<Rightarrow> VSome (VStr i) | None \<Rightarrow> VNone, VStr u', VU64 c, VUnit]"
  have "account_item r u to (?d, VBytes x) \<longleftrightarrow>
      r' = r \<and> u' = u \<and> (case to of Some n \<Rightarrow> c \<le> n | None \<Rightarrow> True)"
    by (auto split: option.splits)
  also have "\<dots> \<longleftrightarrow> item_wanted r u to kv"
    using data_key_prefix [OF ids kv(3), of c] by (auto simp: item_wanted_def kv(2) split: option.splits)
  finally show ?thesis using that [of ?d] kv read_data_key [OF kv(3)] by simp
qed

lemma ignore_err_map:
  assumes "\<And>x. x \<in> set xs \<Longrightarrow> f x = Ok (g x)"
  shows "ignore_err (map f xs) = map g xs"
  using assms by (induction xs) (simp_all add: ignore_err_def map_filter_simps)

lemma changes_since_items:
  assumes ok: "account_ok vr vu A s" and ids: "account_ids vr vu r u []"
  shows "changes_since vr vu event_ok r u since to s =
    Ok (filter event_ok (map snd (takeWhile (item_wanted r u to)
      (Map_raw_stream_from (user_key r u @ to_be_bytes (saturating_succ since)) (roomuserdataid_accountdata s)))))"
proof -
  let ?xs = "Map_raw_stream_from (user_key r u @ to_be_bytes (saturating_succ since)) (roomuserdataid_accountdata s)"
  let ?read = "deserialize_kv (account_key_ty vr vu) (DField DBytes)"
  have "\<exists>d. ?read kv = Ok (d, VBytes (snd kv)) \<and> (account_item r u to (d, VBytes (snd kv)) \<longleftrightarrow> item_wanted r u to kv)"
    if "kv \<in> set ?xs" for kv
  proof -
    have "kv \<in> set (cf (roomuserdataid_accountdata s))" using that by (simp add: Map_raw_stream_from_def)
    then show ?thesis by (rule read_item [OF ok _ ids]) blast
  qed
  then obtain d where d: "\<And>kv. kv \<in> set ?xs \<Longrightarrow> ?read kv = Ok (d kv, VBytes (snd kv))"
      "\<And>kv. kv \<in> set ?xs \<Longrightarrow> account_item r u to (d kv, VBytes (snd kv)) \<longleftrightarrow> item_wanted r u to kv"
    by metis
  have "ignore_err (map ?read ?xs) = map (\<lambda>kv. (d kv, VBytes (snd kv))) ?xs"
    using d(1) by (rule ignore_err_map)
  moreover have "takeWhile (account_item r u to) (map (\<lambda>kv. (d kv, VBytes (snd kv))) ?xs)
      = map (\<lambda>kv. (d kv, VBytes (snd kv))) (takeWhile (item_wanted r u to) ?xs)"
    unfolding takeWhile_map by (rule arg_cong [where f = "map _"], rule takeWhile_cong) (simp_all add: d(2))
  ultimately show ?thesis
    by (simp add: changes_since_def Map_stream_from_def Map_stream_from_raw_def expect_def comp_def)
qed

lemma takeWhile_wanted:
  assumes ok: "account_ok vr vu A s" and ids: "account_ids vr vu r u []"
  shows "takeWhile (item_wanted r u to) (Map_raw_stream_from (user_key r u @ to_be_bytes n) (roomuserdataid_accountdata s))
    = filter (item_wanted r u to) (Map_raw_stream_from (user_key r u @ to_be_bytes n) (roomuserdataid_accountdata s))"
proof (rule takeWhile_sorted [where f = fst])
  let ?xs = "Map_raw_stream_from (user_key r u @ to_be_bytes n) (roomuserdataid_accountdata s)"
  show "sorted (map fst ?xs)" by (simp add: Map_raw_stream_from_def sorted_filter)
  fix x y
  assume x: "x \<in> set ?xs" and y: "y \<in> set ?xs" and le: "fst x \<le> fst y" and wanted: "item_wanted r u to y"
  have mem: "x \<in> set (cf (roomuserdataid_accountdata s))" "y \<in> set (cf (roomuserdataid_accountdata s))"
    using x y by (simp_all add: Map_raw_stream_from_def)
  obtain rx ux tx cx vx where kx: "x = (data_key rx ux cx tx, vx)" "account_ids vr vu rx ux tx"
    by (rule account_entry [OF ok mem(1)])
  obtain ry uy ty cy vy where ky: "y = (data_key ry uy cy ty, vy)" "account_ids vr vu ry uy ty"
    by (rule account_entry [OF ok mem(2)])
  have "user_key r u \<le> user_key r u @ to_be_bytes n" by (rule starts_with_le) (simp add: starts_with_iff)
  also have "\<dots> \<le> fst x" using x by (simp add: Map_raw_stream_from_def)
  finally have "starts_with (fst x) (user_key r u)"
    using le wanted starts_with_between by (auto simp: item_wanted_def)
  moreover have "ry = r" "uy = u"
    using wanted data_key_prefix [OF ids ky(2)] by (auto simp: item_wanted_def ky(1))
  moreover have "rx = r" "ux = u"
    using calculation(1) data_key_prefix [OF ids kx(2)] by (auto simp: kx(1))
  ultimately show "item_wanted r u to x"
    using le wanted data_key_le [of r u cx tx cy ty] by (auto simp: item_wanted_def kx(1) ky(1) split: option.splits)
qed

lemma wanted_items:
  assumes ok: "account_ok vr vu A s" and ids: "account_ids vr vu r u []"
  shows "kv \<in> set (filter (item_wanted r u to) (Map_raw_stream_from (user_key r u @ to_be_bytes n) (roomuserdataid_accountdata s)))
    \<longleftrightarrow> (\<exists>t c x. kv = (data_key r u c t, x) \<and> A (r, u, t) = Some (c, x) \<and> n \<le> c
         \<and> (case to of Some m \<Rightarrow> c \<le> m | None \<Rightarrow> True))"
    (is "?l \<longleftrightarrow> ?r")
proof
  assume l: ?l
  then have "kv \<in> set (cf (roomuserdataid_accountdata s))" by (simp add: Map_raw_stream_from_def)
  then obtain r' u' t c x where kv: "A (r', u', t) = Some (c, x)" "kv = (data_key r' u' c t, x)" "account_ids vr vu r' u' t"
    by (rule account_entry [OF ok])
  have "r' = r" "u' = u"
    using l data_key_prefix [OF ids kv(3)] by (auto simp: item_wanted_def kv(2))
  moreover from this have "n \<le> c" "case to of Some m \<Rightarrow> c \<le> m | None \<Rightarrow> True"
    using l data_key_from [of r u n c t] by (auto simp: Map_raw_stream_from_def item_wanted_def kv(2) split: option.splits)
  ultimately show ?r using kv by blast
next
  assume ?r
  then obtain t c x where kv: "kv = (data_key r u c t, x)" "A (r, u, t) = Some (c, x)" "n \<le> c"
      "case to of Some m \<Rightarrow> c \<le> m | None \<Rightarrow> True" by blast
  have "kv \<in> set (cf (roomuserdataid_accountdata s))"
    using account_okD(5) [OF ok kv(2)] kv(1) by (auto dest: map_of_SomeD)
  moreover have "item_wanted r u to kv"
    using kv by (simp add: item_wanted_def starts_with_data_key split: option.splits)
  ultimately show ?l using kv data_key_from [of r u n c t] by (simp add: Map_raw_stream_from_def)
qed

lemma sorted_map_key:
  "sorted (map g xs) \<Longrightarrow> (\<And>x y. x \<in> set xs \<Longrightarrow> y \<in> set xs \<Longrightarrow> g x \<le> g y \<Longrightarrow> f x \<le> f y) \<Longrightarrow> sorted (map f xs)"
  by (induction xs) auto

lemma wanted_order:
  assumes ok: "account_ok vr vu A s" and ids: "account_ids vr vu r u []"
    and xs: "xs = filter (item_wanted r u to) (Map_raw_stream_from (user_key r u @ to_be_bytes n) (roomuserdataid_accountdata s))"
  shows "distinct (map (\<lambda>kv. (type_at (user_key r u) (fst kv), count_at (user_key r u) (fst kv), snd kv)) xs)"
    and "sorted (map (\<lambda>kv. count_at (user_key r u) (fst kv)) xs)"
proof -
  note mem = wanted_items [OF ok ids, of _ to n, folded xs]
  have "distinct (map fst (Map_raw_stream (roomuserdataid_accountdata s)))"
    using account_okD(1) [OF ok] by (simp add: distinct_raw_stream)
  then have "distinct xs" by (auto simp: xs Map_raw_stream_from_def distinct_map)
  moreover have "inj_on (\<lambda>kv. (type_at (user_key r u) (fst kv), count_at (user_key r u) (fst kv), snd kv)) (set xs)"
  proof (rule inj_onI)
    fix x y
    assume "x \<in> set xs" "y \<in> set xs"
    then obtain t c v t' c' v' where "x = (data_key r u c t, v)" "y = (data_key r u c' t', v')"
      unfolding mem by blast
    then show "(type_at (user_key r u) (fst x), count_at (user_key r u) (fst x), snd x)
        = (type_at (user_key r u) (fst y), count_at (user_key r u) (fst y), snd y) \<Longrightarrow> x = y" by simp
  qed
  ultimately show "distinct (map (\<lambda>kv. (type_at (user_key r u) (fst kv), count_at (user_key r u) (fst kv), snd kv)) xs)"
    by (simp add: distinct_map)
  have "sorted (map fst xs)" by (simp add: xs Map_raw_stream_from_def sorted_filter)
  then show "sorted (map (\<lambda>kv. count_at (user_key r u) (fst kv)) xs)"
  proof (rule sorted_map_key)
    fix x y
    assume "x \<in> set xs" "y \<in> set xs" and le: "fst x \<le> fst y"
    then obtain t c v t' c' v' where "x = (data_key r u c t, v)" "y = (data_key r u c' t', v')"
      unfolding mem by blast
    then show "count_at (user_key r u) (fst x) \<le> count_at (user_key r u) (fst y)"
      using le data_key_le [of r u c t c' t'] by simp
  qed
qed

lemma get_raw_view:
  assumes "account_ok vr vu A s" and "account_ids vr vu r u t"
  shows "get_raw r u t s =
    (case A (r, u, t) of Some (c, x) \<Rightarrow> Ok x | None \<Rightarrow> Err (MissingItem ''Not found in database''))"
  using account_prev [OF assms] account_okD(5) [OF assms(1)]
  by (auto simp: get_raw_def qry_type_key Map_get_def handle_from_def split: option.splits)

section \<open>Correctness\<close>

text \<open>
  C37: Account data refines one map. With the tables standing for the map \<open>A\<close> from room (or none), user
  and event type to the count and the text of the current event, \<open>update\<close> succeeds, draws the next
  count, and leaves tables that stand for \<open>A\<close> with that one entry replaced: the new text is read back,
  the replaced event is gone, and the data of every other room, user and type is read as before.
\<close>

theorem account_update_refines:
  assumes "account_ok vr vu A s" and "account_ids vr vu r u t"
    and "{''type'', ''content''} \<subseteq> set (json_members data)" and "global_counter (ad_globals s) \<noteq> - 1"
  shows "\<exists>s' B. account_update r u t data s = Ok s'
           \<and> B = A((r, u, t) \<mapsto> (global_counter (ad_globals s) + 1, json_text data))
           \<and> account_ok vr vu B s'
           \<and> (\<forall>r' u' t'. account_ids vr vu r' u' t' \<longrightarrow>
                get_raw r' u' t' s' = (case B (r', u', t') of
                  Some (c, x) \<Rightarrow> Ok x | None \<Rightarrow> Err (MissingItem ''Not found in database'')))"
proof -
  obtain s' where s': "account_update r u t data s = Ok s'"
      "account_written A r u t (global_counter (ad_globals s) + 1) (json_text data) s s'"
    by (rule account_update_written [OF assms refl])
  note ok = account_ok_written [OF assms(1,2) s'(2)]
  show ?thesis using s'(1) ok get_raw_view [OF ok] by blast
qed

definition no_account_data :: account_db where
  "no_account_data =
     \<lparr>ad_globals = \<lparr>global_map = [], global_counter = 5\<rparr>,
      roomuserdataid_accountdata = Map_open [], roomusertype_roomuserdataid = Map_open []\<rparr>"

definition sample_tags :: json_value where
  "sample_tags = \<lparr>json_text = [0x7B, 0x7D], json_members = [''type'', ''content'']\<rparr>"

lemma no_account_data_ok: "account_ok vr vu Map.empty no_account_data"
  by (simp add: account_ok_def no_account_data_def)

theorem account_update_refines_witness:
  "\<exists>s' B. account_update None [0x40] [0x74] sample_tags no_account_data = Ok s'
     \<and> B = Map.empty((None, [0x40], [0x74]) \<mapsto> (global_counter (ad_globals no_account_data) + 1, json_text sample_tags))
     \<and> account_ok (\<lambda>_. True) (\<lambda>_. True) B s'
     \<and> (\<forall>r' u' t'. account_ids (\<lambda>_. True) (\<lambda>_. True) r' u' t' \<longrightarrow>
          get_raw r' u' t' s' = (case B (r', u', t') of
            Some (c, x) \<Rightarrow> Ok x | None \<Rightarrow> Err (MissingItem ''Not found in database'')))"
  by (rule account_update_refines [OF no_account_data_ok])
    (simp_all add: account_ids_def sample_tags_def no_account_data_def SEP_def)

definition one_account :: account_map where
  "one_account = Map.empty((None, [0x40], [0x74]) \<mapsto> (6, [0x7B, 0x7D]))"

definition one_account_data :: account_db where
  "one_account_data =
     \<lparr>ad_globals = \<lparr>global_map = [], global_counter = 6\<rparr>,
      roomuserdataid_accountdata = Map_insert (data_key None [0x40] 6 [0x74]) [0x7B, 0x7D] (Map_open []),
      roomusertype_roomuserdataid = Map_insert (type_key None [0x40] [0x74]) (data_key None [0x40] 6 [0x74]) (Map_open [])\<rparr>"

lemma one_account_data_ok:
  "account_ok (\<lambda>_. True) (\<lambda>_. True) one_account one_account_data"
  unfolding one_account_def
  by (rule account_ok_written [OF no_account_data_ok])
    (simp_all add: account_ids_def SEP_def account_written_def one_account_data_def no_account_data_def)

text \<open>
  C38: The changes since a count. \<open>changes_since\<close> returns, in the order of their counts, exactly the
  current events of the given room and user that were set after \<open>since\<close> and not after \<open>to\<close>, as far as they
  parse; replaced events and the data of other users and rooms never appear.
\<close>

theorem account_changes_since:
  assumes "account_ok vr vu A s" and "account_ids vr vu r u []" and "since \<noteq> - 1"
  shows "\<exists>es. changes_since vr vu event_ok r u since to s = Ok (filter event_ok (map (\<lambda>(t, c, x). x) es))
           \<and> distinct es \<and> sorted (map (\<lambda>(t, c, x). c) es)
           \<and> set es = {(t, c, x). A (r, u, t) = Some (c, x) \<and> since < c \<and> (case to of Some n \<Rightarrow> c \<le> n | None \<Rightarrow> True)}"
proof -
  let ?P = "user_key r u"
  let ?f = "\<lambda>kv :: bytes \<times> bytes. (type_at ?P (fst kv), count_at ?P (fst kv), snd kv)"
  let ?xs = "filter (item_wanted r u to) (Map_raw_stream_from (?P @ to_be_bytes (since + 1)) (roomuserdataid_accountdata s))"
  have succ: "saturating_succ since = since + 1" using assms(3) by (simp add: saturating_succ_def)
  have after: "since + 1 \<le> c \<longleftrightarrow> since < c" for c :: u64
    using inc_le [of since c] order_less_le_trans [OF word_less_succ [OF assms(3)], of c] by blast
  have "changes_since vr vu event_ok r u since to s = Ok (filter event_ok (map (\<lambda>(t, c, x). x) (map ?f ?xs)))"
    using changes_since_items [OF assms(1,2), of event_ok since to] takeWhile_wanted [OF assms(1,2), of to "since + 1"]
    by (simp add: succ comp_def)
  moreover have "set (map ?f ?xs) = {(t, c, x). A (r, u, t) = Some (c, x) \<and> since < c
      \<and> (case to of Some n \<Rightarrow> c \<le> n | None \<Rightarrow> True)}"
    (is "_ = ?E")
  proof (intro set_eqI iffI)
    fix e
    assume "e \<in> set (map ?f ?xs)"
    then obtain kv where "kv \<in> set ?xs" "e = ?f kv" unfolding set_map by blast
    then show "e \<in> ?E" unfolding wanted_items [OF assms(1,2)] after by (auto split: option.splits)
  next
    fix e
    assume "e \<in> ?E"
    then obtain t c x where e: "e = (t, c, x)" "A (r, u, t) = Some (c, x)" "since < c"
        "case to of Some n \<Rightarrow> c \<le> n | None \<Rightarrow> True" by blast
    then have "(data_key r u c t, x) \<in> set ?xs" unfolding wanted_items [OF assms(1,2)] after by blast
    then have "?f (data_key r u c t, x) \<in> set (map ?f ?xs)" unfolding set_map by (rule imageI)
    then show "e \<in> set (map ?f ?xs)" using e(1) by simp
  qed
  moreover have counts: "map (\<lambda>(t, c, x). c) (map ?f ?xs) = map (\<lambda>kv. count_at ?P (fst kv)) ?xs"
    by (simp add: comp_def)
  have "sorted (map (\<lambda>(t, c, x). c) (map ?f ?xs))"
    unfolding counts by (rule wanted_order(2) [OF assms(1,2) refl])
  ultimately show ?thesis using wanted_order(1) [OF assms(1,2) refl] by blast
qed

theorem account_changes_since_witness:
  "\<exists>es. changes_since (\<lambda>_. True) (\<lambda>_. True) (\<lambda>_. True) None [0x40] 3 None one_account_data
      = Ok (filter (\<lambda>_. True) (map (\<lambda>(t, c, x). x) es))
    \<and> distinct es \<and> sorted (map (\<lambda>(t, c, x). c) es)
    \<and> set es = {(t, c, x). one_account (None, [0x40], t) = Some (c, x) \<and> 3 < c
                  \<and> (case None of Some n \<Rightarrow> c \<le> n | None \<Rightarrow> True)}"
  by (rule account_changes_since [OF one_account_data_ok]) (simp_all add: account_ids_def)

end
