(* ===== verification/Set_Util.thy ===== *)
theory Set_Util
  imports Prelude
begin

text \<open>
  \<open>core/utils/set.rs\<close>: intersections of sequences. The streaming intersection of two sorted sequences is
  correct; the sorted intersection of many loses elements, because peeking into an iterator takes the
  element away.
\<close>

section \<open>The functions\<close>

definition intersection :: "'a list list \<Rightarrow> 'a list" where
  "intersection input =
     (case input of [] \<Rightarrow> [] | first # others \<Rightarrow> filter (\<lambda>targ. \<forall>other \<in> set others. targ \<in> set other) first)"

text \<open>
  \<open>it.by_ref().skip_while(\<dots>).peekable().peek()\<close>: the smaller elements and the one peeked at are gone from
  the iterator. \<open>all\<close> stops at the first iterator that does not have the element.
\<close>

fun all_have :: "'a :: linorder \<Rightarrow> 'a list list \<Rightarrow> bool \<times> 'a list list" where
  "all_have targ [] = (True, [])"
| "all_have targ (it # its) =
     (case dropWhile (\<lambda>x. x < targ) it of
        [] \<Rightarrow> (False, [] # its)
      | x # rest \<Rightarrow>
          if x = targ then (let (b, its') = all_have targ its in (b, rest # its')) else (False, rest # its))"

fun sorted_filter_loop :: "'a :: linorder list \<Rightarrow> 'a list list \<Rightarrow> 'a list" where
  "sorted_filter_loop [] its = []"
| "sorted_filter_loop (targ # first) its =
     (let (b, its') = all_have targ its
      in if b then targ # sorted_filter_loop first its' else sorted_filter_loop first its')"

definition intersection_sorted :: "'a :: linorder list list \<Rightarrow> 'a list" where
  "intersection_sorted input = (case input of [] \<Rightarrow> [] | first # others \<Rightarrow> sorted_filter_loop first others)"

text \<open>\<open>while let Some(bi) = next_if(|bi| bi <= ai)\<close>, on the rest of the second stream.\<close>

fun next_until :: "'a :: linorder \<Rightarrow> 'a list \<Rightarrow> bool \<times> 'a list" where
  "next_until ai [] = (False, [])"
| "next_until ai (bi # b) =
     (if bi \<le> ai then (if ai = bi then (True, b) else next_until ai b) else (False, bi # b))"

fun intersection_sorted_stream2 :: "'a :: linorder list \<Rightarrow> 'a list \<Rightarrow> 'a list" where
  "intersection_sorted_stream2 [] b = []"
| "intersection_sorted_stream2 (ai # a) b =
     (let (found, b') = next_until ai b
      in if found then ai # intersection_sorted_stream2 a b' else intersection_sorted_stream2 a b')"

section \<open>Correctness\<close>

lemma next_until_sorted:
  "sorted b \<Longrightarrow> distinct b \<Longrightarrow>
   fst (next_until ai b) = (ai \<in> set b) \<and> set (snd (next_until ai b)) = {x \<in> set b. ai < x}
   \<and> sorted (snd (next_until ai b)) \<and> distinct (snd (next_until ai b))"
proof (induction b)
  case (Cons bi b)
  consider "bi < ai" | "bi = ai" | "ai < bi" by (rule linorder_cases)
  then show ?case using Cons by cases (auto simp: order_le_less)
qed simp

lemma intersection_stream2:
  assumes "sorted a" and "distinct a" and "sorted b" and "distinct b"
  shows "intersection_sorted_stream2 a b = filter (\<lambda>x. x \<in> set b) a"
  using assms
proof (induction a arbitrary: b)
  case (Cons ai a)
  let ?b = "snd (next_until ai b)"
  have b: "fst (next_until ai b) = (ai \<in> set b)" "set ?b = {x \<in> set b. ai < x}" "sorted ?b" "distinct ?b"
    using next_until_sorted [OF Cons.prems(3,4), of ai] by auto
  have "intersection_sorted_stream2 a ?b = filter (\<lambda>x. x \<in> set ?b) a"
    using Cons b by (intro Cons.IH) auto
  also have "\<dots> = filter (\<lambda>x. x \<in> set b) a"
    using Cons.prems(1,2) b(2) by (intro filter_cong) (auto simp: order_le_less)
  finally show ?case using b(1) by (simp add: case_prod_beta Let_def)
qed simp

text \<open>The element after one that is missing in the other sequence is lost.\<close>

lemma intersection_sorted_loses:
  "intersection_sorted [[1, 3], [3 :: nat]] = []" "intersection [[1, 3], [3 :: nat]] = [3]"
  by (simp_all add: intersection_sorted_def intersection_def)

end
