(* ===== verification/State_Cache.thy ===== *)
theory State_Cache
  imports Account_Data Set_Util
begin

text \<open>
  \<open>service/rooms/state_cache/mod.rs\<close>: who is joined to, invited to, knocking at and has left which room,
  kept in tables for both directions, with counters and the servers that take part. Identifiers are
  their UTF-8 bytes. What the service asks of \<open>service/users\<close>, \<open>service/rooms/metadata\<close> and the account
  data is part of the state.
\<close>

section \<open>Parameters and state\<close>

text \<open>
  The libraries: ruma's forms of identifiers and the server of a user, and serde's reading and writing of
  the JSON texts. \<open>create_predecessor\<close> and \<open>power_users\<close> are the contents that \<open>room_state_get_content\<close>
  returns for the create event and the power levels of a room.
\<close>

record cache_env =
  id_user :: "bytes \<Rightarrow> bool"
  id_room :: "bytes \<Rightarrow> bool"
  id_server :: "bytes \<Rightarrow> bool"
  server_name :: "bytes \<Rightarrow> bytes"
  our_server :: bytes
  forget_forced_upon_leave :: bool
  json_events :: "bytes list \<Rightarrow> bytes"
  read_events :: "bytes \<Rightarrow> svc_error + bytes list"
  read_value :: "bytes \<Rightarrow> svc_error + json_value"
  read_direct :: "bytes \<Rightarrow> svc_error + (bytes \<times> bytes list) list"
  direct_value :: "(bytes \<times> bytes list) list \<Rightarrow> json_value"
  read_ignored :: "bytes \<Rightarrow> svc_error + bytes list"
  create_predecessor :: "bytes \<Rightarrow> svc_error + bytes option"
  power_users :: "bytes \<Rightarrow> svc_error + (bytes \<times> int) list"

record cache_db =
  roomid_invitedcount :: db_map
  roomid_inviteviaservers :: db_map
  roomid_joinedcount :: db_map
  roomserverids :: db_map
  roomuserid_invitecount :: db_map
  roomuserid_joined :: db_map
  roomuserid_leftcount :: db_map
  roomuserid_knockedcount :: db_map
  roomuseroncejoinedids :: db_map
  serverroomids :: db_map
  userroomid_invitestate :: db_map
  userroomid_joined :: db_map
  userroomid_leftstate :: db_map
  userroomid_knockedstate :: db_map
  appservice_in_room_cache :: "(bytes \<times> (bytes \<times> bool) list) list"
  userid_password :: db_map
  disabledroomids :: db_map
  bannedroomids :: db_map
  sc_account :: account_db

definition bytes_of :: "string \<Rightarrow> bytes" where
  "bytes_of s = map of_char s"

definition pair :: "bytes \<Rightarrow> bytes \<Rightarrow> ser_val" where
  "pair a b = STuple [SStr a, SStr b]"

section \<open>The services it calls\<close>

definition user_is_local :: "cache_env \<Rightarrow> bytes \<Rightarrow> bool" where
  "user_is_local E user_id \<longleftrightarrow> server_name E user_id = our_server E"

definition users_exists :: "bytes \<Rightarrow> cache_db \<Rightarrow> bool" where
  "users_exists user_id s = is_ok (Map_get (userid_password s) user_id)"

text \<open>\<open>users.create(user_id, None)\<close>: the empty password of a user that is not an account here.\<close>

definition users_create :: "bytes \<Rightarrow> cache_db \<Rightarrow> cache_db" where
  "users_create user_id s = s\<lparr>userid_password := Map_insert user_id [] (userid_password s)\<rparr>"

definition is_deactivated :: "bytes \<Rightarrow> cache_db \<Rightarrow> svc_error + bool" where
  "is_deactivated user_id s =
     (case Map_get (userid_password s) user_id of
        Ok v \<Rightarrow> Ok (v = []) | Err _ \<Rightarrow> Err (MissingItem ''User does not exist.''))"

definition is_active :: "bytes \<Rightarrow> cache_db \<Rightarrow> bool" where
  "is_active user_id s = (case is_deactivated user_id s of Ok b \<Rightarrow> \<not> b | Err _ \<Rightarrow> False)"

definition user_is_ignored :: "cache_env \<Rightarrow> bytes \<Rightarrow> bytes \<Rightarrow> cache_db \<Rightarrow> bool" where
  "user_is_ignored E sender_user recipient_user s =
     (case get_global (read_ignored E) recipient_user (bytes_of ''m.ignored_user_list'') (sc_account s) of
        Ok ignored \<Rightarrow> sender_user \<in> set ignored | Err _ \<Rightarrow> False)"

definition is_disabled :: "bytes \<Rightarrow> cache_db \<Rightarrow> bool" where
  "is_disabled room_id s = is_ok (Map_get (disabledroomids s) room_id)"

definition is_banned :: "bytes \<Rightarrow> cache_db \<Rightarrow> bool" where
  "is_banned room_id s = is_ok (Map_get (bannedroomids s) room_id)"

definition disable_room :: "bytes \<Rightarrow> bool \<Rightarrow> cache_db \<Rightarrow> cache_db" where
  "disable_room room_id disabled s =
     s\<lparr>disabledroomids := (if disabled then Map_insert room_id [] else Map_remove room_id) (disabledroomids s)\<rparr>"

definition ban_room :: "bytes \<Rightarrow> bool \<Rightarrow> cache_db \<Rightarrow> cache_db" where
  "ban_room room_id banned s =
     s\<lparr>bannedroomids := (if banned then Map_insert room_id [] else Map_remove room_id) (bannedroomids s)\<rparr>"

text \<open>The counter of the server, \<open>globals.next_count().unwrap()\<close>.\<close>

definition cache_next_count :: "cache_db \<Rightarrow> svc_error + (u64 \<times> cache_db)" where
  "cache_next_count s =
     try_bind (next_count (ad_globals (sc_account s))) (\<lambda>(n, g).
       Ok (n, s\<lparr>sc_account := (sc_account s)\<lparr>ad_globals := g\<rparr>\<rparr>))"

section \<open>Changing a membership\<close>

definition mark_as_joined :: "bytes \<Rightarrow> bytes \<Rightarrow> cache_db \<Rightarrow> svc_error + cache_db" where
  "mark_as_joined user_id room_id s =
     try_bind (expect ''failed to serialize userroom_id'' (serialize_key (pair user_id room_id))) (\<lambda>userroom_id.
     try_bind (expect ''failed to serialize roomuser_id'' (serialize_key (pair room_id user_id))) (\<lambda>roomuser_id.
     Ok (s\<lparr>userroomid_joined := Map_insert userroom_id [] (userroomid_joined s),
           roomuserid_joined := Map_insert roomuser_id [] (roomuserid_joined s),
           userroomid_invitestate := Map_remove userroom_id (userroomid_invitestate s),
           roomuserid_invitecount := Map_remove roomuser_id (roomuserid_invitecount s),
           userroomid_leftstate := Map_remove userroom_id (userroomid_leftstate s),
           roomuserid_leftcount := Map_remove roomuser_id (roomuserid_leftcount s),
           userroomid_knockedstate := Map_remove userroom_id (userroomid_knockedstate s),
           roomuserid_knockedcount := Map_remove roomuser_id (roomuserid_knockedcount s),
           roomid_inviteviaservers := Map_remove room_id (roomid_inviteviaservers s)\<rparr>)))"

definition mark_as_left :: "cache_env \<Rightarrow> bytes \<Rightarrow> bytes \<Rightarrow> cache_db \<Rightarrow> svc_error + cache_db" where
  "mark_as_left E user_id room_id s =
     try_bind (expect ''failed to serialize userroom_id'' (serialize_key (pair user_id room_id))) (\<lambda>userroom_id.
     try_bind (expect ''failed to serialize roomuser_id'' (serialize_key (pair room_id user_id))) (\<lambda>roomuser_id.
     try_bind (Map_raw_put userroom_id (SNewtype ''Json'' (Some (json_events E []))) (userroomid_leftstate s)) (\<lambda>leftstate.
     try_bind (cache_next_count s) (\<lambda>(n, s).
     try_bind (Map_raw_aput 8 roomuser_id (SU64 n) (roomuserid_leftcount s)) (\<lambda>leftcount.
     Ok (s\<lparr>userroomid_leftstate := leftstate,
           roomuserid_leftcount := leftcount,
           userroomid_joined := Map_remove userroom_id (userroomid_joined s),
           roomuserid_joined := Map_remove roomuser_id (roomuserid_joined s),
           userroomid_invitestate := Map_remove userroom_id (userroomid_invitestate s),
           roomuserid_invitecount := Map_remove roomuser_id (roomuserid_invitecount s),
           userroomid_knockedstate := Map_remove userroom_id (userroomid_knockedstate s),
           roomuserid_knockedcount := Map_remove roomuser_id (roomuserid_knockedcount s),
           roomid_inviteviaservers := Map_remove room_id (roomid_inviteviaservers s)\<rparr>))))))"

definition mark_as_knocked :: "cache_env \<Rightarrow> bytes \<Rightarrow> bytes \<Rightarrow> bytes list option \<Rightarrow> cache_db \<Rightarrow> svc_error + cache_db" where
  "mark_as_knocked E user_id room_id knocked_state s =
     try_bind (expect ''failed to serialize userroom_id'' (serialize_key (pair user_id room_id))) (\<lambda>userroom_id.
     try_bind (expect ''failed to serialize roomuser_id'' (serialize_key (pair room_id user_id))) (\<lambda>roomuser_id.
     try_bind (Map_raw_put userroom_id
         (SNewtype ''Json'' (Some (json_events E (case knocked_state of Some es \<Rightarrow> es | None \<Rightarrow> []))))
         (userroomid_knockedstate s)) (\<lambda>knockedstate.
     try_bind (cache_next_count s) (\<lambda>(n, s).
     try_bind (Map_raw_aput 8 roomuser_id (SU64 n) (roomuserid_knockedcount s)) (\<lambda>knockedcount.
     Ok (s\<lparr>userroomid_knockedstate := knockedstate,
           roomuserid_knockedcount := knockedcount,
           userroomid_joined := Map_remove userroom_id (userroomid_joined s),
           roomuserid_joined := Map_remove roomuser_id (roomuserid_joined s),
           userroomid_invitestate := Map_remove userroom_id (userroomid_invitestate s),
           roomuserid_invitecount := Map_remove roomuser_id (roomuserid_invitecount s),
           userroomid_leftstate := Map_remove userroom_id (userroomid_leftstate s),
           roomuserid_leftcount := Map_remove roomuser_id (roomuserid_leftcount s),
           roomid_inviteviaservers := Map_remove room_id (roomid_inviteviaservers s)\<rparr>))))))"

definition cache_forget :: "bytes \<Rightarrow> bytes \<Rightarrow> cache_db \<Rightarrow> svc_error + cache_db" where
  "cache_forget room_id user_id s =
     try_bind (Map_del (pair user_id room_id) (userroomid_leftstate s)) (\<lambda>leftstate.
     try_bind (Map_del (pair room_id user_id) (roomuserid_leftcount s)) (\<lambda>leftcount.
     Ok (s\<lparr>userroomid_leftstate := leftstate, roomuserid_leftcount := leftcount\<rparr>)))"

text \<open>The last of the servers stored for a key that starts with the room.\<close>

fun last_server :: "de_val \<Rightarrow> svc_error + bytes" where
  "last_server (VTuple vs) =
     (case rev vs of VStr b # _ \<Rightarrow> Ok b | _ \<Rightarrow> Err (Panicked ''at least one server''))"
| "last_server _ = Err (Panicked ''at least one server'')"

fun collect_ok :: "('a \<Rightarrow> svc_error + 'b) \<Rightarrow> 'a list \<Rightarrow> svc_error + 'b list" where
  "collect_ok f [] = Ok []"
| "collect_ok f (x # xs) = try_bind (f x) (\<lambda>y. try_bind (collect_ok f xs) (\<lambda>ys. Ok (y # ys)))"

definition servers_invite_via :: "cache_env \<Rightarrow> bytes \<Rightarrow> cache_db \<Rightarrow> svc_error + bytes list" where
  "servers_invite_via E room_id s =
     collect_ok (\<lambda>kv. last_server (snd kv))
       (ignore_err (Map_stream_raw_prefix (DField DIgnore) (DSeq (DStr (id_server E))) room_id (roomid_inviteviaservers s)))"

definition add_servers_invite_via :: "cache_env \<Rightarrow> bytes \<Rightarrow> bytes list \<Rightarrow> cache_db \<Rightarrow> svc_error + cache_db" where
  "add_servers_invite_via E room_id new_servers s =
     try_bind (servers_invite_via E room_id s) (\<lambda>known.
     let servers = remdups_adj (sort (known @ new_servers)) in
     Ok (s\<lparr>roomid_inviteviaservers := Map_insert room_id (sep_join servers) (roomid_inviteviaservers s)\<rparr>))"

text \<open>\<open>mark_as_invited\<close>: the writes for the user, then the servers to go through.\<close>

definition write_invite :: "cache_env \<Rightarrow> bytes \<Rightarrow> bytes \<Rightarrow> bytes list option \<Rightarrow> cache_db \<Rightarrow> svc_error + cache_db" where
  "write_invite E user_id room_id last_state s =
     try_bind (expect ''failed to serialize roomuser_id'' (serialize_key (pair room_id user_id))) (\<lambda>roomuser_id.
     try_bind (expect ''failed to serialize userroom_id'' (serialize_key (pair user_id room_id))) (\<lambda>userroom_id.
     try_bind (Map_raw_put userroom_id
         (SNewtype ''Json'' (Some (json_events E (case last_state of Some es \<Rightarrow> es | None \<Rightarrow> []))))
         (userroomid_invitestate s)) (\<lambda>invitestate.
     try_bind (cache_next_count s) (\<lambda>(n, s).
     try_bind (Map_raw_aput 8 roomuser_id (SU64 n) (roomuserid_invitecount s)) (\<lambda>invitecount.
     Ok (s\<lparr>userroomid_invitestate := invitestate,
           roomuserid_invitecount := invitecount,
           userroomid_joined := Map_remove userroom_id (userroomid_joined s),
           roomuserid_joined := Map_remove roomuser_id (roomuserid_joined s),
           userroomid_leftstate := Map_remove userroom_id (userroomid_leftstate s),
           roomuserid_leftcount := Map_remove roomuser_id (roomuserid_leftcount s),
           userroomid_knockedstate := Map_remove userroom_id (userroomid_knockedstate s),
           roomuserid_knockedcount := Map_remove roomuser_id (roomuserid_knockedcount s)\<rparr>))))))"

definition mark_as_invited ::
    "cache_env \<Rightarrow> bytes \<Rightarrow> bytes \<Rightarrow> bytes list option \<Rightarrow> bytes list option \<Rightarrow> cache_db \<Rightarrow> svc_error + cache_db" where
  "mark_as_invited E user_id room_id last_state invite_via s =
     try_bind (write_invite E user_id room_id last_state s) (\<lambda>s.
     case invite_via of
       Some (server # servers) \<Rightarrow> add_servers_invite_via E room_id (server # servers) s
     | _ \<Rightarrow> Ok s)"

definition mark_as_once_joined :: "bytes \<Rightarrow> bytes \<Rightarrow> cache_db \<Rightarrow> svc_error + cache_db" where
  "mark_as_once_joined user_id room_id s =
     try_bind (Map_put_raw (pair user_id room_id) [] (roomuseroncejoinedids s)) (\<lambda>m.
     Ok (s\<lparr>roomuseroncejoinedids := m\<rparr>))"

section \<open>Looking up memberships\<close>

definition once_joined :: "bytes \<Rightarrow> bytes \<Rightarrow> cache_db \<Rightarrow> bool" where
  "once_joined user_id room_id s = is_ok (Map_qry (roomuseroncejoinedids s) (pair user_id room_id))"

definition is_joined :: "bytes \<Rightarrow> bytes \<Rightarrow> cache_db \<Rightarrow> bool" where
  "is_joined user_id room_id s = is_ok (Map_qry (userroomid_joined s) (pair user_id room_id))"

definition is_knocked :: "bytes \<Rightarrow> bytes \<Rightarrow> cache_db \<Rightarrow> bool" where
  "is_knocked user_id room_id s = is_ok (Map_qry (userroomid_knockedstate s) (pair user_id room_id))"

definition is_invited :: "bytes \<Rightarrow> bytes \<Rightarrow> cache_db \<Rightarrow> bool" where
  "is_invited user_id room_id s = is_ok (Map_qry (userroomid_invitestate s) (pair user_id room_id))"

definition is_left :: "bytes \<Rightarrow> bytes \<Rightarrow> cache_db \<Rightarrow> bool" where
  "is_left user_id room_id s = is_ok (Map_qry (userroomid_leftstate s) (pair user_id room_id))"

definition user_membership :: "bytes \<Rightarrow> bytes \<Rightarrow> cache_db \<Rightarrow> membership option" where
  "user_membership user_id room_id s =
     (if is_joined user_id room_id s then Some Join
      else if is_left user_id room_id s then Some Leave
      else if is_knocked user_id room_id s then Some Knock
      else if is_invited user_id room_id s then Some Invite
      else if once_joined user_id room_id s then Some Ban
      else None)"

text \<open>\<open>.qry(&key).await.deserialized()\<close> of a \<open>u64\<close>.\<close>

definition deserialized_u64 :: "svc_error + bytes \<Rightarrow> svc_error + u64" where
  "deserialized_u64 r =
     try_bind r (\<lambda>bs. try_bind (deserialize_val (DField DU64) bs) (\<lambda>v.
       case v of VU64 n \<Rightarrow> Ok n | _ \<Rightarrow> Err (SerdeDe ''u64'')))"

definition get_invite_count :: "bytes \<Rightarrow> bytes \<Rightarrow> cache_db \<Rightarrow> svc_error + u64" where
  "get_invite_count room_id user_id s = deserialized_u64 (Map_qry (roomuserid_invitecount s) (pair room_id user_id))"

definition get_knock_count :: "bytes \<Rightarrow> bytes \<Rightarrow> cache_db \<Rightarrow> svc_error + u64" where
  "get_knock_count room_id user_id s = deserialized_u64 (Map_qry (roomuserid_knockedcount s) (pair room_id user_id))"

definition get_left_count :: "bytes \<Rightarrow> bytes \<Rightarrow> cache_db \<Rightarrow> svc_error + u64" where
  "get_left_count room_id user_id s = deserialized_u64 (Map_qry (roomuserid_leftcount s) (pair room_id user_id))"

definition room_joined_count :: "bytes \<Rightarrow> cache_db \<Rightarrow> svc_error + u64" where
  "room_joined_count room_id s = deserialized_u64 (Map_get (roomid_joinedcount s) room_id)"

definition room_invited_count :: "bytes \<Rightarrow> cache_db \<Rightarrow> svc_error + u64" where
  "room_invited_count room_id s = deserialized_u64 (Map_get (roomid_invitedcount s) room_id)"

text \<open>The stripped state kept with an invite, a knock or a departure.\<close>

definition stored_state :: "cache_env \<Rightarrow> db_map \<Rightarrow> bytes \<Rightarrow> bytes \<Rightarrow> svc_error + bytes list" where
  "stored_state E m user_id room_id =
     try_bind (Map_qry m (pair user_id room_id)) (\<lambda>bs.
     try_bind (deserialize_val (DField (DString (\<lambda>_. True))) bs) (\<lambda>v.
       case v of VStr txt \<Rightarrow> read_events E txt | _ \<Rightarrow> Err (SerdeDe ''raw'')))"

definition invite_state :: "cache_env \<Rightarrow> bytes \<Rightarrow> bytes \<Rightarrow> cache_db \<Rightarrow> svc_error + bytes list" where
  "invite_state E user_id room_id s = stored_state E (userroomid_invitestate s) user_id room_id"

definition knock_state :: "cache_env \<Rightarrow> bytes \<Rightarrow> bytes \<Rightarrow> cache_db \<Rightarrow> svc_error + bytes list" where
  "knock_state E user_id room_id s = stored_state E (userroomid_knockedstate s) user_id room_id"

definition left_state :: "cache_env \<Rightarrow> bytes \<Rightarrow> bytes \<Rightarrow> cache_db \<Rightarrow> svc_error + bytes list" where
  "left_state E user_id room_id s = stored_state E (userroomid_leftstate s) user_id room_id"

section \<open>Streams\<close>

definition room_servers :: "cache_env \<Rightarrow> bytes \<Rightarrow> cache_db \<Rightarrow> svc_error + bytes list" where
  "room_servers E room_id s = scan_second (id_server E) (roomserverids s) room_id"

definition server_in_room :: "bytes \<Rightarrow> bytes \<Rightarrow> cache_db \<Rightarrow> bool" where
  "server_in_room server room_id s = is_ok (Map_qry (serverroomids s) (pair server room_id))"

definition server_rooms :: "cache_env \<Rightarrow> bytes \<Rightarrow> cache_db \<Rightarrow> svc_error + bytes list" where
  "server_rooms E server s = scan_second (id_room E) (serverroomids s) server"

definition server_sees_user :: "cache_env \<Rightarrow> bytes \<Rightarrow> bytes \<Rightarrow> cache_db \<Rightarrow> svc_error + bool" where
  "server_sees_user E server user_id s =
     try_bind (server_rooms E server s) (\<lambda>rooms. Ok (list_ex (\<lambda>room_id. is_joined user_id room_id s) rooms))"

definition room_members :: "cache_env \<Rightarrow> bytes \<Rightarrow> cache_db \<Rightarrow> svc_error + bytes list" where
  "room_members E room_id s = scan_second (id_user E) (roomuserid_joined s) room_id"

definition room_members_invited :: "cache_env \<Rightarrow> bytes \<Rightarrow> cache_db \<Rightarrow> svc_error + bytes list" where
  "room_members_invited E room_id s = scan_second (id_user E) (roomuserid_invitecount s) room_id"

definition room_members_knocked :: "cache_env \<Rightarrow> bytes \<Rightarrow> cache_db \<Rightarrow> svc_error + bytes list" where
  "room_members_knocked E room_id s = scan_second (id_user E) (roomuserid_knockedcount s) room_id"

definition room_useroncejoined :: "cache_env \<Rightarrow> bytes \<Rightarrow> cache_db \<Rightarrow> svc_error + bytes list" where
  "room_useroncejoined E room_id s = scan_second (id_user E) (roomuseroncejoinedids s) room_id"

definition local_users_in_room :: "cache_env \<Rightarrow> bytes \<Rightarrow> cache_db \<Rightarrow> svc_error + bytes list" where
  "local_users_in_room E room_id s =
     try_bind (room_members E room_id s) (\<lambda>users. Ok (filter (user_is_local E) users))"

definition active_local_users_in_room :: "cache_env \<Rightarrow> bytes \<Rightarrow> cache_db \<Rightarrow> svc_error + bytes list" where
  "active_local_users_in_room E room_id s =
     try_bind (local_users_in_room E room_id s) (\<lambda>users. Ok (filter (\<lambda>user. is_active user s) users))"

text \<open>\<open>rooms_joined\<close> scans the raw bytes of the user identifier, without a separator.\<close>

definition rooms_joined :: "cache_env \<Rightarrow> bytes \<Rightarrow> cache_db \<Rightarrow> bytes list" where
  "rooms_joined E user_id s =
     map second_of (ignore_err (Map_keys_raw_prefix (second_ty (id_room E)) user_id (userroomid_joined s)))"

definition get_shared_rooms :: "cache_env \<Rightarrow> bytes \<Rightarrow> bytes \<Rightarrow> cache_db \<Rightarrow> bytes list" where
  "get_shared_rooms E user_a user_b s = intersection_sorted_stream2 (rooms_joined E user_a s) (rooms_joined E user_b s)"

definition user_sees_user :: "cache_env \<Rightarrow> bytes \<Rightarrow> bytes \<Rightarrow> cache_db \<Rightarrow> bool" where
  "user_sees_user E user_a user_b s \<longleftrightarrow> get_shared_rooms E user_a user_b s \<noteq> []"

text \<open>The streams of rooms with the state stored for the user.\<close>

fun room_with_state :: "cache_env \<Rightarrow> de_val \<times> de_val \<Rightarrow> svc_error + (bytes \<times> bytes list)" where
  "room_with_state E (VTuple [_, VStr room_id], VStr txt) =
     try_bind (read_events E txt) (\<lambda>events. Ok (room_id, events))"
| "room_with_state E _ = Err (SerdeDe ''raw'')"

definition rooms_with_state :: "cache_env \<Rightarrow> db_map \<Rightarrow> bytes \<Rightarrow> svc_error + (bytes \<times> bytes list) list" where
  "rooms_with_state E m user_id =
     try_bind (Map_stream_prefix (DTuple [DStr (id_user E), DStr (id_room E)]) (DField (DString (\<lambda>_. True)))
         (STuple [SStr user_id, Interfix]) m) (\<lambda>items.
       Ok (ignore_err (map (room_with_state E) (ignore_err items))))"

definition rooms_invited :: "cache_env \<Rightarrow> bytes \<Rightarrow> cache_db \<Rightarrow> svc_error + (bytes \<times> bytes list) list" where
  "rooms_invited E user_id s = rooms_with_state E (userroomid_invitestate s) user_id"

definition rooms_knocked :: "cache_env \<Rightarrow> bytes \<Rightarrow> cache_db \<Rightarrow> svc_error + (bytes \<times> bytes list) list" where
  "rooms_knocked E user_id s = rooms_with_state E (userroomid_knockedstate s) user_id"

definition rooms_left :: "cache_env \<Rightarrow> bytes \<Rightarrow> cache_db \<Rightarrow> svc_error + (bytes \<times> bytes list) list" where
  "rooms_left E user_id s = rooms_with_state E (userroomid_leftstate s) user_id"

section \<open>Routing and application services\<close>

text \<open>\<open>max_by_key\<close> returns the last of the greatest elements.\<close>

fun max_by_power :: "(bytes \<times> int) list \<Rightarrow> (bytes \<times> int) option" where
  "max_by_power [] = None"
| "max_by_power (x # xs) =
     (case max_by_power xs of Some y \<Rightarrow> if snd x \<le> snd y then Some y else Some x | None \<Rightarrow> Some x)"

definition most_powerful_server :: "cache_env \<Rightarrow> bytes \<Rightarrow> bytes option" where
  "most_powerful_server E room_id =
     (case power_users E room_id of
        Ok users \<Rightarrow>
          (case max_by_power users of
             Some (user, level) \<Rightarrow> if 50 \<le> level then Some (server_name E user) else None
           | None \<Rightarrow> None)
      | Err _ \<Rightarrow> None)"

text \<open>\<open>hash_order\<close> is the order in which the hash map of the counts is iterated.\<close>

definition counts_by :: "('a \<Rightarrow> 'b) \<Rightarrow> 'a list \<Rightarrow> ('b \<times> nat) list" where
  "counts_by f xs =
     fold (\<lambda>x m. AList.update (f x) (case map_of m (f x) of Some n \<Rightarrow> n + 1 | None \<Rightarrow> 1) m) xs []"

definition servers_route_via ::
    "((bytes \<times> nat) list \<Rightarrow> (bytes \<times> nat) list) \<Rightarrow> cache_env \<Rightarrow> bytes \<Rightarrow> cache_db \<Rightarrow> svc_error + bytes list" where
  "servers_route_via hash_order E room_id s =
     try_bind (room_members E room_id s) (\<lambda>members.
     let servers = take 5 (rev (map fst (sort_key snd (hash_order (counts_by (server_name E) members))))) in
     Ok (case most_powerful_server E room_id of
           Some server \<Rightarrow> take 5 (server # servers)
         | None \<Rightarrow> servers))"

text \<open>
  An application service: its identifier, the user identifier made of its sender, if it parses, and the
  users it matches.
\<close>

record appservice =
  as_id :: bytes
  as_bridge_user :: "bytes option"
  as_is_match :: "bytes \<Rightarrow> bool"

definition appservice_in_room :: "cache_env \<Rightarrow> bytes \<Rightarrow> appservice \<Rightarrow> cache_db \<Rightarrow> svc_error + (bool \<times> cache_db)" where
  "appservice_in_room E room_id appservice s =
     (case Option.bind (map_of (appservice_in_room_cache s) room_id) (\<lambda>m. map_of m (as_id appservice)) of
        Some cached \<Rightarrow> Ok (cached, s)
      | None \<Rightarrow>
          (case as_bridge_user appservice of
             None \<Rightarrow> Ok (False, s)
           | Some bridge_user_id \<Rightarrow>
               try_bind (room_members E room_id s) (\<lambda>members.
               let in_room = is_joined bridge_user_id room_id s \<or> list_ex (as_is_match appservice) members;
                   entry = (case map_of (appservice_in_room_cache s) room_id of Some m \<Rightarrow> m | None \<Rightarrow> []) in
               Ok (in_room,
                   s\<lparr>appservice_in_room_cache :=
                       AList.update room_id (AList.update (as_id appservice) in_room entry)
                         (appservice_in_room_cache s)\<rparr>))))"

definition clear_appservice_in_room_cache :: "cache_db \<Rightarrow> cache_db" where
  "clear_appservice_in_room_cache s = s\<lparr>appservice_in_room_cache := []\<rparr>"

section \<open>Counting\<close>

definition usize_u64 :: "nat \<Rightarrow> u64" where
  "usize_u64 n = (if n < 2 ^ 64 then word_of_nat n else 0)"

definition joined_servers_of :: "cache_env \<Rightarrow> bytes list \<Rightarrow> bytes list" where
  "joined_servers_of E members = fold (\<lambda>joined. List.insert (server_name E joined)) members []"

text \<open>The servers that were in the room and are not any more are deleted, the others are not new.\<close>

fun sweep_servers :: "bytes \<Rightarrow> bytes list \<Rightarrow> bytes list \<Rightarrow> cache_db \<Rightarrow> svc_error + (bytes list \<times> cache_db)" where
  "sweep_servers room_id [] joined_servers s = Ok (joined_servers, s)"
| "sweep_servers room_id (old # olds) joined_servers s =
     (if old \<in> set joined_servers then sweep_servers room_id olds (removeAll old joined_servers) s
      else
        try_bind (Map_del (pair room_id old) (roomserverids s)) (\<lambda>m.
        try_bind (Map_del (pair old room_id) (serverroomids s)) (\<lambda>m'.
          sweep_servers room_id olds joined_servers (s\<lparr>roomserverids := m, serverroomids := m'\<rparr>))))"

fun add_servers :: "bytes \<Rightarrow> bytes list \<Rightarrow> cache_db \<Rightarrow> svc_error + cache_db" where
  "add_servers room_id [] s = Ok s"
| "add_servers room_id (server # servers) s =
     try_bind (Map_put_raw (pair room_id server) [] (roomserverids s)) (\<lambda>m.
     try_bind (Map_put_raw (pair server room_id) [] (serverroomids s)) (\<lambda>m'.
       add_servers room_id servers (s\<lparr>roomserverids := m, serverroomids := m'\<rparr>)))"

definition update_joined_count :: "cache_env \<Rightarrow> bytes \<Rightarrow> cache_db \<Rightarrow> svc_error + cache_db" where
  "update_joined_count E room_id s =
     try_bind (room_members E room_id s) (\<lambda>members.
     try_bind (room_members_invited E room_id s) (\<lambda>invited.
     try_bind (room_members_knocked E room_id s) (\<lambda>knocked.
     let joinedcount = fold (\<lambda>_. saturating_succ) members 0 in
     try_bind (Map_raw_put room_id (SU64 joinedcount) (roomid_joinedcount s)) (\<lambda>joined_m.
     try_bind (Map_raw_put room_id (SU64 (usize_u64 (length invited))) (roomid_invitedcount s)) (\<lambda>invited_m.
     try_bind (Map_raw_put room_id (SU64 (usize_u64 (length knocked))) (roomuserid_knockedcount s)) (\<lambda>knocked_m.
     let s = s\<lparr>roomid_joinedcount := joined_m, roomid_invitedcount := invited_m,
               roomuserid_knockedcount := knocked_m\<rparr> in
     try_bind (room_servers E room_id s) (\<lambda>olds.
     try_bind (sweep_servers room_id olds (joined_servers_of E members) s) (\<lambda>(new_servers, s).
     try_bind (add_servers room_id new_servers s) (\<lambda>s.
       Ok (s\<lparr>appservice_in_room_cache := AList.delete room_id (appservice_in_room_cache s)\<rparr>))))))))))"

section \<open>A membership event\<close>

definition push_room :: "bytes \<Rightarrow> bytes \<Rightarrow> (bytes \<times> bytes list) list \<Rightarrow> (bytes \<times> bytes list) list" where
  "push_room old_room room_id direct =
     map (\<lambda>(user, rooms). (user, if old_room \<in> set rooms then rooms @ [room_id] else rooms)) direct"

text \<open>
  The first join of a room that replaces another one: tags and the direct chat flag are copied. Errors
  of the copy of the tags are dropped, a panic is not.
\<close>

definition copy_tags :: "cache_env \<Rightarrow> bytes \<Rightarrow> bytes \<Rightarrow> bytes \<Rightarrow> account_db \<Rightarrow> svc_error + account_db" where
  "copy_tags E old_room room_id user_id a =
     (case get_room (read_value E) old_room user_id (bytes_of ''m.tag'') a of
        Ok tag_event \<Rightarrow>
          (case account_update (Some room_id) user_id (bytes_of ''m.tag'') tag_event a of
             Ok a' \<Rightarrow> Ok a'
           | Err (Panicked msg) \<Rightarrow> Err (Panicked msg)
           | Err _ \<Rightarrow> Ok a)
      | Err _ \<Rightarrow> Ok a)"

definition copy_direct :: "cache_env \<Rightarrow> bytes \<Rightarrow> bytes \<Rightarrow> bytes \<Rightarrow> account_db \<Rightarrow> svc_error + account_db" where
  "copy_direct E old_room room_id user_id a =
     (case get_global (read_direct E) user_id (bytes_of ''m.direct'') a of
        Ok direct \<Rightarrow>
          if list_ex (\<lambda>(_, rooms). old_room \<in> set rooms) direct
          then account_update None user_id (bytes_of ''m.direct'') (direct_value E (push_room old_room room_id direct)) a
          else Ok a
      | Err _ \<Rightarrow> Ok a)"

definition first_join :: "cache_env \<Rightarrow> bytes \<Rightarrow> bytes \<Rightarrow> cache_db \<Rightarrow> svc_error + cache_db" where
  "first_join E user_id room_id s =
     (if once_joined user_id room_id s then Ok s
      else
        try_bind (mark_as_once_joined user_id room_id s) (\<lambda>s.
        case create_predecessor E room_id of
          Ok (Some old_room) \<Rightarrow>
            try_bind (copy_tags E old_room room_id user_id (sc_account s)) (\<lambda>a.
            try_bind (copy_direct E old_room room_id user_id a) (\<lambda>a.
            Ok (s\<lparr>sc_account := a\<rparr>)))
        | _ \<Rightarrow> Ok s))"

definition apply_membership ::
    "cache_env \<Rightarrow> bytes \<Rightarrow> bytes \<Rightarrow> membership \<Rightarrow> bytes \<Rightarrow> bytes list option \<Rightarrow> bytes list option \<Rightarrow> cache_db
     \<Rightarrow> svc_error + (bool \<times> cache_db)" where
  "apply_membership E room_id user_id m sender last_state invite_via s =
     (case m of
        Join \<Rightarrow>
          try_bind (first_join E user_id room_id s) (\<lambda>s.
          try_bind (mark_as_joined user_id room_id s) (\<lambda>s. Ok (True, s)))
      | Invite \<Rightarrow>
          if user_is_ignored E sender user_id s then Ok (False, s)
          else try_bind (mark_as_invited E user_id room_id last_state invite_via s) (\<lambda>s. Ok (True, s))
      | Knock \<Rightarrow> Ok (True, s)
      | CustomMembership _ \<Rightarrow> Ok (True, s)
      | _ \<Rightarrow>
          try_bind (mark_as_left E user_id room_id s) (\<lambda>s.
          if user_is_local E user_id
             \<and> (forget_forced_upon_leave E \<or> is_banned room_id s \<or> is_disabled room_id s)
          then try_bind (cache_forget room_id user_id s) (\<lambda>s. Ok (True, s))
          else Ok (True, s)))"

definition update_membership ::
    "cache_env \<Rightarrow> bytes \<Rightarrow> bytes \<Rightarrow> membership \<Rightarrow> bytes \<Rightarrow> bytes list option \<Rightarrow> bytes list option \<Rightarrow> bool \<Rightarrow> cache_db
     \<Rightarrow> svc_error + cache_db" where
  "update_membership E room_id user_id m sender last_state invite_via joined_count s =
     (let s = (if \<not> user_is_local E user_id \<and> \<not> users_exists user_id s then users_create user_id s else s) in
      try_bind (apply_membership E room_id user_id m sender last_state invite_via s) (\<lambda>(go_on, s).
        if go_on \<and> joined_count then update_joined_count E room_id s else Ok s))"

end
