(* ===== verification/State_Cache_Props.thy ===== *)
theory State_Cache_Props
  imports State_Cache
begin

text \<open>
  The membership tables refine one status per user and room: every membership event sets the status of
  its user in its room and no other, both directions of every table agree, and the counters and the
  servers of a room follow from its members.
\<close>

section \<open>Operations on pairs\<close>

lemma serialize_pair_key [simp]: "serialize_key (pair a b) = Ok (pair_key a b)"
  by (simp add: pair_def)

lemma pair_ops [simp]:
  "Map_del (pair a b) m = Ok (pair_del a b m)"
  "Map_put_raw (pair a b) v m = Ok (pair_put a b v m)"
  "Map_raw_put k (SU64 n) m = Ok (Map_insert k (to_be_bytes n) m)"
  "Map_raw_put k (SNewtype ''Json'' (Some x)) m = Ok (Map_insert k x m)"
  "Map_raw_aput 8 k (SU64 n) m = Ok (Map_insert k (to_be_bytes n) m)"
  by (simp_all add: Map_del_def Map_bdel_def Map_put_raw_def Map_bput_raw_def Map_raw_put_def Map_raw_aput_def
      Map_raw_bput_def serialize_Nil expect_def pair_del_def pair_put_def)
    (simp_all add: serialize_def ser_write_def serialize_key_def serialize_to_def serialize_newtype_struct_def)

lemma expect_Ok [simp]: "expect msg (Ok x) = Ok x"
  by (simp add: expect_def)

lemmas fold_pair = pair_put_def [symmetric] pair_del_def [symmetric]

lemma is_status:
  "is_joined u r s = pair_has (userroomid_joined s) u r"
  "is_left u r s = pair_has (userroomid_leftstate s) u r"
  "is_knocked u r s = pair_has (userroomid_knockedstate s) u r"
  "is_invited u r s = pair_has (userroomid_invitestate s) u r"
  by (simp_all add: is_joined_def is_left_def is_knocked_def is_invited_def pair_has_def pair_def)

section \<open>The invariant\<close>

definition cache_tables :: "cache_env \<Rightarrow> cache_db \<Rightarrow> bool" where
  "cache_tables E s \<longleftrightarrow>
     mirror_tables (id_user E) (id_room E) (userroomid_joined s) (roomuserid_joined s) \<and>
     mirror_tables (id_user E) (id_room E) (userroomid_invitestate s) (roomuserid_invitecount s) \<and>
     mirror_tables (id_user E) (id_room E) (userroomid_leftstate s) (roomuserid_leftcount s) \<and>
     mirror_tables (id_user E) (id_room E) (userroomid_knockedstate s) (roomuserid_knockedcount s)"

definition cache_servers :: "cache_env \<Rightarrow> cache_db \<Rightarrow> bool" where
  "cache_servers E s \<longleftrightarrow>
     mirror_tables (id_room E) (id_server E) (roomserverids s) (serverroomids s) \<and>
     (\<forall>kv \<in> set (cf (roomid_inviteviaservers s)). snd kv \<noteq> [])"

text \<open>No user is in two of the tables for one room.\<close>

definition exclusive :: "cache_env \<Rightarrow> cache_db \<Rightarrow> bool" where
  "exclusive E s \<longleftrightarrow>
     (\<forall>u r. id_ok (id_user E) u \<longrightarrow> id_ok (id_room E) r \<longrightarrow>
        (is_joined u r s \<longrightarrow> \<not> is_left u r s \<and> \<not> is_knocked u r s \<and> \<not> is_invited u r s) \<and>
        (is_left u r s \<longrightarrow> \<not> is_knocked u r s \<and> \<not> is_invited u r s) \<and>
        (is_knocked u r s \<longrightarrow> \<not> is_invited u r s))"

definition cache_ok :: "cache_env \<Rightarrow> cache_db \<Rightarrow> bool" where
  "cache_ok E s \<longleftrightarrow> cache_tables E s \<and> cache_servers E s \<and> exclusive E s"

definition status :: "bytes \<Rightarrow> bytes \<Rightarrow> cache_db \<Rightarrow> membership option" where
  "status u r s =
     (if is_joined u r s then Some Join
      else if is_left u r s then Some Leave
      else if is_knocked u r s then Some Knock
      else if is_invited u r s then Some Invite
      else None)"

text \<open>A step that leaves the relation of every other pair alone and gives one pair a status.\<close>

definition sets_status :: "cache_env \<Rightarrow> bytes \<Rightarrow> bytes \<Rightarrow> membership option \<Rightarrow> cache_db \<Rightarrow> cache_db \<Rightarrow> bool" where
  "sets_status E u r m s s' \<longleftrightarrow>
     cache_ok E s' \<and>
     (\<forall>u' r'. id_ok (id_user E) u' \<longrightarrow> id_ok (id_room E) r' \<longrightarrow>
        status u' r' s' = (if (u', r') = (u, r) then m else status u' r' s))"

lemma sets_status_cong:
  assumes "sets_status E u r m s s'"
    and "\<And>u r. status u r t = status u r s" and "\<And>u r. status u r t' = status u r s'" and "cache_ok E t'"
  shows "sets_status E u r m t t'"
  using assms by (simp add: sets_status_def)

lemmas has_simps = pairs.has_put pairs.has_del

lemma exclusiveD:
  assumes "exclusive E s" and "id_ok (id_user E) u" and "id_ok (id_room E) r"
  shows "is_joined u r s \<Longrightarrow> \<not> is_left u r s \<and> \<not> is_knocked u r s \<and> \<not> is_invited u r s"
    and "is_left u r s \<Longrightarrow> \<not> is_knocked u r s \<and> \<not> is_invited u r s"
    and "is_knocked u r s \<Longrightarrow> \<not> is_invited u r s"
  using assms unfolding exclusive_def by blast+

text \<open>The four operations put a pair into one of the tables and delete it from the others.\<close>

definition table_set :: "bool \<Rightarrow> bytes \<Rightarrow> bytes \<Rightarrow> db_map \<Rightarrow> db_map \<Rightarrow> bool" where
  "table_set b x y m m' \<longleftrightarrow> (if b then \<exists>v. m' = pair_put x y v m else m' = pair_del x y m)"

lemma table_set_mirror:
  "mirror_tables ca cb m n \<Longrightarrow> id_ok ca a \<Longrightarrow> id_ok cb b \<Longrightarrow> table_set p a b m m' \<Longrightarrow> table_set p b a n n'
   \<Longrightarrow> mirror_tables ca cb m' n'"
  by (auto simp: table_set_def mirror_tables_put mirror_tables_del split: if_splits)

lemma table_set_has:
  "id_ok ca a \<Longrightarrow> id_ok ca a' \<Longrightarrow> table_set p a b m m'
   \<Longrightarrow> pair_has m' a' b' \<longleftrightarrow> (if (a', b') = (a, b) then p else pair_has m a' b')"
  by (auto simp: table_set_def has_simps split: if_splits)

definition moved :: "bytes \<Rightarrow> bytes \<Rightarrow> membership option \<Rightarrow> cache_db \<Rightarrow> cache_db \<Rightarrow> bool" where
  "moved u r m s s' \<longleftrightarrow>
     table_set (m = Some Join) u r (userroomid_joined s) (userroomid_joined s') \<and>
     table_set (m = Some Join) r u (roomuserid_joined s) (roomuserid_joined s') \<and>
     table_set (m = Some Leave) u r (userroomid_leftstate s) (userroomid_leftstate s') \<and>
     table_set (m = Some Leave) r u (roomuserid_leftcount s) (roomuserid_leftcount s') \<and>
     table_set (m = Some Knock) u r (userroomid_knockedstate s) (userroomid_knockedstate s') \<and>
     table_set (m = Some Knock) r u (roomuserid_knockedcount s) (roomuserid_knockedcount s') \<and>
     table_set (m = Some Invite) u r (userroomid_invitestate s) (userroomid_invitestate s') \<and>
     table_set (m = Some Invite) r u (roomuserid_invitecount s) (roomuserid_invitecount s')"

lemma moved_sets_status:
  assumes ok: "cache_tables E s" "exclusive E s" and ids: "id_ok (id_user E) u" "id_ok (id_room E) r"
    and moved: "moved u r m s s'" and m: "m \<in> {Some Join, Some Leave, Some Knock, Some Invite}"
    and servers: "cache_servers E s'"
  shows "sets_status E u r m s s'"
proof -
  have tables: "cache_tables E s'"
    using ok(1) moved ids unfolding cache_tables_def moved_def by (blast intro: table_set_mirror)
  have has: "is_joined u' r' s' \<longleftrightarrow> (if (u', r') = (u, r) then m = Some Join else is_joined u' r' s)"
      "is_left u' r' s' \<longleftrightarrow> (if (u', r') = (u, r) then m = Some Leave else is_left u' r' s)"
      "is_knocked u' r' s' \<longleftrightarrow> (if (u', r') = (u, r) then m = Some Knock else is_knocked u' r' s)"
      "is_invited u' r' s' \<longleftrightarrow> (if (u', r') = (u, r) then m = Some Invite else is_invited u' r' s)"
    if "id_ok (id_user E) u'" for u' r'
    using moved table_set_has [OF ids(1) that] unfolding is_status moved_def by blast+
  have "exclusive E s'"
    unfolding exclusive_def
  proof (intro allI impI)
    fix u' r'
    assume ids': "id_ok (id_user E) u'" "id_ok (id_room E) r'"
    show "(is_joined u' r' s' \<longrightarrow> \<not> is_left u' r' s' \<and> \<not> is_knocked u' r' s' \<and> \<not> is_invited u' r' s')
        \<and> (is_left u' r' s' \<longrightarrow> \<not> is_knocked u' r' s' \<and> \<not> is_invited u' r' s')
        \<and> (is_knocked u' r' s' \<longrightarrow> \<not> is_invited u' r' s')"
      using exclusiveD [OF ok(2) ids'] unfolding has [OF ids'(1)] by (cases "(u', r') = (u, r)") auto
  qed
  moreover have "status u' r' s' = (if (u', r') = (u, r) then m else status u' r' s)"
    if "id_ok (id_user E) u'" for u' r'
    unfolding status_def has [OF that] using m by (cases "(u', r') = (u, r)") auto
  ultimately show ?thesis using tables servers by (simp add: sets_status_def cache_ok_def)
qed

lemma cache_servers_removed:
  assumes "cache_servers E s" and "roomserverids s' = roomserverids s" and "serverroomids s' = serverroomids s"
    and "roomid_inviteviaservers s' = Map_remove r (roomid_inviteviaservers s)"
  shows "cache_servers E s'"
  using assms by (auto simp: cache_servers_def Map_remove_def AList.delete_eq)

lemma mark_as_joined_sets:
  assumes ok: "cache_ok E s" and ids: "id_ok (id_user E) u" "id_ok (id_room E) r"
  obtains s' where "mark_as_joined u r s = Ok s'" "sets_status E u r (Some Join) s s'"
proof -
  obtain s' where s': "mark_as_joined u r s = Ok s'" "moved u r (Some Join) s s'"
      "roomserverids s' = roomserverids s" "serverroomids s' = serverroomids s"
      "roomid_inviteviaservers s' = Map_remove r (roomid_inviteviaservers s)"
    by (auto simp: mark_as_joined_def fold_pair moved_def table_set_def)
  then show ?thesis
    using that ok ids moved_sets_status [OF _ _ ids s'(2)] cache_servers_removed [OF _ s'(3-5)]
    by (auto simp: cache_ok_def)
qed

definition cache_counter :: "cache_db \<Rightarrow> u64" where
  "cache_counter s = global_counter (ad_globals (sc_account s))"

lemma mark_as_left_sets:
  assumes ok: "cache_ok E s" and ids: "id_ok (id_user E) u" "id_ok (id_room E) r" and n: "cache_counter s \<noteq> - 1"
  obtains s' where "mark_as_left E u r s = Ok s'" "sets_status E u r (Some Leave) s s'"
    "bannedroomids s' = bannedroomids s" "disabledroomids s' = disabledroomids s"
proof -
  obtain s' where s': "mark_as_left E u r s = Ok s'" "moved u r (Some Leave) s s'"
      "roomserverids s' = roomserverids s" "serverroomids s' = serverroomids s"
      "roomid_inviteviaservers s' = Map_remove r (roomid_inviteviaservers s)"
      "bannedroomids s' = bannedroomids s" "disabledroomids s' = disabledroomids s"
    using n
    by (auto simp: mark_as_left_def cache_next_count_def next_count_def cache_counter_def fold_pair moved_def
        table_set_def Let_def)
  then show ?thesis
    using that ok ids moved_sets_status [OF _ _ ids s'(2)] cache_servers_removed [OF _ s'(3-5)]
    by (auto simp: cache_ok_def)
qed

text \<open>Forgetting a room that was left.\<close>

lemma cache_forget_sets:
  assumes ok: "cache_ok E s" and ids: "id_ok (id_user E) u" "id_ok (id_room E) r" and left: "status u r s = Some Leave"
  obtains s' where "cache_forget r u s = Ok s'" "sets_status E u r None s s'"
proof -
  obtain s' where s': "cache_forget r u s = Ok s'"
      "s' = s\<lparr>userroomid_leftstate := pair_del u r (userroomid_leftstate s),
              roomuserid_leftcount := pair_del r u (roomuserid_leftcount s)\<rparr>"
    by (simp add: cache_forget_def)
  have "cache_tables E s'" "cache_servers E s'"
    using ok ids by (simp_all add: cache_ok_def cache_tables_def cache_servers_def s'(2) mirror_tables_del)
  moreover have has: "is_joined u' r' s' = is_joined u' r' s" "is_knocked u' r' s' = is_knocked u' r' s"
      "is_invited u' r' s' = is_invited u' r' s"
      "is_left u' r' s' \<longleftrightarrow> (u', r') \<noteq> (u, r) \<and> is_left u' r' s" if "id_ok (id_user E) u'" for u' r'
    using ids(1) that by (auto simp: is_status s'(2) has_simps)
  moreover have "exclusive E s'"
    using ok has unfolding cache_ok_def exclusive_def by blast
  moreover have "is_left u r s" "\<not> is_joined u r s" using left by (auto simp: status_def split: if_splits)
  then have "\<not> is_knocked u r s" "\<not> is_invited u r s"
    using ok exclusiveD(2) [OF _ ids] unfolding cache_ok_def by blast+
  then have "status u' r' s' = (if (u', r') = (u, r) then None else status u' r' s)"
    if "id_ok (id_user E) u'" for u' r'
    using has [OF that] \<open>\<not> is_joined u r s\<close> by (auto simp: status_def)
  ultimately show ?thesis using that s'(1) by (auto simp: sets_status_def cache_ok_def)
qed

section \<open>Servers of an invite\<close>

lemma de_value_str: "de_value (DStr check) d = Ok (v, d') \<Longrightarrow> \<exists>b. v = VStr b"
  by (auto simp: result_iff visit_str_def split: if_splits)

lemma next_element_str:
  "next_element_seed (DStr check) d = Ok (Some v, d') \<Longrightarrow> \<exists>b. v = VStr b"
  by (auto simp: next_element_seed_def result_iff dest: de_value_str split: if_splits simp del: de_value.simps)

lemma de_elements_strs:
  "de_elements n (DStr check) d = Ok (vs, d') \<Longrightarrow> v \<in> set vs \<Longrightarrow> \<exists>b. v = VStr b"
proof (induction n arbitrary: d vs)
  case (Suc n)
  then show ?case
    by (auto simp: result_iff split: option.splits dest!: next_element_str Suc.IH simp del: de_value.simps)
qed simp

lemma last_server_stored:
  assumes "v \<noteq> []" and "deserialize_val (DSeq (DStr check)) v = Ok w"
  shows "\<exists>b. last_server w = Ok b"
proof -
  let ?d = "sequence_start (de_start v)"
  obtain vs d where vs: "de_elements (length v + 2) (DStr check) ?d = Ok (vs, d)" "w = VTuple vs"
    using assms(2) by (auto simp: deserialize_val_def from_slice_def result_iff de_start_def)
  have "next_element_seed (DStr check) ?d \<noteq> Ok (None, d')" for d'
    using assms(1) by (auto simp: next_element_seed_def de_start_def sequence_start_def result_iff)
  then have "vs \<noteq> []" using vs(1) by (fastforce simp: result_iff split: option.splits)
  then obtain ws b where "vs = ws @ [b]" by (metis rev_exhaust)
  moreover from this obtain x where "b = VStr x" using de_elements_strs [OF vs(1), of b] by auto
  ultimately show ?thesis using vs(2) by simp
qed

lemma collect_ok_Ok: "(\<And>x. x \<in> set xs \<Longrightarrow> \<exists>y. f x = Ok y) \<Longrightarrow> \<exists>ys. collect_ok f xs = Ok ys"
  by (induction xs) fastforce+

lemma set_ignore_err: "x \<in> set (ignore_err rs) \<longleftrightarrow> Ok x \<in> set rs"
  by (induction rs) (auto simp: ignore_err_def map_filter_simps split: sum.splits)

lemma servers_invite_via_Ok:
  assumes "cache_servers E s"
  shows "\<exists>servers. servers_invite_via E r s = Ok servers"
  unfolding servers_invite_via_def
proof (rule collect_ok_Ok)
  fix x
  assume "x \<in> set (ignore_err (Map_stream_raw_prefix (DField DIgnore) (DSeq (DStr (id_server E))) r (roomid_inviteviaservers s)))"
  then have "Ok x \<in> deserialize_kv (DField DIgnore) (DSeq (DStr (id_server E))) ` set (Map_raw_stream_prefix r (roomid_inviteviaservers s))"
    by (simp add: set_ignore_err Map_stream_raw_prefix_def)
  then obtain kv where kv: "kv \<in> set (cf (roomid_inviteviaservers s))"
      "deserialize_kv (DField DIgnore) (DSeq (DStr (id_server E))) kv = Ok x"
    by (auto simp: raw_stream_prefix)
  have "snd kv \<noteq> []" using assms kv(1) by (simp add: cache_servers_def)
  moreover have "deserialize_val (DSeq (DStr (id_server E))) (snd kv) = Ok (snd x)"
    using kv(2) by (auto simp: deserialize_kv_def result_iff)
  ultimately show "\<exists>b. last_server (snd x) = Ok b" by (rule last_server_stored)
qed

lemma sep_join_nonempty: "x \<in> set rs \<Longrightarrow> x \<noteq> [] \<Longrightarrow> sep_join rs \<noteq> []"
  by (cases rs) (auto simp: sep_tail_def)

lemma add_servers_invite_via_Ok:
  assumes "cache_servers E s" and "x \<in> set servers" and "x \<noteq> []"
  obtains m where "add_servers_invite_via E r servers s = Ok (s\<lparr>roomid_inviteviaservers := m\<rparr>)"
    "\<forall>kv \<in> set (cf m). snd kv \<noteq> []"
proof -
  obtain known where known: "servers_invite_via E r s = Ok known" using servers_invite_via_Ok [OF assms(1)] by blast
  let ?v = "sep_join (remdups_adj (sort (known @ servers)))"
  let ?m = "Map_insert r ?v (roomid_inviteviaservers s)"
  have "?v \<noteq> []" using assms(2,3) by (intro sep_join_nonempty [of x]) auto
  then have "\<forall>kv \<in> set (cf ?m). snd kv \<noteq> []"
    using assms(1) by (auto simp: cache_servers_def Map_insert_def dest: set_AList_update)
  then show ?thesis using that [of ?m] known by (simp add: add_servers_invite_via_def)
qed

text \<open>The servers named in an invite are not empty strings.\<close>

definition via_ok :: "bytes list option \<Rightarrow> bool" where
  "via_ok via \<longleftrightarrow> (case via of Some servers \<Rightarrow> [] \<notin> set servers | None \<Rightarrow> True)"

lemma mark_as_invited_sets:
  assumes ok: "cache_ok E s" and ids: "id_ok (id_user E) u" "id_ok (id_room E) r" and n: "cache_counter s \<noteq> - 1"
    and via: "via_ok invite_via"
  obtains s' where "mark_as_invited E u r last_state invite_via s = Ok s'" "sets_status E u r (Some Invite) s s'"
proof -
  let ?after = "\<lambda>s. case invite_via of Some (server # servers) \<Rightarrow> add_servers_invite_via E r (server # servers) s | _ \<Rightarrow> Ok s"
  obtain t where t: "write_invite E u r last_state s = Ok t" "moved u r (Some Invite) s t"
      "roomserverids t = roomserverids s" "serverroomids t = serverroomids s"
      "roomid_inviteviaservers t = roomid_inviteviaservers s"
    using n
    by (auto simp: write_invite_def cache_next_count_def next_count_def cache_counter_def fold_pair moved_def
        table_set_def Let_def)
  have servers: "cache_servers E t" using ok t(3-5) by (simp add: cache_ok_def cache_servers_def)
  obtain m where m: "?after t = Ok (t\<lparr>roomid_inviteviaservers := m\<rparr>)" "\<forall>kv \<in> set (cf m). snd kv \<noteq> []"
  proof (cases "\<exists>server servers. invite_via = Some (server # servers)")
    case True
    then obtain server servers where v: "invite_via = Some (server # servers)" by blast
    obtain m where "add_servers_invite_via E r (server # servers) t = Ok (t\<lparr>roomid_inviteviaservers := m\<rparr>)"
        "\<forall>kv \<in> set (cf m). snd kv \<noteq> []"
      using add_servers_invite_via_Ok [OF servers, of server "server # servers" r] via v by (auto simp: via_ok_def)
    then show ?thesis using that v by simp
  next
    case False
    then have "?after t = Ok t" by (auto split: option.splits list.splits)
    then show ?thesis using that [of "roomid_inviteviaservers t"] servers by (simp add: cache_servers_def)
  qed
  let ?s = "t\<lparr>roomid_inviteviaservers := m\<rparr>"
  have "moved u r (Some Invite) s ?s" using t(2) by (simp add: moved_def)
  moreover have "cache_servers E ?s" using servers m(2) by (simp add: cache_servers_def)
  ultimately have "sets_status E u r (Some Invite) s ?s"
    using ok ids by (intro moved_sets_status) (auto simp: cache_ok_def)
  then show ?thesis using that t(1) m(1) by (simp add: mark_as_invited_def)
qed

section \<open>The members and servers of a room\<close>

lemma pair_has_valid:
  assumes "pairs_ok cb m" and "SEP \<notin> set a" and "pair_has m a b"
  shows "id_ok cb b"
proof -
  have k: "pair_key a b \<in> fst ` set (cf m)" using assms(3) by (simp add: pair_has_iff map_of_eq_None_iff)
  have "starts_with (pair_key a b) (a @ [SEP])" by (simp add: starts_with_iff pair_key_def)
  then obtain b' where "pair_key a b = pair_key a b'" "valid_utf8 b'" "cb b'"
    using pairs_ok_prefix [OF assms(1,2) k] by blast
  then show ?thesis by (simp add: pair_key_def id_ok_def)
qed

text \<open>A scan of the second table lists the first components that the first table has.\<close>

lemma mirror_scan_list:
  assumes "mirror_tables ca cb m n" and "id_ok cb b"
  obtains as where "scan_second ca n b = Ok as" "distinct as" "set as = {a. id_ok ca a \<and> pair_has m a b}"
proof -
  note D = mirror_tablesD [OF assms(1)]
  obtain as where as: "scan_second ca n b = Ok as" "distinct as" "set as = {a. pair_has n b a}"
    using pairs.scan_has [OF D(2) assms(2)] by blast
  have "pair_has n b a \<longleftrightarrow> id_ok ca a \<and> pair_has m a b" for a
    using pair_has_valid [OF D(2) id_ok_no_sep [OF assms(2)], of a] D(3) [OF _ assms(2), of a] by blast
  with as that show ?thesis by simp
qed

definition env_ok :: "cache_env \<Rightarrow> bool" where
  "env_ok E \<longleftrightarrow>
     (\<forall>u. id_ok (id_user E) u \<longrightarrow> id_ok (id_server E) (server_name E u)) \<and>
     (\<forall>d. {''type'', ''content''} \<subseteq> set (json_members (direct_value E d)))"

definition in_room :: "cache_db \<Rightarrow> bytes \<Rightarrow> bytes \<Rightarrow> bool" where
  "in_room s r x \<longleftrightarrow> pair_has (roomserverids s) r x"

definition server_mirror :: "cache_env \<Rightarrow> cache_db \<Rightarrow> bool" where
  "server_mirror E s \<longleftrightarrow> mirror_tables (id_room E) (id_server E) (roomserverids s) (serverroomids s)"

definition with_servers :: "db_map \<Rightarrow> db_map \<Rightarrow> cache_db \<Rightarrow> cache_db" where
  "with_servers m m' s = s\<lparr>roomserverids := m, serverroomids := m'\<rparr>"

lemma with_servers_simps [simp]:
  "roomserverids (with_servers m m' s) = m" "serverroomids (with_servers m m' s) = m'"
  "with_servers n n' (with_servers m m' s) = with_servers n n' s"
  "with_servers (roomserverids s) (serverroomids s) s = s"
  by (simp_all add: with_servers_def)

lemma server_mirror_ops:
  assumes "server_mirror E s" and "id_ok (id_room E) r" and "id_ok (id_server E) x"
  shows "server_mirror E (with_servers (pair_del r x (roomserverids s)) (pair_del x r (serverroomids s)) s)"
    and "server_mirror E (with_servers (pair_put r x v (roomserverids s)) (pair_put x r w (serverroomids s)) s)"
  using assms by (simp_all add: server_mirror_def mirror_tables_del mirror_tables_put)

text \<open>The state after the sweep: the servers that are not joined any more are gone.\<close>

definition swept :: "cache_env \<Rightarrow> bytes \<Rightarrow> bytes list \<Rightarrow> bytes list \<Rightarrow> cache_db \<Rightarrow> cache_db \<Rightarrow> bool" where
  "swept E r olds joined s s' \<longleftrightarrow>
     server_mirror E s' \<and> (\<exists>m m'. s' = with_servers m m' s) \<and>
     (\<forall>r' x. id_ok (id_room E) r' \<longrightarrow>
        in_room s' r' x = (in_room s r' x \<and> \<not> (r' = r \<and> x \<in> set olds \<and> x \<notin> set joined)))"

lemma sweep_servers_result:
  assumes "server_mirror E s" and r: "id_ok (id_room E) r"
    and "list_all (id_ok (id_server E)) olds" and "distinct olds"
  shows "\<exists>new s'. sweep_servers r olds joined s = Ok (new, s') \<and> set new = set joined - set olds
    \<and> swept E r olds joined s s'"
  using assms(1,3,4)
proof (induction olds arbitrary: joined s)
  case Nil
  have "\<exists>m m'. s = with_servers m m' s" by (metis with_servers_simps(4))
  with Nil show ?case by (simp add: swept_def)
next
  case (Cons old olds)
  have prems: "list_all (id_ok (id_server E)) olds" "distinct olds" "old \<notin> set olds" "id_ok (id_server E) old"
    using Cons.prems by simp_all
  show ?case
  proof (cases "old \<in> set joined")
    case True
    obtain new s' where IH: "sweep_servers r olds (removeAll old joined) s = Ok (new, s')"
        "set new = set (removeAll old joined) - set olds" "swept E r olds (removeAll old joined) s s'"
      using Cons.IH [OF Cons.prems(1) prems(1,2)] by blast
    have "swept E r (old # olds) joined s s'"
      using IH(3) True prems(3) unfolding swept_def by auto
    moreover have "set new = set joined - set (old # olds)" using IH(2) by auto
    ultimately show ?thesis using IH(1) True by simp
  next
    case False
    let ?s = "with_servers (pair_del r old (roomserverids s)) (pair_del old r (serverroomids s)) s"
    obtain new s' where IH: "sweep_servers r olds joined ?s = Ok (new, s')"
        "set new = set joined - set olds" "swept E r olds joined ?s s'"
      using Cons.IH [OF server_mirror_ops(1) [OF Cons.prems(1) r prems(4)] prems(1,2)] by blast
    have "in_room ?s r' x \<longleftrightarrow> in_room s r' x \<and> \<not> (r' = r \<and> x = old)" if "id_ok (id_room E) r'" for r' x
      using pairs.has_del [OF r that] by (auto simp: in_room_def)
    then have "swept E r (old # olds) joined s s'"
      using IH(3) False unfolding swept_def by auto
    moreover have "set new = set joined - set (old # olds)" using IH(2) False by auto
    ultimately show ?thesis using IH(1) False by (simp add: with_servers_def)
  qed
qed

definition added :: "cache_env \<Rightarrow> bytes \<Rightarrow> bytes list \<Rightarrow> cache_db \<Rightarrow> cache_db \<Rightarrow> bool" where
  "added E r servers s s' \<longleftrightarrow>
     server_mirror E s' \<and> (\<exists>m m'. s' = with_servers m m' s) \<and>
     (\<forall>r' x. id_ok (id_room E) r' \<longrightarrow> in_room s' r' x = (in_room s r' x \<or> r' = r \<and> x \<in> set servers))"

lemma add_servers_result:
  assumes "server_mirror E s" and r: "id_ok (id_room E) r" and "list_all (id_ok (id_server E)) servers"
  shows "\<exists>s'. add_servers r servers s = Ok s' \<and> added E r servers s s'"
  using assms(1,3)
proof (induction servers arbitrary: s)
  case Nil
  have "\<exists>m m'. s = with_servers m m' s" by (metis with_servers_simps(4))
  with Nil show ?case by (simp add: added_def)
next
  case (Cons x servers)
  then have prems: "id_ok (id_server E) x" "list_all (id_ok (id_server E)) servers" by simp_all
  let ?s = "with_servers (pair_put r x [] (roomserverids s)) (pair_put x r [] (serverroomids s)) s"
  obtain s' where IH: "add_servers r servers ?s = Ok s'" "added E r servers ?s s'"
    using Cons.IH [OF server_mirror_ops(2) [OF Cons.prems(1) r prems(1)] prems(2)] by blast
  have "in_room ?s r' y \<longleftrightarrow> in_room s r' y \<or> r' = r \<and> y = x" if "id_ok (id_room E) r'" for r' y
    using pairs.has_put [OF r that] by (auto simp: in_room_def)
  then have "added E r (x # servers) s s'"
    using IH(2) unfolding added_def by auto
  then show ?case using IH(1) by (simp add: with_servers_def)
qed

lemma set_joined_servers: "set (joined_servers_of E members) = server_name E ` set members"
proof -
  have "set (fold (\<lambda>j. List.insert (server_name E j)) xs ys) = server_name E ` set xs \<union> set ys" for xs ys
    by (induction xs arbitrary: ys) auto
  then show ?thesis by (simp add: joined_servers_of_def)
qed

lemma saturating_count:
  "length xs < 2 ^ 64 \<Longrightarrow> fold (\<lambda>_. saturating_succ) xs 0 = (word_of_nat (length xs) :: u64)"
proof (induction xs rule: rev_induct)
  case (snoc x xs)
  have "unat (word_of_nat (Suc (length xs)) :: u64) = Suc (length xs)"
    using snoc.prems by (simp add: unat_of_nat del: of_nat_Suc)
  then have "(word_of_nat (length xs) :: u64) + 1 \<noteq> 0" by (auto simp: add.commute)
  then have "(word_of_nat (length xs) :: u64) \<noteq> - 1" by auto
  then show ?case using snoc by (simp add: saturating_succ_def)
qed simp

lemma stray_insert:
  "mirror_tables ca cb m n \<Longrightarrow> id_ok cb r \<Longrightarrow> mirror_tables ca cb m (Map_insert r v n)"
proof -
  assume m: "mirror_tables ca cb m n" and r: "id_ok cb r"
  have "pairs_ok ca (Map_insert r v n)"
    using mirror_tablesD(2) [OF m] id_ok_no_sep [OF r] unfolding pairs_ok_def keys_insert by auto
  moreover have "pair_has (Map_insert r v n) b a = pair_has n b a" for a b
    using id_ok_no_sep [OF r] by (auto simp: pair_has_iff pair_key_def)
  ultimately show ?thesis
    using m unfolding mirror_tables_def mirrored_pairs.mirror_def by simp
qed

text \<open>What recounting a room does.\<close>

definition recounted :: "cache_env \<Rightarrow> bytes \<Rightarrow> bytes list \<Rightarrow> cache_db \<Rightarrow> cache_db \<Rightarrow> bool" where
  "recounted E r members s s' \<longleftrightarrow>
     cache_ok E s' \<and> (\<forall>u' r'. status u' r' s' = status u' r' s) \<and>
     map_of (cf (roomid_joinedcount s')) r = Some (to_be_bytes (fold (\<lambda>_. saturating_succ) members 0)) \<and>
     (\<forall>r' x. id_ok (id_room E) r' \<longrightarrow>
        in_room s' r' x = (if r' = r then x \<in> server_name E ` set members else in_room s r' x))"

lemma status_cong:
  assumes "userroomid_joined s' = userroomid_joined s" and "userroomid_leftstate s' = userroomid_leftstate s"
    and "userroomid_knockedstate s' = userroomid_knockedstate s" and "userroomid_invitestate s' = userroomid_invitestate s"
  shows "status u r s' = status u r s" and "exclusive E s' = exclusive E s"
  by (simp_all add: status_def exclusive_def is_status assms)

lemma replace_servers:
  assumes mirror: "server_mirror E t" and r: "id_ok (id_room E) r"
    and valid: "list_all (id_ok (id_server E)) servers"
  obtains olds new u m m' where "room_servers E r t = Ok olds" "sweep_servers r olds servers t = Ok (new, u)"
    "add_servers r new u = Ok (with_servers m m' t)" "server_mirror E (with_servers m m' t)"
    "\<forall>r' x. id_ok (id_room E) r' \<longrightarrow> pair_has m r' x = (if r' = r then x \<in> set servers else in_room t r' x)"
proof -
  note table = mirror_tablesD(1) [OF mirror [unfolded server_mirror_def]]
  obtain olds where olds: "room_servers E r t = Ok olds" "distinct olds" "set olds = {x. in_room t r x}"
    using pairs.scan_has [OF table r] unfolding room_servers_def in_room_def by blast
  have valid_olds: "list_all (id_ok (id_server E)) olds"
    using pair_has_valid [OF table id_ok_no_sep [OF r]] olds(3) by (auto simp: list_all_iff in_room_def)
  obtain new u where sweep: "sweep_servers r olds servers t = Ok (new, u)" "set new = set servers - set olds"
      "swept E r olds servers t u"
    using sweep_servers_result [OF mirror r valid_olds olds(2)] by blast
  have "list_all (id_ok (id_server E)) new" using sweep(2) valid by (auto simp: list_all_iff)
  then obtain s' where add: "add_servers r new u = Ok s'" "added E r new u s'"
    using add_servers_result [OF _ r, of u new] sweep(3) unfolding swept_def by blast
  obtain m m' where m: "s' = with_servers m m' t"
    using sweep(3) add(2) unfolding swept_def added_def by auto
  have "pair_has m r' x = (if r' = r then x \<in> set servers else in_room t r' x)" if "id_ok (id_room E) r'" for r' x
    using sweep(2,3) add(2) olds(3) that unfolding swept_def added_def m by (auto simp: in_room_def)
  moreover have "server_mirror E (with_servers m m' t)" using add(2) m by (simp add: added_def)
  ultimately show ?thesis using that [OF olds(1) sweep(1)] add(1) m by blast
qed

lemma scan_tables:
  assumes "cache_tables E s" and r: "id_ok (id_room E) r"
  obtains joined invited knocked where "room_members E r s = Ok joined" "room_members_invited E r s = Ok invited"
    "room_members_knocked E r s = Ok knocked" "distinct joined"
    "set joined = {u. id_ok (id_user E) u \<and> is_joined u r s}"
proof -
  note tables = assms(1) [unfolded cache_tables_def]
  obtain joined where "scan_second (id_user E) (roomuserid_joined s) r = Ok joined" "distinct joined"
      "set joined = {u. id_ok (id_user E) u \<and> pair_has (userroomid_joined s) u r}"
    by (rule mirror_scan_list [OF tables [THEN conjunct1] r])
  moreover obtain invited where "scan_second (id_user E) (roomuserid_invitecount s) r = Ok invited"
    using tables by (auto elim: mirror_scan_list [OF _ r])
  moreover obtain knocked where "scan_second (id_user E) (roomuserid_knockedcount s) r = Ok knocked"
    using tables by (auto elim: mirror_scan_list [OF _ r])
  ultimately show ?thesis
    using that unfolding room_members_def room_members_invited_def room_members_knocked_def is_status by blast
qed

lemma update_joined_count_result:
  assumes ok: "cache_ok E s" and env: "env_ok E" and r: "id_ok (id_room E) r"
  obtains s' members where "update_joined_count E r s = Ok s'" "room_members E r s = Ok members" "distinct members"
    "set members = {u. id_ok (id_user E) u \<and> is_joined u r s}" "recounted E r members s s'"
proof -
  have tables: "cache_tables E s" and servers: "cache_servers E s" and excl: "exclusive E s"
    using ok by (simp_all add: cache_ok_def)
  obtain ms invs ks where scans: "room_members E r s = Ok ms" "room_members_invited E r s = Ok invs"
      "room_members_knocked E r s = Ok ks"
    and ms: "distinct ms" "set ms = {u. id_ok (id_user E) u \<and> is_joined u r s}"
    by (rule scan_tables [OF tables r])
  define t where "t = s\<lparr>roomid_joinedcount := Map_insert r (to_be_bytes (fold (\<lambda>_. saturating_succ) ms 0)) (roomid_joinedcount s),
      roomid_invitedcount := Map_insert r (to_be_bytes (usize_u64 (length invs))) (roomid_invitedcount s),
      roomuserid_knockedcount := Map_insert r (to_be_bytes (usize_u64 (length ks))) (roomuserid_knockedcount s)\<rparr>"
  have mirror: "server_mirror E t" using servers by (simp add: t_def server_mirror_def cache_servers_def)
  have "list_all (id_ok (id_server E)) (joined_servers_of E ms)"
    using ms(2) env by (auto simp: list_all_iff set_joined_servers env_ok_def)
  then obtain olds new u m m' where steps: "room_servers E r t = Ok olds"
      "sweep_servers r olds (joined_servers_of E ms) t = Ok (new, u)"
      "add_servers r new u = Ok (with_servers m m' t)"
    and after: "server_mirror E (with_servers m m' t)"
      "\<forall>r' x. id_ok (id_room E) r' \<longrightarrow>
         pair_has m r' x = (if r' = r then x \<in> set (joined_servers_of E ms) else in_room t r' x)"
    by (rule replace_servers [OF mirror r])
  define s' where "s' = t\<lparr>roomserverids := m, serverroomids := m',
      appservice_in_room_cache := AList.delete r (appservice_in_room_cache t)\<rparr>"
  have run: "update_joined_count E r s = Ok s'"
    using steps by (simp add: update_joined_count_def scans Let_def t_def [symmetric] s'_def with_servers_def)
  have "cache_tables E s'" using tables r by (simp add: cache_tables_def s'_def t_def stray_insert)
  moreover have "cache_servers E s'"
    using after(1) servers by (simp add: cache_servers_def server_mirror_def s'_def t_def)
  moreover have same: "userroomid_joined s' = userroomid_joined s" "userroomid_leftstate s' = userroomid_leftstate s"
      "userroomid_knockedstate s' = userroomid_knockedstate s" "userroomid_invitestate s' = userroomid_invitestate s"
    by (simp_all add: s'_def t_def)
  moreover have "exclusive E s'" "\<forall>u' r'. status u' r' s' = status u' r' s"
    using excl status_cong [OF same] by simp_all
  moreover have "in_room s' r' x = (if r' = r then x \<in> server_name E ` set ms else in_room s r' x)"
    if "id_ok (id_room E) r'" for r' x
    using after(2) that by (simp add: in_room_def s'_def t_def set_joined_servers)
  moreover have "map_of (cf (roomid_joinedcount s')) r = Some (to_be_bytes (fold (\<lambda>_. saturating_succ) ms 0))"
    by (simp add: s'_def t_def)
  ultimately have "recounted E r ms s s'" unfolding recounted_def cache_ok_def by blast
  with run scans(1) ms show ?thesis using that by blast
qed

section \<open>A membership event\<close>

lemma account_update_total:
  assumes "global_counter (ad_globals a) \<noteq> - 1" and "{''type'', ''content''} \<subseteq> set (json_members data)"
  shows "\<exists>a'. account_update r u t data a = Ok a' \<and> global_counter (ad_globals a') = global_counter (ad_globals a) + 1"
  using assms by (auto simp: account_update_def next_count_def Map_put_simp Let_def)

lemma account_update_invalid:
  assumes "\<not> {''type'', ''content''} \<subseteq> set (json_members data)"
  shows "account_update r u t data a = Err (BadRequest ''Account data without all required fields'')"
  using assms by (auto simp: account_update_def)

lemma copy_tags_total:
  assumes "global_counter (ad_globals a) \<noteq> - 1"
  shows "\<exists>a'. copy_tags E old r u a = Ok a'
    \<and> global_counter (ad_globals a') \<in> {global_counter (ad_globals a), global_counter (ad_globals a) + 1}"
proof (cases "get_room (read_value E) old u (bytes_of ''m.tag'') a")
  case (Inl e)
  then show ?thesis by (simp add: copy_tags_def)
next
  case (Inr tag_event)
  show ?thesis
  proof (cases "{''type'', ''content''} \<subseteq> set (json_members tag_event)")
    case True
    then show ?thesis
      using Inr account_update_total [OF assms True, of "Some r" u "bytes_of ''m.tag''"] by (auto simp: copy_tags_def)
  next
    case False
    then show ?thesis using Inr account_update_invalid [OF False] by (simp add: copy_tags_def)
  qed
qed

lemma copy_direct_total:
  assumes "global_counter (ad_globals a) \<noteq> - 1" and "env_ok E"
  shows "\<exists>a'. copy_direct E old r u a = Ok a'"
proof (cases "get_global (read_direct E) u (bytes_of ''m.direct'') a")
  case (Inr direct)
  have "{''type'', ''content''} \<subseteq> set (json_members (direct_value E (push_room old r direct)))"
    using assms(2) unfolding env_ok_def by blast
  from account_update_total [OF assms(1) this, of None u "bytes_of ''m.direct''"] show ?thesis
    using Inr by (auto simp: copy_direct_def)
qed (simp add: copy_direct_def)

lemma first_join_total:
  assumes n: "cache_counter s \<noteq> - 1" "cache_counter s \<noteq> - 2" and env: "env_ok E"
  shows "\<exists>m a. first_join E u r s = Ok (s\<lparr>roomuseroncejoinedids := m, sc_account := a\<rparr>)"
proof (cases "once_joined u r s")
  case True
  then show ?thesis
    by (intro exI [of _ "roomuseroncejoinedids s"] exI [of _ "sc_account s"]) (simp add: first_join_def)
next
  case False
  let ?m = "pair_put u r [] (roomuseroncejoinedids s)"
  show ?thesis
  proof (cases "\<exists>old. create_predecessor E r = Ok (Some old)")
    case True
    then obtain old where old: "create_predecessor E r = Ok (Some old)" by blast
    obtain a where a: "copy_tags E old r u (sc_account s) = Ok a"
        "global_counter (ad_globals a) \<in> {cache_counter s, cache_counter s + 1}"
      using copy_tags_total n(1) unfolding cache_counter_def by blast
    have "cache_counter s + 1 \<noteq> - 1"
    proof
      assume "cache_counter s + 1 = - 1"
      then have "cache_counter s = - 1 - 1" by (metis add_diff_cancel_right')
      with n(2) show False by simp
    qed
    then have "global_counter (ad_globals a) \<noteq> - 1" using a(2) n(1) by auto
    then obtain a' where "copy_direct E old r u a = Ok a'" using copy_direct_total [OF _ env] by blast
    then show ?thesis
      using False old a(1) by (intro exI [of _ ?m] exI [of _ a']) (simp add: first_join_def mark_as_once_joined_def)
  next
    case nopre: False
    then show ?thesis
      using False
      by (intro exI [of _ ?m] exI [of _ "sc_account s"])
        (auto simp: first_join_def mark_as_once_joined_def split: sum.splits option.splits)
  qed
qed

text \<open>
  What a membership event of a user makes of the user's status: the specification, a function of the
  status before.
\<close>

definition new_status ::
    "cache_env \<Rightarrow> bytes \<Rightarrow> bytes \<Rightarrow> membership \<Rightarrow> bytes \<Rightarrow> cache_db \<Rightarrow> membership option" where
  "new_status E r u m sender s =
     (case m of
        Join \<Rightarrow> Some Join
      | Invite \<Rightarrow> if user_is_ignored E sender u s then status u r s else Some Invite
      | Knock \<Rightarrow> status u r s
      | CustomMembership _ \<Rightarrow> status u r s
      | _ \<Rightarrow> if user_is_local E u \<and> (forget_forced_upon_leave E \<or> is_banned r s \<or> is_disabled r s)
            then None else Some Leave)"

lemma sets_status_refl: "cache_ok E s \<Longrightarrow> sets_status E u r (status u r s) s s"
  by (simp add: sets_status_def)

lemma sets_status_trans:
  "sets_status E u r m s t \<Longrightarrow> sets_status E u r m' t s' \<Longrightarrow> sets_status E u r m' s s'"
  by (simp add: sets_status_def)

lemma cache_ok_cong:
  assumes "cache_ok E s"
  shows "cache_ok E (s\<lparr>userid_password := p\<rparr>)" "cache_ok E (s\<lparr>roomuseroncejoinedids := m, sc_account := a\<rparr>)"
  using assms by (simp_all add: cache_ok_def cache_tables_def cache_servers_def exclusive_def is_status)

lemma status_unrelated [simp]:
  "status u r (s\<lparr>userid_password := p\<rparr>) = status u r s"
  "status u r (s\<lparr>roomuseroncejoinedids := m, sc_account := a\<rparr>) = status u r s"
  by (simp_all add: status_def is_status)

lemma apply_membership_sets:
  assumes ok: "cache_ok E s" and env: "env_ok E" and ids: "id_ok (id_user E) u" "id_ok (id_room E) r"
    and n: "cache_counter s \<noteq> - 1" "cache_counter s \<noteq> - 2" and via: "via_ok invite_via"
  shows "\<exists>b s'. apply_membership E r u m sender last_state invite_via s = Ok (b, s')
    \<and> sets_status E u r (new_status E r u m sender s) s s'"
proof -
  have leave: "\<exists>b s'. try_bind (mark_as_left E u r s) (\<lambda>s.
          if user_is_local E u \<and> (forget_forced_upon_leave E \<or> is_banned r s \<or> is_disabled r s)
          then try_bind (cache_forget r u s) (\<lambda>s. Ok (True, s)) else Ok (True, s)) = Ok (b, s')
      \<and> sets_status E u r (if user_is_local E u \<and> (forget_forced_upon_leave E \<or> is_banned r s \<or> is_disabled r s)
            then None else Some Leave) s s'"
  proof -
    obtain t where t: "mark_as_left E u r s = Ok t" "sets_status E u r (Some Leave) s t"
        "bannedroomids t = bannedroomids s" "disabledroomids t = disabledroomids s"
      by (rule mark_as_left_sets [OF ok ids n(1)])
    have same: "is_banned r t = is_banned r s" "is_disabled r t = is_disabled r s"
      by (simp_all add: is_banned_def is_disabled_def t)
    have "cache_ok E t" "status u r t = Some Leave" using t(2) ids by (simp_all add: sets_status_def)
    then obtain t' where "cache_forget r u t = Ok t'" "sets_status E u r None t t'"
      using cache_forget_sets [OF _ ids] by blast
    with sets_status_trans [OF t(2) this(2)] t(1,2) show ?thesis
      by (intro exI [of _ True]) (auto simp: same)
  qed
  show ?thesis
  proof (cases m)
    case Join
    obtain m' a where first: "first_join E u r s = Ok (s\<lparr>roomuseroncejoinedids := m', sc_account := a\<rparr>)"
      using first_join_total [OF n env] by blast
    obtain s' where "mark_as_joined u r (s\<lparr>roomuseroncejoinedids := m', sc_account := a\<rparr>) = Ok s'"
        "sets_status E u r (Some Join) (s\<lparr>roomuseroncejoinedids := m', sc_account := a\<rparr>) s'"
      by (rule mark_as_joined_sets [OF cache_ok_cong(2) [OF ok] ids])
    then show ?thesis
      using Join first by (intro exI [of _ True]) (simp add: apply_membership_def new_status_def sets_status_def)
  next
    case Invite
    obtain s' where "mark_as_invited E u r last_state invite_via s = Ok s'" "sets_status E u r (Some Invite) s s'"
      by (rule mark_as_invited_sets [OF ok ids n(1) via])
    then show ?thesis
      using Invite sets_status_refl [OF ok]
      by (intro exI [of _ "\<not> user_is_ignored E sender u s"]) (simp add: apply_membership_def new_status_def)
  qed (use leave sets_status_refl [OF ok] in \<open>auto simp: apply_membership_def new_status_def\<close>)
qed

lemma read_u64 [simp]: "deserialize_val (DField DU64) (to_be_bytes n) = Ok (VU64 n)"
  by (simp add: deserialize_val_def from_slice_def de_start_def de_eight_def de_rest_def inc_pos_def)


text \<open>
  C40: After the members of a room were counted, the stored counter is the number of users that are
  joined to the room, and the servers of the room are the servers of those users. Nothing else about
  other rooms changes.\<close>

theorem joined_count_correct:
  assumes "cache_ok E s" and "env_ok E" and "id_ok (id_room E) room"
    and few: "\<forall>members. room_members E room s = Ok members \<longrightarrow> length members < 2 ^ 64"
  shows "\<exists>s' members. update_joined_count E room s = Ok s' \<and> distinct members
    \<and> set members = {u. id_ok (id_user E) u \<and> is_joined u room s}
    \<and> room_joined_count room s' = Ok (word_of_nat (length members))
    \<and> (\<forall>r x. id_ok (id_room E) r \<longrightarrow>
         in_room s' r x = (if r = room then x \<in> server_name E ` set members else in_room s r x))"
proof -
  obtain s' ms where s': "update_joined_count E room s = Ok s'" "room_members E room s = Ok ms" "distinct ms"
      "set ms = {u. id_ok (id_user E) u \<and> is_joined u room s}" "recounted E room ms s s'"
    by (rule update_joined_count_result [OF assms(1-3)])
  have "Map_get (roomid_joinedcount s') room = Ok (to_be_bytes (word_of_nat (length ms)))"
    using s'(5) saturating_count [OF few [rule_format, OF s'(2)]]
    by (simp add: recounted_def Map_get_def handle_from_def ok_or_def)
  then have "room_joined_count room s' = Ok (word_of_nat (length ms))"
    by (simp add: room_joined_count_def deserialized_u64_def)
  with s' show ?thesis unfolding recounted_def by blast
qed

text \<open>Two users of one server and a room, for the examples.\<close>

definition two_users :: cache_env where
  "two_users =
     \<lparr>id_user = (\<lambda>u. u \<in> {[0x40, 0x61], [0x40, 0x62]}), id_room = (\<lambda>r. r = [0x21]), id_server = (\<lambda>x. x = [0x78]),
      server_name = (\<lambda>_. [0x78]), our_server = [0x78], forget_forced_upon_leave = False,
      json_events = (\<lambda>_. []), read_events = (\<lambda>_. Ok []), read_value = (\<lambda>_. Ok sample_tags), read_direct = (\<lambda>_. Ok []),
      direct_value = (\<lambda>_. sample_tags), read_ignored = (\<lambda>_. Ok []), create_predecessor = (\<lambda>_. Ok None),
      power_users = (\<lambda>_. Ok [])\<rparr>"

definition one_member :: cache_db where
  "one_member =
     \<lparr>roomid_invitedcount = Map_open [], roomid_inviteviaservers = Map_open [], roomid_joinedcount = Map_open [],
      roomserverids = Map_open [], roomuserid_invitecount = Map_open [],
      roomuserid_joined = pair_put [0x21] [0x40, 0x61] [] (Map_open []),
      roomuserid_leftcount = Map_open [], roomuserid_knockedcount = Map_open [], roomuseroncejoinedids = Map_open [],
      serverroomids = Map_open [], userroomid_invitestate = Map_open [],
      userroomid_joined = pair_put [0x40, 0x61] [0x21] [] (Map_open []),
      userroomid_leftstate = Map_open [], userroomid_knockedstate = Map_open [], appservice_in_room_cache = [],
      userid_password = Map_open [], disabledroomids = Map_open [], bannedroomids = Map_open [],
      sc_account = no_account_data\<rparr>"

lemma two_users_ids [simp]:
  "id_ok (id_user two_users) [0x40, 0x61]" "id_ok (id_user two_users) [0x40, 0x62]" "id_ok (id_room two_users) [0x21]"
  by (simp_all add: two_users_def id_ok_def)

lemma empty_tables [simp]: "mirror_tables ca cb (Map_open []) (Map_open [])" "\<not> pair_has (Map_open []) a b"
  by (simp_all add: mirror_tables_def mirrored_pairs.mirror_def pairs_ok_def pair_has_iff)

lemma one_member_ok: "cache_ok two_users one_member" "env_ok two_users"
proof -
  have "cache_tables two_users one_member"
    by (simp add: cache_tables_def one_member_def mirror_tables_put)
  then show "cache_ok two_users one_member"
    by (simp add: cache_ok_def cache_servers_def exclusive_def is_status one_member_def)
  show "env_ok two_users"
    by (simp add: env_ok_def two_users_def id_ok_def sample_tags_def)
qed

lemma one_member_counter: "cache_counter one_member \<noteq> - 1" "cache_counter one_member \<noteq> - 2"
  by (simp_all add: cache_counter_def one_member_def no_account_data_def)



theorem joined_count_correct_witness:
  "\<exists>s' members. update_joined_count two_users [0x21] one_member = Ok s' \<and> distinct members
     \<and> set members = {u. id_ok (id_user two_users) u \<and> is_joined u [0x21] one_member}
     \<and> room_joined_count [0x21] s' = Ok (word_of_nat (length members))
     \<and> (\<forall>r x. id_ok (id_room two_users) r \<longrightarrow>
          in_room s' r x = (if r = [0x21] then x \<in> server_name two_users ` set members else in_room one_member r x))"
proof (rule joined_count_correct [OF one_member_ok two_users_ids(3)])
  have "room_members two_users [0x21] one_member = Ok [[0x40, 0x61]]"
    by code_simp
  then show "\<forall>members. room_members two_users [0x21] one_member = Ok members \<longrightarrow> length members < 2 ^ 64" by simp
qed

end
