(* ===== verification/Db_Streams.thy ===== *)
theory Db_Streams
  imports Db_Map_Props
begin

text \<open>
  The remaining streams of \<open>database/map\<close>: typed streams of whole tables, from a key and in reverse. Keys
  that end in a count, which most services use to find what changed since a position, form windows of
  these streams.
\<close>

section \<open>Streams\<close>

definition Map_stream :: "de_ty \<Rightarrow> de_ty \<Rightarrow> db_map \<Rightarrow> (svc_error + (de_val \<times> de_val)) list" where
  "Map_stream tk tv m = map (deserialize_kv tk tv) (Map_raw_stream m)"

definition Map_rev_stream :: "de_ty \<Rightarrow> de_ty \<Rightarrow> db_map \<Rightarrow> (svc_error + (de_val \<times> de_val)) list" where
  "Map_rev_stream tk tv m = map (deserialize_kv tk tv) (Map_rev_raw_stream m)"

definition Map_stream_raw_from ::
    "de_ty \<Rightarrow> de_ty \<Rightarrow> bytes \<Rightarrow> db_map \<Rightarrow> (svc_error + (de_val \<times> de_val)) list" where
  "Map_stream_raw_from tk tv from m = map (deserialize_kv tk tv) (Map_raw_stream_from from m)"

definition Map_rev_stream_from_raw :: "ser_val \<Rightarrow> db_map \<Rightarrow> svc_error + (bytes \<times> bytes) list" where
  "Map_rev_stream_from_raw from m =
     try_bind (expect ''failed to serialize query key'' (serialize_key from)) (\<lambda>key. Ok (Map_rev_raw_stream_from key m))"

definition Map_rev_stream_from ::
    "de_ty \<Rightarrow> de_ty \<Rightarrow> ser_val \<Rightarrow> db_map \<Rightarrow> svc_error + (svc_error + (de_val \<times> de_val)) list" where
  "Map_rev_stream_from tk tv from m =
     try_bind (Map_rev_stream_from_raw from m) (\<lambda>kvs. Ok (map (deserialize_kv tk tv) kvs))"

definition Map_rev_stream_raw_from ::
    "de_ty \<Rightarrow> de_ty \<Rightarrow> bytes \<Rightarrow> db_map \<Rightarrow> (svc_error + (de_val \<times> de_val)) list" where
  "Map_rev_stream_raw_from tk tv from m = map (deserialize_kv tk tv) (Map_rev_raw_stream_from from m)"

definition Map_rev_stream_prefix_raw :: "ser_val \<Rightarrow> db_map \<Rightarrow> svc_error + (bytes \<times> bytes) list" where
  "Map_rev_stream_prefix_raw pre m =
     try_bind (expect ''failed to serialize query key'' (serialize_key pre)) (\<lambda>key.
       Ok (takeWhile (\<lambda>kv. starts_with (fst kv) key) (Map_rev_raw_stream_from key m)))"

definition Map_rev_stream_prefix ::
    "de_ty \<Rightarrow> de_ty \<Rightarrow> ser_val \<Rightarrow> db_map \<Rightarrow> svc_error + (svc_error + (de_val \<times> de_val)) list" where
  "Map_rev_stream_prefix tk tv pre m =
     try_bind (Map_rev_stream_prefix_raw pre m) (\<lambda>kvs. Ok (map (deserialize_kv tk tv) kvs))"

definition Map_rev_stream_raw_prefix ::
    "de_ty \<Rightarrow> de_ty \<Rightarrow> bytes \<Rightarrow> db_map \<Rightarrow> (svc_error + (de_val \<times> de_val)) list" where
  "Map_rev_stream_raw_prefix tk tv pre m = map (deserialize_kv tk tv) (Map_rev_raw_stream_prefix pre m)"

section \<open>Streams of keys\<close>

definition Map_keys :: "de_ty \<Rightarrow> db_map \<Rightarrow> (svc_error + de_val) list" where
  "Map_keys t m = map (deserialize_key t) (Map_raw_keys m)"

definition Map_rev_raw_keys :: "db_map \<Rightarrow> bytes list" where
  "Map_rev_raw_keys m = map fst (Map_rev_raw_stream m)"

definition Map_rev_keys :: "de_ty \<Rightarrow> db_map \<Rightarrow> (svc_error + de_val) list" where
  "Map_rev_keys t m = map (deserialize_key t) (Map_rev_raw_keys m)"

definition Map_keys_from_raw :: "ser_val \<Rightarrow> db_map \<Rightarrow> svc_error + bytes list" where
  "Map_keys_from_raw from m =
     try_bind (expect ''failed to serialize query key'' (serialize_key from)) (\<lambda>key. Ok (Map_raw_keys_from key m))"

definition Map_keys_from :: "de_ty \<Rightarrow> ser_val \<Rightarrow> db_map \<Rightarrow> svc_error + (svc_error + de_val) list" where
  "Map_keys_from t from m = try_bind (Map_keys_from_raw from m) (\<lambda>ks. Ok (map (deserialize_key t) ks))"

definition Map_keys_raw_from :: "de_ty \<Rightarrow> bytes \<Rightarrow> db_map \<Rightarrow> (svc_error + de_val) list" where
  "Map_keys_raw_from t from m = map (deserialize_key t) (Map_raw_keys_from from m)"

definition Map_rev_raw_keys_from :: "bytes \<Rightarrow> db_map \<Rightarrow> bytes list" where
  "Map_rev_raw_keys_from from m = map fst (Map_rev_raw_stream_from from m)"

definition Map_rev_keys_from_raw :: "ser_val \<Rightarrow> db_map \<Rightarrow> svc_error + bytes list" where
  "Map_rev_keys_from_raw from m =
     try_bind (expect ''failed to serialize query key'' (serialize_key from)) (\<lambda>key. Ok (Map_rev_raw_keys_from key m))"

definition Map_rev_keys_from :: "de_ty \<Rightarrow> ser_val \<Rightarrow> db_map \<Rightarrow> svc_error + (svc_error + de_val) list" where
  "Map_rev_keys_from t from m = try_bind (Map_rev_keys_from_raw from m) (\<lambda>ks. Ok (map (deserialize_key t) ks))"

definition Map_rev_keys_raw_from :: "de_ty \<Rightarrow> bytes \<Rightarrow> db_map \<Rightarrow> (svc_error + de_val) list" where
  "Map_rev_keys_raw_from t from m = map (deserialize_key t) (Map_rev_raw_keys_from from m)"

definition Map_rev_raw_keys_prefix :: "bytes \<Rightarrow> db_map \<Rightarrow> bytes list" where
  "Map_rev_raw_keys_prefix pre m = takeWhile (\<lambda>k. starts_with k pre) (Map_rev_raw_keys_from pre m)"

definition Map_rev_keys_prefix_raw :: "ser_val \<Rightarrow> db_map \<Rightarrow> svc_error + bytes list" where
  "Map_rev_keys_prefix_raw pre m =
     try_bind (expect ''failed to serialize query key'' (serialize_key pre)) (\<lambda>key.
       Ok (takeWhile (\<lambda>k. starts_with k key) (Map_rev_raw_keys_from key m)))"

definition Map_rev_keys_prefix :: "de_ty \<Rightarrow> ser_val \<Rightarrow> db_map \<Rightarrow> svc_error + (svc_error + de_val) list" where
  "Map_rev_keys_prefix t pre m = try_bind (Map_rev_keys_prefix_raw pre m) (\<lambda>ks. Ok (map (deserialize_key t) ks))"

definition Map_rev_keys_raw_prefix :: "de_ty \<Rightarrow> bytes \<Rightarrow> db_map \<Rightarrow> (svc_error + de_val) list" where
  "Map_rev_keys_raw_prefix t pre m = map (deserialize_key t) (Map_rev_raw_keys_prefix pre m)"

definition Map_count_from :: "ser_val \<Rightarrow> db_map \<Rightarrow> svc_error + nat" where
  "Map_count_from from m = try_bind (Map_keys_from_raw from m) (\<lambda>ks. Ok (length ks))"

text \<open>\<open>ready_for_each\<close> that removes the keys of a stream.\<close>

definition Map_remove_all :: "bytes list \<Rightarrow> db_map \<Rightarrow> db_map" where
  "Map_remove_all ks m = fold Map_remove ks m"

section \<open>Removing keys\<close>

lemma Map_remove_all_lookup [simp]:
  "map_of (cf (Map_remove_all ks m)) k = (if k \<in> set ks then None else map_of (cf m) k)"
  unfolding Map_remove_all_def by (induction ks arbitrary: m) auto

lemma wf_map_remove_all [simp]: "wf_map m \<Longrightarrow> wf_map (Map_remove_all ks m)"
  unfolding Map_remove_all_def by (induction ks arbitrary: m) auto

lemma raw_keys_prefix_set: "set (Map_raw_keys_prefix pre m) = {k. k \<in> fst ` set (cf m) \<and> starts_with k pre}"
  by (auto simp: raw_keys_prefix raw_stream_prefix)

section \<open>Windows of counts\<close>

text \<open>The count that follows a prefix in a key.\<close>

definition key_count :: "bytes \<Rightarrow> bytes \<Rightarrow> u64" where
  "key_count pre k = from_be_bytes (take 8 (drop (length pre) k))"

lemma key_count_append [simp]: "key_count pre (pre @ to_be_bytes c @ tail) = c"
  "key_count pre (pre @ to_be_bytes c) = c"
  by (simp_all add: key_count_def)

text \<open>Keys with the prefix have a count after it.\<close>

definition counted :: "bytes \<Rightarrow> bytes \<Rightarrow> bool" where
  "counted pre k \<longleftrightarrow> (starts_with k pre \<longrightarrow> length pre + 8 \<le> length k)"

lemma countedE:
  assumes "counted pre k" and "starts_with k pre"
  obtains c tail where "k = pre @ to_be_bytes c @ tail"
proof -
  obtain rest where k: "k = pre @ rest" using assms(2) by (auto simp: starts_with_iff)
  then have "length (take 8 rest) = 8" using assms by (simp add: counted_def)
  from to_from_be_bytes [OF this] have "rest = to_be_bytes (from_be_bytes (take 8 rest)) @ drop 8 rest" by simp
  with k show ?thesis using that by metis
qed

lemma count_key_le: "pre @ to_be_bytes n \<le> pre @ to_be_bytes c @ tail \<longleftrightarrow> n \<le> c"
proof -
  have "pre @ to_be_bytes c @ tail < pre @ to_be_bytes n \<longleftrightarrow> to_be_bytes c @ tail < to_be_bytes n @ []"
    using list_less_append [of pre pre] by simp
  also have "\<dots> \<longleftrightarrow> c < n"
    using list_less_append [of "to_be_bytes c" "to_be_bytes n" tail "[]"] by (simp add: to_be_bytes_less_iff)
  finally show ?thesis by (simp add: linorder_not_less [symmetric])
qed

lemma count_key_mono: "pre @ to_be_bytes c @ tail \<le> pre @ to_be_bytes c' @ tail' \<Longrightarrow> c \<le> c'"
  using list_less_append [of pre pre "to_be_bytes c' @ tail'" "to_be_bytes c @ tail"]
    list_less_append [of "to_be_bytes c'" "to_be_bytes c" tail' tail]
  by (simp add: linorder_not_less [symmetric] to_be_bytes_less_iff)

definition window :: "bytes \<Rightarrow> u64 \<Rightarrow> u64 \<Rightarrow> bytes \<times> bytes \<Rightarrow> bool" where
  "window pre n to kv \<longleftrightarrow> starts_with (fst kv) pre \<and> n \<le> key_count pre (fst kv) \<and> key_count pre (fst kv) \<le> to"

lemma stream_from_window:
  assumes counted: "\<And>k. k \<in> fst ` set (cf m) \<Longrightarrow> counted pre k"
  shows "takeWhile (\<lambda>kv. starts_with (fst kv) pre \<and> key_count pre (fst kv) \<le> to)
      (Map_raw_stream_from (pre @ to_be_bytes n) m) = filter (window pre n to) (Map_raw_stream m)"
proof -
  let ?P = "\<lambda>kv. starts_with (fst kv) pre \<and> key_count pre (fst kv) \<le> to"
  let ?xs = "Map_raw_stream_from (pre @ to_be_bytes n) m"
  have first: "pre \<le> pre @ to_be_bytes n" by (rule starts_with_le) (simp add: starts_with_iff)
  have "takeWhile ?P ?xs = filter ?P ?xs"
  proof (rule takeWhile_sorted [where f = fst])
    show "sorted (map fst ?xs)" by (simp add: Map_raw_stream_from_def sorted_filter)
    fix x y
    assume x: "x \<in> set ?xs" and y: "y \<in> set ?xs" and le: "fst x \<le> fst y" and P: "?P y"
    have "pre \<le> fst x" using first x by (auto simp: Map_raw_stream_from_def intro: order_trans)
    then have sx: "starts_with (fst x) pre" using le P starts_with_between by blast
    have mem: "counted pre (fst x)" "counted pre (fst y)" using counted x y by (auto simp: Map_raw_stream_from_def)
    obtain c tail where kx: "fst x = pre @ to_be_bytes c @ tail" by (rule countedE [OF mem(1) sx])
    obtain c' tail' where ky: "fst y = pre @ to_be_bytes c' @ tail'" using countedE [OF mem(2)] P by blast
    show "?P x" using sx P le count_key_mono [of pre c tail c' tail'] by (auto simp: kx ky)
  qed
  also have "\<dots> = filter (window pre n to) (Map_raw_stream m)"
    unfolding Map_raw_stream_from_def filter_filter
  proof (rule filter_cong)
    fix kv
    assume "kv \<in> set (Map_raw_stream m)"
    then have mem: "counted pre (fst kv)" using counted by simp
    show "(pre @ to_be_bytes n \<le> fst kv \<and> ?P kv) = window pre n to kv"
    proof (cases "starts_with (fst kv) pre")
      case True
      obtain c tail where "fst kv = pre @ to_be_bytes c @ tail" by (rule countedE [OF mem True])
      then show ?thesis using True by (simp add: window_def count_key_le)
    qed (simp add: window_def)
  qed simp
  finally show ?thesis .
qed

lemma takeWhile_rev_sorted:
  assumes "sorted (map f xs)"
    and "\<And>x y. x \<in> set xs \<Longrightarrow> y \<in> set xs \<Longrightarrow> f y \<le> f x \<Longrightarrow> P y \<Longrightarrow> P x"
  shows "takeWhile P (rev xs) = filter P (rev xs)"
  using assms
proof (induction xs rule: rev_induct)
  case (snoc x xs)
  have sorted: "sorted (map f xs)" "f y \<le> f x" if "y \<in> set xs" for y
    using snoc.prems(1) that by (simp_all add: sorted_append)
  show ?case
  proof (cases "P x")
    case True
    have "takeWhile P (rev xs) = filter P (rev xs)"
    proof (rule snoc.IH)
      show "sorted (map f xs)" using snoc.prems(1) by (simp add: sorted_append)
    qed (rule snoc.prems(2), simp_all)
    with True show ?thesis by simp
  next
    case False
    have "\<not> P y" if "y \<in> set xs" for y
      using snoc.prems(2) [of x y, simplified] sorted(2) [OF that] that False by blast
    then have "filter P (rev xs) = []" by (simp add: filter_empty_conv)
    with False show ?thesis by simp
  qed
qed simp

text \<open>In reverse from a count, when nothing follows the counts.\<close>

lemma rev_stream_from_window:
  assumes counted: "\<And>k. k \<in> fst ` set (cf m) \<Longrightarrow> starts_with k pre \<Longrightarrow> length k = length pre + 8"
  shows "takeWhile (\<lambda>kv. starts_with (fst kv) pre) (Map_rev_raw_stream_from (pre @ to_be_bytes n) m)
    = rev (filter (window pre 0 n) (Map_raw_stream m))"
proof -
  let ?P = "\<lambda>kv. starts_with (fst kv) pre"
  let ?xs = "filter (\<lambda>kv. fst kv \<le> pre @ to_be_bytes n) (Map_raw_stream m)"
  have xs: "Map_rev_raw_stream_from (pre @ to_be_bytes n) m = rev ?xs"
    by (simp add: Map_rev_raw_stream_from_def Map_rev_raw_stream_def rev_filter)
  have first: "starts_with (pre @ to_be_bytes n) pre" by (simp add: starts_with_iff)
  have "takeWhile ?P (rev ?xs) = filter ?P (rev ?xs)"
  proof (rule takeWhile_rev_sorted [where f = fst])
    show "sorted (map fst ?xs)" by (simp add: sorted_filter)
    fix x y
    assume x: "x \<in> set ?xs" and y: "y \<in> set ?xs" and le: "fst y \<le> fst x" and P: "?P y"
    have "pre \<le> fst x" using starts_with_le [OF P] le by simp
    then show "?P x" using x starts_with_between [OF _ _ first] by auto
  qed
  moreover have "filter ?P ?xs = filter (window pre 0 n) (Map_raw_stream m)"
    unfolding filter_filter
  proof (rule filter_cong)
    fix kv
    assume "kv \<in> set (Map_raw_stream m)"
    then have mem: "starts_with (fst kv) pre \<Longrightarrow> length (fst kv) = length pre + 8" using counted by auto
    then have "counted pre (fst kv)" by (simp add: counted_def)
    have "fst kv \<le> pre @ to_be_bytes n \<longleftrightarrow> key_count pre (fst kv) \<le> n" if P: "?P kv"
    proof -
      obtain c tail where k: "fst kv = pre @ to_be_bytes c @ tail"
        by (rule countedE [OF \<open>counted pre (fst kv)\<close> P])
      then have "tail = []" using mem [OF P] by simp
      then show ?thesis using list_less_append [of pre pre "to_be_bytes n" "to_be_bytes c"]
        by (simp add: k linorder_not_less [symmetric] to_be_bytes_less_iff)
    qed
    then show "(fst kv \<le> pre @ to_be_bytes n \<and> ?P kv) = window pre 0 n kv" by (auto simp: window_def)
  qed simp
  moreover have "filter ?P (rev ?xs) = rev (filter ?P ?xs)" by (rule rev_filter [symmetric])
  ultimately show ?thesis unfolding xs by (simp only:)
qed

lemma sorted_map_keys:
  "sorted (map g xs) \<Longrightarrow> (\<And>x y. x \<in> set xs \<Longrightarrow> y \<in> set xs \<Longrightarrow> g x \<le> g y \<Longrightarrow> f x \<le> f y) \<Longrightarrow> sorted (map f xs)"
  by (induction xs) auto

lemma window_sorted:
  assumes "\<And>k. k \<in> fst ` set (cf m) \<Longrightarrow> counted pre k"
  shows "sorted (map (\<lambda>kv. key_count pre (fst kv)) (filter (window pre n to) (Map_raw_stream m)))"
proof (rule sorted_map_keys [where g = fst])
  show "sorted (map fst (filter (window pre n to) (Map_raw_stream m)))" by (simp add: sorted_filter)
  fix x y
  assume "x \<in> set (filter (window pre n to) (Map_raw_stream m))" "y \<in> set (filter (window pre n to) (Map_raw_stream m))"
    and le: "fst x \<le> fst y"
  then have *: "counted pre (fst x)" "starts_with (fst x) pre" "counted pre (fst y)" "starts_with (fst y) pre"
    using assms by (auto simp: window_def)
  obtain c tail where kx: "fst x = pre @ to_be_bytes c @ tail" by (rule countedE [OF *(1,2)])
  obtain c' tail' where ky: "fst y = pre @ to_be_bytes c' @ tail'" by (rule countedE [OF *(3,4)])
  show "key_count pre (fst x) \<le> key_count pre (fst y)"
    using le count_key_mono [of pre c tail c' tail'] by (simp add: kx ky)
qed

text \<open>What a service reads from a stream whose entries all deserialise.\<close>

lemma read_while:
  assumes "\<And>kv. kv \<in> set kvs \<Longrightarrow> read kv = Ok (f kv)"
    and "\<And>kv. kv \<in> set kvs \<Longrightarrow> P (f kv) \<longleftrightarrow> Q kv"
  shows "takeWhile P (ignore_err (map read kvs)) = map f (takeWhile Q kvs)"
  using assms by (induction kvs) (simp_all add: ignore_err_def map_filter_simps)

end
